(* ===== verification/Dns_Prelude.thy ===== *)
theory Dns_Prelude
  imports Main "HOL-Library.Word"
begin

text \<open>
  Shared vocabulary of the dnsmeter development.

  \<^item> the machine types of the C++ code on its supported platforms (64-bit little-endian Linux
    and FreeBSD: \<open>unsigned char\<close>, \<open>unsigned short\<close>, \<open>unsigned int\<close>, and \<open>size_t\<close>,
    \<open>ppluint64\<close> and \<open>unsigned long\<close>, all three of 64 bits);
  \<^item> the exceptions the program throws (\<open>src/src/exceptions.h\<close> and the \<open>ppl7\<close> ones the
    sources name), with two extra values: undefined behaviour, such as a read or write outside an
    object, which the C++ standard gives no meaning to, and an exception that no handler of the
    program catches;
  \<^item> byte buffers: little-endian loads and stores of 16 and 32 bits, \<open>htons\<close> and \<open>htonl\<close>,
    \<open>memcpy\<close> into a buffer, with the laws of a structure field as a locale;
  \<^item> the collections \<open>layout\<close> (field accesses) and \<open>unat_simps\<close> (unsigned values) that the
    component proofs use.
\<close>

unbundle bit_operations_syntax

named_theorems layout \<open>reading a field of a buffer after a write to a buffer\<close>
named_theorems unat_simps \<open>unsigned values of the machine operations\<close>

subsection \<open>Machine types and results\<close>

type_synonym byte = "8 word"
type_synonym u16 = "16 word"
type_synonym u32 = "32 word"
type_synonym u64 = "64 word"
type_synonym bytes = "byte list"

datatype exn =
    MissingCommandlineParameter
  | InvalidCommandlineParameter
  | InvalidDNSQuery
  | UnknownRRType
  | BufferOverflow
  | UnknownDestination
  | InvalidQueryFile
  | UnsupportedIPFamily
  | FailedToInitializePacketfilter
  | KernelAccessFailed
  | SystemCallFailed
  | NullPointerException
  | OutOfMemoryException
  | InvalidArgumentsException
  | OperationInterruptedException
  | Ppl7Exception
  | UncaughtException
  | UndefinedBehaviour

type_synonym 'a result = "exn + 'a"

definition bindE :: "'a result \<Rightarrow> ('a \<Rightarrow> 'b result) \<Rightarrow> 'b result" where
  "bindE r f = (case r of Inl e \<Rightarrow> Inl e | Inr a \<Rightarrow> f a)"

lemma bindE_simps [simp]:
  "bindE (Inl e) f = Inl e"
  "bindE (Inr a) f = f a"
  by (simp_all add: bindE_def)

lemma bindE_Inr_iff: "bindE r f = Inr b \<longleftrightarrow> (\<exists>a. r = Inr a \<and> f a = Inr b)"
  by (cases r) auto

subsection \<open>Sixteen- and thirty-two-bit values in memory order\<close>

definition le16 :: "byte \<Rightarrow> byte \<Rightarrow> u16" where
  "le16 lo hi = ucast lo + 256 * ucast hi"

definition lo8 :: "u16 \<Rightarrow> byte" where
  "lo8 w = ucast w"

definition hi8 :: "u16 \<Rightarrow> byte" where
  "hi8 w = ucast (drop_bit 8 w)"

definition htons :: "u16 \<Rightarrow> u16" where
  "htons w = push_bit 8 w OR drop_bit 8 w"

definition lo16 :: "u32 \<Rightarrow> u16" where
  "lo16 w = ucast w"

definition hi16 :: "u32 \<Rightarrow> u16" where
  "hi16 w = ucast (drop_bit 16 w)"

definition le32 :: "u16 \<Rightarrow> u16 \<Rightarrow> u32" where
  "le32 lo hi = ucast lo + 65536 * ucast hi"

text \<open>\<open>htonl\<close> and \<open>ntohl\<close> reverse the four bytes: swap the halves and the bytes of each half.\<close>

definition htonl :: "u32 \<Rightarrow> u32" where
  "htonl w = le32 (htons (hi16 w)) (htons (lo16 w))"

lemma unat_ucast_mod: "unat (ucast (w :: 'a::len word) :: 'b::len word) = unat w mod 2 ^ LENGTH('b)"
  by (simp add: unsigned_ucast_eq take_bit_eq_mod)

lemma unat_drop_bit_div: "unat (drop_bit n (w :: 'a::len word)) = unat w div 2 ^ n"
  by (rule unat_drop_bit_eq [THEN trans]) (rule drop_bit_eq_div)

lemma byte_lt [simp]: "unat (b :: byte) < 256"
  using unsigned_less [of b, where ?'a = nat] by simp

lemma u16_lt [simp]: "unat (w :: u16) < 65536"
  using unsigned_less [of w, where ?'a = nat] by simp

lemma u32_lt [simp]: "unat (w :: u32) < 4294967296"
  using unsigned_less [of w, where ?'a = nat] by simp

lemma u64_lt [simp]: "unat (w :: u64) < 18446744073709551616"
  using unsigned_less [of w, where ?'a = nat] by simp

lemma unat_of_nat_u64: "n < 18446744073709551616 \<Longrightarrow> unat (word_of_nat n :: u64) = n"
  by (simp add: unat_of_nat)

lemma unat_lo8 [unat_simps]: "unat (lo8 w) = unat w mod 256"
  by (simp add: lo8_def unat_ucast_mod)

lemma unat_hi8 [unat_simps]: "unat (hi8 w) = unat w div 256"
proof -
  have "unat w div 256 < 256"
    using u16_lt [of w] by linarith
  then show ?thesis
    unfolding hi8_def by (simp only: unat_ucast_mod unat_drop_bit_div) simp
qed

lemma unat_le16 [unat_simps]: "unat (le16 lo hi) = unat lo + 256 * unat hi"
proof -
  have "unat lo mod 65536 = unat lo" and "unat hi mod 65536 = unat hi"
    and "unat lo + 256 * unat hi < 65536" and "256 * unat hi < 65536"
    using byte_lt [of lo] byte_lt [of hi] by (simp_all del: byte_lt)
  then show ?thesis
    by (simp add: le16_def unat_word_ariths unat_ucast_mod)
qed

lemma unat_lo16 [unat_simps]: "unat (lo16 w) = unat w mod 65536"
  by (simp add: lo16_def unat_ucast_mod)

lemma unat_hi16 [unat_simps]: "unat (hi16 w) = unat w div 65536"
proof -
  have "unat w div 65536 < 65536"
    using u32_lt [of w] by linarith
  then show ?thesis
    unfolding hi16_def by (simp only: unat_ucast_mod unat_drop_bit_div) simp
qed

lemma unat_le32 [unat_simps]: "unat (le32 lo hi) = unat lo + 65536 * unat hi"
proof -
  have "unat lo mod 4294967296 = unat lo" and "unat hi mod 4294967296 = unat hi"
    and "unat lo + 65536 * unat hi < 4294967296" and "65536 * unat hi < 4294967296"
    using u16_lt [of lo] u16_lt [of hi] by (simp_all del: u16_lt)
  then show ?thesis
    by (simp add: le32_def unat_word_ariths unat_ucast_mod)
qed

lemma le16_bytes [simp]: "le16 (lo8 w) (hi8 w) = w"
  by (simp add: word_unat_eq_iff unat_simps)

lemma lo8_le16 [simp]: "lo8 (le16 lo hi) = lo"
  using byte_lt [of lo] by (simp add: word_unat_eq_iff unat_simps)

lemma hi8_le16 [simp]: "hi8 (le16 lo hi) = hi"
  using byte_lt [of lo] by (simp add: word_unat_eq_iff unat_simps)

lemma le32_halves [simp]: "le32 (lo16 w) (hi16 w) = w"
  by (simp add: word_unat_eq_iff unat_simps)

lemma lo16_le32 [simp]: "lo16 (le32 lo hi) = lo"
  using u16_lt [of lo] by (simp add: word_unat_eq_iff unat_simps)

lemma hi16_le32 [simp]: "hi16 (le32 lo hi) = hi"
  using u16_lt [of lo] by (simp add: word_unat_eq_iff unat_simps)

lemma htons_bytes: "htons w = le16 (hi8 w) (lo8 w)"
proof -
  have "push_bit 8 w OR drop_bit 8 w = push_bit 8 w + drop_bit 8 w"
  proof (rule disjunctive_add_eq_or [symmetric], rule bit_word_eqI)
    fix n :: nat
    have "\<not> bit w (8 + n)" if "8 \<le> n"
      using that bit_imp_le_length [of w "8 + n"] by auto
    then show "bit (push_bit 8 w AND drop_bit 8 w) n = bit (0 :: u16) n"
      by (auto simp: bit_simps)
  qed
  moreover have "push_bit 8 w = 256 * ucast (lo8 w)"
    by (simp add: push_bit_eq_mult word_unat_eq_iff unat_word_ariths unat_ucast_mod unat_lo8)
       (simp add: mult.commute mult_mod_right)
  moreover have "drop_bit 8 w = ucast (hi8 w)"
    using byte_lt [of "hi8 w"] by (simp only: word_unat_eq_iff unat_ucast_mod unat_drop_bit_div unat_hi8) simp
  ultimately show ?thesis
    by (simp add: htons_def le16_def)
qed

lemma htons_htons [simp]: "htons (htons w) = w"
  by (simp add: htons_bytes)

lemma htons_eq_iff [simp]: "htons v = htons w \<longleftrightarrow> v = w"
  by (metis htons_htons)

lemma htonl_htonl [simp]: "htonl (htonl w) = w"
  by (simp add: htonl_def)

lemma htonl_inject: "htonl v = htonl w \<longleftrightarrow> v = w"
  by (metis htonl_htonl)

lemma lo8_htons [simp]: "lo8 (htons w) = hi8 w"
  by (simp add: htons_bytes)

lemma hi8_htons [simp]: "hi8 (htons w) = lo8 w"
  by (simp add: htons_bytes)

subsection \<open>Buffers\<close>

definition load8 :: "nat \<Rightarrow> bytes \<Rightarrow> byte" where
  "load8 off b = b ! off"

definition store8 :: "nat \<Rightarrow> byte \<Rightarrow> bytes \<Rightarrow> bytes" where
  "store8 off v b = b[off := v]"

definition load16 :: "nat \<Rightarrow> bytes \<Rightarrow> u16" where
  "load16 off b = le16 (b ! off) (b ! (off + 1))"

definition store16 :: "nat \<Rightarrow> u16 \<Rightarrow> bytes \<Rightarrow> bytes" where
  "store16 off w b = b[off := lo8 w, off + 1 := hi8 w]"

definition load32 :: "nat \<Rightarrow> bytes \<Rightarrow> u32" where
  "load32 off b = le32 (load16 off b) (load16 (off + 2) b)"

definition store32 :: "nat \<Rightarrow> u32 \<Rightarrow> bytes \<Rightarrow> bytes" where
  "store32 off w b = store16 (off + 2) (hi16 w) (store16 off (lo16 w) b)"

definition bytes_at :: "nat \<Rightarrow> nat \<Rightarrow> bytes \<Rightarrow> bytes" where
  "bytes_at off n b = take n (drop off b)"

definition blit :: "nat \<Rightarrow> bytes \<Rightarrow> bytes \<Rightarrow> bytes" where
  "blit off src b = take off b @ src @ drop (off + length src) b"

lemma length_slice [simp]: "off + n \<le> length b \<Longrightarrow> length (bytes_at off n b) = n"
  by (simp add: bytes_at_def)

lemma nth_slice: "i < n \<Longrightarrow> off + n \<le> length b \<Longrightarrow> bytes_at off n b ! i = b ! (off + i)"
  by (simp add: bytes_at_def)

lemma slice_add: "bytes_at off (m + n) b = bytes_at off m b @ bytes_at (off + m) n b"
  by (simp add: bytes_at_def take_add drop_drop add.commute)

lemma length_blit [layout]: "off + length src \<le> length b \<Longrightarrow> length (blit off src b) = length b"
  by (simp add: blit_def)

lemma nth_blit:
  "off + length src \<le> length b \<Longrightarrow> i < length b \<Longrightarrow>
   blit off src b ! i = (if off \<le> i \<and> i < off + length src then src ! (i - off) else b ! i)"
  by (auto simp: blit_def nth_append min_def)

lemma slice_blit_same [layout]:
  "off + length src \<le> length b \<Longrightarrow> bytes_at off (length src) (blit off src b) = src"
  by (simp add: bytes_at_def blit_def)

lemma slice_eqI:
  assumes "length b = length c" and "off + n \<le> length b"
    and "\<And>i. off \<le> i \<Longrightarrow> i < off + n \<Longrightarrow> b ! i = c ! i"
  shows "bytes_at off n b = bytes_at off n c"
  using assms by (intro nth_equalityI) (auto simp: nth_slice)

lemma slice_blit_other [layout]:
  "off + length src \<le> length b \<Longrightarrow> o' + n \<le> length b \<Longrightarrow> o' + n \<le> off \<or> off + length src \<le> o' \<Longrightarrow>
   bytes_at o' n (blit off src b) = bytes_at o' n b"
  by (rule slice_eqI) (auto simp: length_blit nth_blit)

lemma blit_adjacent:
  "off + length xs + length ys \<le> length b \<Longrightarrow>
   blit (off + length xs) ys (blit off xs b) = blit off (xs @ ys) b"
  by (simp add: blit_def ac_simps)

lemma blit_0: "blit 0 xs b = xs @ drop (length xs) b"
  by (simp add: blit_def)

lemma bytes_at_singleton: "p < length b \<Longrightarrow> bytes_at p (Suc n) b = b ! p # bytes_at (Suc p) n b"
  by (simp add: bytes_at_def flip: Cons_nth_drop_Suc)

lemma store8_blit: "off < length b \<Longrightarrow> store8 off v b = blit off [v] b"
  by (simp add: store8_def blit_def upd_conv_take_nth_drop)

lemma store16_blit: "off + 2 \<le> length b \<Longrightarrow> store16 off w b = blit off [lo8 w, hi8 w] b"
  by (rule nth_equalityI) (auto simp: store16_def length_blit nth_blit nth_list_update nth_Cons')

lemma store16_copy:
  "off + 2 \<le> length b \<Longrightarrow> p + 2 \<le> length c \<Longrightarrow> store16 off (load16 p c) b = blit off (bytes_at p 2 c) b"
  by (simp add: store16_blit load16_def bytes_at_singleton numeral_2_eq_2 bytes_at_def take_Suc_conv_app_nth
      flip: Cons_nth_drop_Suc)

lemma store32_copy:
  assumes "off + 4 \<le> length b" and "p + 4 \<le> length c"
  shows "store32 off (load32 p c) b = blit off (bytes_at p 4 c) b"
proof -
  have "store32 off (load32 p c) b = blit (off + 2) (bytes_at (p + 2) 2 c) (blit off (bytes_at p 2 c) b)"
    using assms by (simp add: store32_def load32_def store16_copy length_blit)
  also have "\<dots> = blit off (bytes_at p 2 c @ bytes_at (p + 2) 2 c) b"
    using assms blit_adjacent [of off "bytes_at p 2 c" "bytes_at (p + 2) 2 c" b] by simp
  also have "bytes_at p 2 c @ bytes_at (p + 2) 2 c = bytes_at p 4 c"
    using slice_add [of p 2 2 c] by simp
  finally show ?thesis .
qed

lemma store16_blit_inside:
  assumes "off \<le> length b" and "k + 2 \<le> length src"
  shows "store16 (off + k) v (blit off src b) = blit off (store16 k v src) b"
  using assms by (simp add: store16_def blit_def list_update_append)

lemma slice_store16:
  assumes "off \<le> p" and "p + 2 \<le> off + n" and "off + n \<le> length b"
  shows "bytes_at off n (store16 p v b) = store16 (p - off) v (bytes_at off n b)"
  using assms by (simp add: bytes_at_def store16_def drop_update_swap take_update_swap Suc_diff_le)

subsection \<open>The contract of a structure field\<close>

text \<open>
  The packet code reads and writes header fields by casting a buffer address to a structure.
  \<open>field\<close> is what such an access promises: a write keeps the length of the buffer, is read back,
  and touches the bytes of its own extent only; a read depends on those bytes only. Two fields
  whose extents do not overlap are then independent, and a field is independent of a \<open>memcpy\<close>
  beside it.
\<close>

locale field =
  fixes sz :: nat and get :: "nat \<Rightarrow> bytes \<Rightarrow> 'v" and put :: "nat \<Rightarrow> 'v \<Rightarrow> bytes \<Rightarrow> bytes"
  assumes length_put: "length (put off v b) = length b"
    and get_put_same: "off + sz \<le> length b \<Longrightarrow> get off (put off v b) = v"
    and nth_put_other: "i < off \<or> off + sz \<le> i \<Longrightarrow> put off v b ! i = b ! i"
    and get_local: "(\<And>i. off \<le> i \<Longrightarrow> i < off + sz \<Longrightarrow> b ! i = c ! i) \<Longrightarrow> get off b = get off c"
begin

lemma get_blit_other:
  assumes "p + length src \<le> length b" and "off + sz \<le> length b"
    and "off + sz \<le> p \<or> p + length src \<le> off"
  shows "get off (blit p src b) = get off b"
  by (rule get_local) (use assms in \<open>auto simp: nth_blit\<close>)

lemma slice_put_other:
  assumes "o' + n \<le> length b" and "o' + n \<le> off \<or> off + sz \<le> o'"
  shows "bytes_at o' n (put off v b) = bytes_at o' n b"
  by (rule slice_eqI) (use assms in \<open>auto simp: length_put nth_put_other\<close>)

end

locale two_fields = f: field sz1 get1 put1 + g: field sz2 get2 put2
  for sz1 :: nat and get1 :: "nat \<Rightarrow> bytes \<Rightarrow> 'v" and put1 :: "nat \<Rightarrow> 'v \<Rightarrow> bytes \<Rightarrow> bytes"
    and sz2 :: nat and get2 :: "nat \<Rightarrow> bytes \<Rightarrow> 'w" and put2 :: "nat \<Rightarrow> 'w \<Rightarrow> bytes \<Rightarrow> bytes"
begin

lemma get_put_other: "off + sz1 \<le> p \<or> p + sz2 \<le> off \<Longrightarrow> get1 off (put2 p v b) = get1 off b"
  by (rule f.get_local) (auto simp: g.nth_put_other)

end

interpretation f8: field 1 load8 store8
  by unfold_locales (auto simp: load8_def store8_def)

interpretation f16: field 2 load16 store16
  by unfold_locales (auto simp: load16_def store16_def nth_list_update)

interpretation f32: field 4 load32 store32
proof
  fix off :: nat and v :: u32 and b c :: bytes
  show "length (store32 off v b) = length b"
    by (simp add: store32_def f16.length_put)
  show "load32 off (store32 off v b) = v" if "off + 4 \<le> length b"
    using that by (simp add: load32_def store32_def load16_def store16_def)
  show "store32 off v b ! i = b ! i" if "i < off \<or> off + 4 \<le> i" for i
    using that by (auto simp: store32_def f16.nth_put_other)
  show "load32 off b = load32 off c" if "\<And>i. off \<le> i \<Longrightarrow> i < off + 4 \<Longrightarrow> b ! i = c ! i"
    using that by (simp add: load32_def load16_def)
qed

interpretation f8_8: two_fields 1 load8 store8 1 load8 store8 ..
interpretation f8_16: two_fields 1 load8 store8 2 load16 store16 ..
interpretation f8_32: two_fields 1 load8 store8 4 load32 store32 ..
interpretation f16_8: two_fields 2 load16 store16 1 load8 store8 ..
interpretation f16_16: two_fields 2 load16 store16 2 load16 store16 ..
interpretation f16_32: two_fields 2 load16 store16 4 load32 store32 ..
interpretation f32_8: two_fields 4 load32 store32 1 load8 store8 ..
interpretation f32_16: two_fields 4 load32 store32 2 load16 store16 ..
interpretation f32_32: two_fields 4 load32 store32 4 load32 store32 ..

lemmas field_lengths [layout, simp] = f8.length_put f16.length_put f32.length_put
lemmas field_reads [layout] = f8.get_put_same f16.get_put_same f32.get_put_same
lemmas field_others [layout] = f8_8.get_put_other f8_16.get_put_other f8_32.get_put_other
  f16_8.get_put_other f16_16.get_put_other f16_32.get_put_other
  f32_8.get_put_other f32_16.get_put_other f32_32.get_put_other
lemmas field_blits [layout] = f8.get_blit_other f16.get_blit_other f32.get_blit_other
lemmas field_slices [layout] = f8.slice_put_other f16.slice_put_other f32.slice_put_other

end
