(* ===== verification/Checksum.thy ===== *)
theory Checksum
  imports Dns_Prelude
begin

text \<open>
  The Internet checksum of \<open>src/src/packet.cpp\<close> (\<open>in_cksum\<close>), its equality with the one's
  complement checksum of RFC 1071, and the contract the packet code relies on: storing the
  checksum of a region into its own, previously zero, checksum field makes the checksum of the
  region zero, which is what a receiver tests.
\<close>

subsection \<open>The code\<close>

text \<open>
  \<open>in_cksum addr len\<close> over the \<open>len\<close> bytes of the list. The loop adds the bytes pairwise as
  little-endian \<open>unsigned short\<close>s; \<open>sum\<close> (here \<open>acc\<close>) is an \<open>int\<close>, 32 bits wide with the arithmetic
  right shift of \<open>>>\<close>; a last odd byte is added as the low byte of \<open>answer\<close>.
\<close>

fun cksum_loop :: "bytes \<Rightarrow> u32 \<Rightarrow> u32" where
  "cksum_loop (x # y # w) acc = cksum_loop w (acc + ucast (le16 x y))"
| "cksum_loop [x] acc = acc + ucast (le16 x 0)"
| "cksum_loop [] acc = acc"

definition in_cksum :: "bytes \<Rightarrow> u16" where
  "in_cksum w =
     (let acc = cksum_loop w 0;
          acc = signed_drop_bit 16 acc + (acc AND 0xffff);
          acc = acc + signed_drop_bit 16 acc
      in ucast (NOT acc))"

subsection \<open>RFC 1071\<close>

text \<open>The reference: fold the 16-bit words with end-around-carry addition and complement.\<close>

fun words16 :: "bytes \<Rightarrow> u16 list" where
  "words16 (x # y # w) = le16 x y # words16 w"
| "words16 [x] = [le16 x 0]"
| "words16 [] = []"

definition oc_add :: "u16 \<Rightarrow> u16 \<Rightarrow> u16" where
  "oc_add a b = (if a + b < a then a + b + 1 else a + b)"

definition rfc1071 :: "bytes \<Rightarrow> u16" where
  "rfc1071 b = NOT (foldl oc_add 0 (words16 b))"

subsection \<open>The one's complement representative of a sum\<close>

definition oc_norm :: "nat \<Rightarrow> nat" where
  "oc_norm s = (if s = 0 then 0 else (s - 1) mod 65535 + 1)"

definition wsum :: "bytes \<Rightarrow> nat" where
  "wsum b = sum_list (map unat (words16 b))"

lemma oc_norm_le: "oc_norm s \<le> 65535"
proof -
  have "(s - 1) mod 65535 < 65535" by (rule mod_less_divisor) simp
  then have "(s - 1) mod 65535 + 1 \<le> 65535" by linarith
  then show ?thesis by (auto simp: oc_norm_def)
qed

lemma oc_norm_id: "s \<le> 65535 \<Longrightarrow> oc_norm s = s"
  by (simp add: oc_norm_def)

lemma oc_norm_shift: "0 < s \<Longrightarrow> oc_norm (s + 65535 * k) = oc_norm s"
proof -
  assume "0 < s"
  then have "s + 65535 * k - 1 = (s - 1) + k * 65535" by simp
  then have "(s + 65535 * k - 1) mod 65535 = (s - 1) mod 65535"
    by (simp only: mod_mult_self1)
  with \<open>0 < s\<close> show ?thesis by (simp add: oc_norm_def)
qed

lemma oc_norm_reduce: "65535 < s \<Longrightarrow> oc_norm s = oc_norm (s - 65535)"
  using oc_norm_shift [of "s - 65535" 1] by simp

lemma oc_norm_decomp: "\<exists>k. s = oc_norm s + 65535 * k"
proof (cases "s = 0")
  case True
  then show ?thesis by (simp add: oc_norm_def)
next
  case False
  have "s - 1 = (s - 1) mod 65535 + 65535 * ((s - 1) div 65535)"
    by simp
  then have "s = (s - 1) mod 65535 + 1 + 65535 * ((s - 1) div 65535)"
    using False by linarith
  then have "s = oc_norm s + 65535 * ((s - 1) div 65535)"
    using False by (simp only: oc_norm_def if_False)
  then show ?thesis by blast
qed

lemma oc_norm_pos: "0 < s \<Longrightarrow> 0 < oc_norm s"
  by (simp add: oc_norm_def)

lemma oc_norm_add: "oc_norm (oc_norm a + b) = oc_norm (a + b)"
proof (cases "a = 0")
  case True
  then show ?thesis by (simp add: oc_norm_def)
next
  case False
  obtain k where k: "a = oc_norm a + 65535 * k"
    using oc_norm_decomp by blast
  have "oc_norm (oc_norm a + b) = oc_norm (oc_norm a + b + 65535 * k)"
    using False by (simp add: oc_norm_shift oc_norm_pos)
  also have "oc_norm a + b + 65535 * k = a + b"
    using k by simp
  finally show ?thesis .
qed

lemma oc_norm_fold:
  assumes "s < 2147483648"
  shows "oc_norm s =
    (s div 65536 + s mod 65536 + (s div 65536 + s mod 65536) div 65536) mod 65536"
proof -
  define h l where "h = s div 65536" and "l = s mod 65536"
  have s: "s = h + l + 65535 * h" and h: "h < 32768" and l: "l < 65536"
    using assms by (simp_all add: h_def l_def)
  consider "h + l = 0" | "0 < h + l" "h + l < 65536" | "65536 \<le> h + l"
    by linarith
  then have "oc_norm s = (h + l + (h + l) div 65536) mod 65536"
  proof cases
    case 1
    with s show ?thesis by (simp add: oc_norm_def)
  next
    case 2
    then have "oc_norm s = h + l"
      using s oc_norm_shift [of "h + l" h] by (simp add: oc_norm_id)
    with 2 show ?thesis by simp
  next
    case 3
    then have "(h + l) div 65536 = 1" using h l by simp
    moreover have "oc_norm s = h + l - 65535"
      using s oc_norm_shift [of "h + l" h] 3 h l by (simp add: oc_norm_reduce oc_norm_id)
    ultimately show ?thesis using 3 h l by (simp add: mod_if)
  qed
  then show ?thesis by (simp only: h_def l_def)
qed

subsection \<open>The code computes the representative\<close>

lemma length_words16: "length (words16 b) = (length b + 1) div 2"
  by (induction b rule: words16.induct) auto

lemma wsum_simps [simp]:
  "wsum (x # y # w) = unat (le16 x y) + wsum w"
  "wsum [x] = unat (le16 x 0)"
  "wsum [] = 0"
  by (simp_all add: wsum_def)

lemma wsum_bound: "wsum b \<le> 65535 * ((length b + 1) div 2)"
proof (induction b rule: words16.induct)
  case (1 x y w)
  then show ?case using u16_lt [of "le16 x y"] by (simp del: u16_lt)
next
  case (2 x)
  then show ?case using u16_lt [of "le16 x 0"] by (simp del: u16_lt)
qed simp

lemma wsum_small: "length b \<le> 65535 \<Longrightarrow> wsum b < 2147483648"
  using wsum_bound [of b] by linarith

lemma unat_add_small:
  "unat a + unat b < 4294967296 \<Longrightarrow> unat ((a :: u32) + b) = unat a + unat b"
  by (simp add: unat_word_ariths)

lemma unat_ucast_u16 [simp]: "unat (ucast (w :: u16) :: u32) = unat w"
proof -
  have "unat w mod 4294967296 = unat w"
    using u16_lt [of w] by (intro mod_less) linarith
  then show ?thesis by (simp add: unat_ucast_mod)
qed

lemma unat_cksum_loop:
  "unat acc + wsum b < 4294967296 \<Longrightarrow> unat (cksum_loop b acc) = unat acc + wsum b"
  by (induction b acc rule: cksum_loop.induct) (simp_all add: unat_add_small)

lemma signed_drop_bit_nonneg:
  "unat (w :: u32) < 2147483648 \<Longrightarrow> unat (signed_drop_bit 16 w) = unat w div 65536"
proof -
  assume "unat w < 2147483648"
  then have "unat w div 2 ^ 31 = 0" by simp
  then have "drop_bit 31 w = 0"
    by (simp only: word_unat_eq_iff unat_drop_bit_div unsigned_0)
  then have "\<not> bit (drop_bit 31 w) 0" by (simp only: bit_0_eq) simp
  then have "\<not> bit w (LENGTH(32) - 1)" by (simp only: bit_drop_bit_eq comp_apply) simp
  note msb = this
  have "signed_drop_bit 16 w = drop_bit 16 w"
  proof (rule bit_word_eqI)
    fix n :: nat assume "n < LENGTH(32)"
    then consider "n + 16 < 32" | "n < 32" "32 \<le> n + 16" by fastforce
    then show "bit (signed_drop_bit 16 w) n = bit (drop_bit 16 w) n"
      using msb bit_imp_le_length [of w "n + 16"]
      by cases (simp_all only: bit_signed_drop_bit_iff bit_drop_bit_eq comp_apply, auto simp: add.commute)
  qed
  then show ?thesis by (simp only: unat_drop_bit_div) simp
qed

lemma unat_and_ffff: "unat ((w :: u32) AND 0xffff) = unat w mod 65536"
proof -
  have "w AND 0xffff = take_bit 16 w"
    by (simp add: take_bit_eq_mask mask_numeral)
  then show ?thesis by (simp only: unsigned_take_bit_eq) (simp add: take_bit_eq_mod)
qed

lemma unat_not_u16: "unat (NOT (w :: u16)) = 65535 - unat w"
proof -
  have "NOT w = 65535 - w" by (simp add: not_eq_complement)
  moreover have "w \<le> 65535"
    using u16_lt [of w] by (simp add: word_le_nat_alt del: u16_lt)
  ultimately show ?thesis by (simp add: unat_sub)
qed

lemma ucast_not_u16: "ucast (NOT (w :: u32)) = NOT (ucast w :: u16)"
  by (rule bit_word_eqI) (simp add: bit_simps)

lemma in_cksum_value:
  assumes "length b \<le> 65535"
  shows "unat (in_cksum b) = 65535 - oc_norm (wsum b)"
proof -
  define s1 where "s1 = cksum_loop b 0"
  define s2 where "s2 = signed_drop_bit 16 s1 + (s1 AND 0xffff)"
  define s3 where "s3 = s2 + signed_drop_bit 16 s2"
  have small: "wsum b < 2147483648" using assms by (rule wsum_small)
  have s1: "unat s1 = wsum b"
    using small by (simp add: s1_def unat_cksum_loop)
  have "unat s2 = wsum b div 65536 + wsum b mod 65536"
    unfolding s2_def using small s1
    by (subst unat_add_small) (auto simp: signed_drop_bit_nonneg unat_and_ffff)
  moreover from this have "unat s2 < 98304"
    using small mod_less_divisor [of 65536 "wsum b"] by (simp add: div_less_iff_less_mult)
  ultimately have "unat s3 mod 65536 = oc_norm (wsum b)"
    unfolding s3_def using small
    by (subst unat_add_small) (auto simp: signed_drop_bit_nonneg oc_norm_fold)
  then have "unat (ucast s3 :: u16) = oc_norm (wsum b)"
    by (simp add: unat_ucast_mod)
  moreover have "in_cksum b = NOT (ucast s3)"
    by (simp add: in_cksum_def Let_def s1_def s2_def s3_def ucast_not_u16)
  ultimately show ?thesis by (simp add: unat_not_u16)
qed

subsection \<open>The reference computes the same representative\<close>

lemma mod_once: "\<not> n < 65536 \<Longrightarrow> n < 131072 \<Longrightarrow> n mod 65536 = n - (65536 :: nat)"
  by (subst le_mod_geq) simp_all

lemma unat_oc_add: "unat (oc_add a b) = oc_norm (unat a + unat b)"
proof (cases "unat a + unat b < 65536")
  case True
  then have "unat (a + b) = unat a + unat b" by (simp add: unat_word_ariths)
  with True show ?thesis
    by (simp add: oc_add_def word_less_nat_alt oc_norm_id)
next
  case False
  have lt: "unat a < 65536" "unat b < 65536" by simp_all
  have "unat (a + b) = (unat a + unat b) mod 65536" by (simp add: unat_word_ariths)
  then have sum: "unat (a + b) = unat a + unat b - 65536"
    using False lt mod_once [of "unat a + unat b"] by linarith
  have "unat (a + b + 1) = (unat (a + b) + 1) mod 65536" by (simp add: unat_word_ariths)
  also have "\<dots> = unat a + unat b - 65535"
    unfolding sum using False lt by (subst mod_less) linarith+
  finally have "unat (a + b + 1) = unat a + unat b - 65535" .
  have "oc_norm (unat a + unat b) = unat a + unat b - 65535"
  proof -
    have "oc_norm (unat a + unat b) = oc_norm (unat a + unat b - 65535)"
      using False by (intro oc_norm_reduce) linarith
    also have "\<dots> = unat a + unat b - 65535"
      using lt by (intro oc_norm_id) linarith
    finally show ?thesis .
  qed
  moreover have "a + b < a"
    unfolding word_less_nat_alt sum using False lt by linarith
  ultimately show ?thesis
    using \<open>unat (a + b + 1) = unat a + unat b - 65535\<close> by (simp only: oc_add_def if_True)
qed

lemma unat_foldl_oc_add:
  "unat (foldl oc_add a ws) = oc_norm (unat a + sum_list (map unat ws))"
proof (induction ws arbitrary: a)
  case Nil
  have "unat a \<le> 65535" using u16_lt [of a] by linarith
  then show ?case by (simp add: oc_norm_id)
next
  case (Cons w ws)
  then show ?case by (simp add: unat_oc_add oc_norm_add add.assoc)
qed

lemma rfc1071_value: "unat (rfc1071 b) = 65535 - oc_norm (wsum b)"
  by (simp add: rfc1071_def unat_not_u16 unat_foldl_oc_add wsum_def)

text \<open>
  C12. The checksum routine, which defers the carries of its 32-bit sum, computes the RFC 1071
  checksum of every region of at most 65535 bytes.
\<close>

theorem in_cksum_rfc1071: "length b \<le> 65535 \<Longrightarrow> in_cksum b = rfc1071 b"
  by (simp add: word_unat_eq_iff in_cksum_value rfc1071_value)

theorem in_cksum_rfc1071_witness: "in_cksum [0x45, 0, 0, 0x1c, 0xff] = rfc1071 [0x45, 0, 0, 0x1c, 0xff]"
  by (rule in_cksum_rfc1071) simp

subsection \<open>Storing and checking a checksum\<close>

lemma words16_store16:
  "2 * i + 2 \<le> length b \<Longrightarrow> words16 (store16 (2 * i) v b) = (words16 b)[i := v]"
proof (induction i arbitrary: b)
  case 0
  then obtain x y w where "b = x # y # w"
    by (cases b rule: words16.cases) auto
  then show ?case by (simp add: store16_def)
next
  case (Suc i)
  then obtain x y w where b: "b = x # y # w" and "2 * i + 2 \<le> length w"
    by (cases b rule: words16.cases) auto
  then have "words16 (store16 (2 * i) v w) = (words16 w)[i := v]" using Suc.IH by simp
  moreover have "store16 (2 * Suc i) v b = x # y # store16 (2 * i) v w"
    by (simp add: b store16_def)
  ultimately show ?case by (simp add: b)
qed

lemma nth_words16: "2 * i + 2 \<le> length b \<Longrightarrow> words16 b ! i = load16 (2 * i) b"
proof (induction i arbitrary: b)
  case 0
  then show ?case by (cases b rule: words16.cases) (auto simp: load16_def)
next
  case (Suc i)
  then show ?case by (cases b rule: words16.cases) (auto simp: load16_def)
qed

lemma wsum_store16:
  assumes "even off" and "off + 2 \<le> length b"
  shows "wsum (store16 off v b) + unat (load16 off b) = wsum b + unat v"
proof -
  obtain i where off: "off = 2 * i" using \<open>even off\<close> by blast
  have i: "i < length (words16 b)" using assms by (simp add: off length_words16)
  have "wsum (store16 off v b) = sum_list ((map unat (words16 b))[i := unat v])"
    using assms by (simp add: off wsum_def words16_store16 map_update)
  moreover have "unat (load16 off b) = map unat (words16 b) ! i"
    using assms i by (simp add: off nth_words16)
  moreover have "map unat (words16 b) ! i \<le> wsum b"
    unfolding wsum_def using i by (intro elem_le_sum_list) simp
  ultimately show ?thesis
    using i by (simp add: sum_list_update wsum_def)
qed

lemma in_cksum_zero_iff:
  "length b \<le> 65535 \<Longrightarrow> in_cksum b = 0 \<longleftrightarrow> oc_norm (wsum b) = 65535"
  using oc_norm_le [of "wsum b"] by (auto simp: word_unat_eq_iff in_cksum_value)

lemma oc_norm_complement: "oc_norm (s + (65535 - oc_norm s)) = 65535"
proof -
  have "oc_norm (s + (65535 - oc_norm s)) = oc_norm (oc_norm s + (65535 - oc_norm s))"
    by (simp add: oc_norm_add)
  then show ?thesis using oc_norm_le [of s] by (simp add: oc_norm_id)
qed

text \<open>
  What the packet code needs of a checksum, whatever computes it: \<open>seal\<close> for the sender (a sealed
  region verifies) and \<open>detect\<close> for the receiver (another value of one aligned 16-bit word does
  not verify, except that the two one's complement zeros cannot be told apart).
\<close>

locale checksum_code =
  fixes ck :: "bytes \<Rightarrow> u16"
  assumes seal: "even off \<Longrightarrow> off + 2 \<le> length b \<Longrightarrow> length b \<le> 65535 \<Longrightarrow>
      load16 off b = 0 \<Longrightarrow> ck (store16 off (ck b) b) = 0"
    and detect: "even off \<Longrightarrow> off + 2 \<le> length b \<Longrightarrow> length b \<le> 65535 \<Longrightarrow>
      ck b = 0 \<Longrightarrow> ck (store16 off v b) = 0 \<Longrightarrow>
      v = load16 off b \<or> {v, load16 off b} = {0, 0xffff}"

lemma in_cksum_seal:
  assumes "even off" and "off + 2 \<le> length b" and "length b \<le> 65535" and "load16 off b = 0"
  shows "in_cksum (store16 off (in_cksum b) b) = 0"
proof -
  have "wsum (store16 off (in_cksum b) b) = wsum b + (65535 - oc_norm (wsum b))"
    using wsum_store16 [OF assms(1,2), of "in_cksum b"] assms(3,4)
    by (simp add: in_cksum_value)
  then show ?thesis
    using assms(3) by (simp add: in_cksum_zero_iff oc_norm_complement)
qed

lemma oc_norm_65535: "oc_norm s = 65535 \<longleftrightarrow> 0 < s \<and> 65535 dvd s"
proof
  assume n: "oc_norm s = 65535"
  obtain k where "s = oc_norm s + 65535 * k" using oc_norm_decomp by blast
  with n have "s = 65535 * (k + 1)" by simp
  then show "0 < s \<and> 65535 dvd s" by (metis dvd_triv_left n oc_norm_id zero_less_iff_neq_zero le0 zero_neq_numeral)
next
  assume s: "0 < s \<and> 65535 dvd s"
  then obtain k where k: "s = 65535 * k" by blast
  with s have "s = 65535 + 65535 * (k - 1)" by (cases k) auto
  then show "oc_norm s = 65535"
    using oc_norm_shift [of 65535 "k - 1"] by (simp add: oc_norm_id)
qed

lemma u16_mod_65535:
  fixes v w :: u16
  assumes "65535 dvd s" and "65535 dvd t" and "s + unat v = t + unat w"
  shows "v = w \<or> {v, w} = {0, 0xffff}"
proof -
  from assms obtain k l where eq: "65535 * k + unat v = 65535 * l + unat w" by (auto elim!: dvdE)
  have le: "unat v \<le> 65535" "unat w \<le> 65535"
    using u16_lt [of v] u16_lt [of w] by linarith+
  consider "k = l" | "k + 1 \<le> l" | "l + 1 \<le> k" by linarith
  then have "unat v = unat w \<or> (unat v = 0 \<and> unat w = 65535) \<or> (unat v = 65535 \<and> unat w = 0)"
    using eq le by cases linarith+
  then show ?thesis
    by (auto simp: word_unat_eq_iff)
qed

lemma in_cksum_detect:
  assumes "even off" and "off + 2 \<le> length b" and "length b \<le> 65535"
    and "in_cksum b = 0" and "in_cksum (store16 off v b) = 0"
  shows "v = load16 off b \<or> {v, load16 off b} = {0, 0xffff}"
proof -
  have "65535 dvd wsum b" and "65535 dvd wsum (store16 off v b)"
    using assms by (simp_all add: in_cksum_zero_iff oc_norm_65535)
  moreover have "wsum b + unat v = wsum (store16 off v b) + unat (load16 off b)"
    using wsum_store16 [OF assms(1,2), of v] by simp
  ultimately show ?thesis by (rule u16_mod_65535)
qed

interpretation ck: checksum_code in_cksum
  by unfold_locales (rule in_cksum_seal in_cksum_detect; assumption)+

end
