(* ===== verification/Floating.thy ===== *)
theory Floating
  imports Complex_Main "HOL-Library.Log_Nat"
begin

text \<open>
  The floating-point arithmetic the program computes its round-trip times and time slices with.
  A finite \<open>float\<close> or \<open>double\<close> is the rational number it denotes; an arithmetic operation is
  the exact operation followed by \<open>fl p\<close>, which rounds to the nearest number of \<open>p\<close> significant
  bits, ties to even (\<open>p = 53\<close> for \<open>double\<close>, \<open>p = 24\<close> for \<open>float\<close>; IEEE 754 as on x86-64
  and arm64). The exponent is not bounded: every value of the program lies between \<open>10 ^ -9\<close>
  and \<open>10 ^ 24\<close>, far inside the range of both formats, so no operation overflows or becomes
  subnormal. A division by zero is treated where it can occur.

  The locale \<open>rounding\<close> states what the components use of it.
\<close>

subsection \<open>Rounding\<close>

definition ilog2 :: "rat \<Rightarrow> int" where
  "ilog2 x =
     (let e = bitlen (fst (quotient_of x)) - bitlen (snd (quotient_of x))
      in if 2 powi e \<le> x then e else e - 1)"

definition rne :: "rat \<Rightarrow> int" where
  "rne x =
     (let f = \<lfloor>x\<rfloor>; d = x - of_int f
      in if d < 1 / 2 \<or> (d = 1 / 2 \<and> even f) then f else f + 1)"

definition fl :: "nat \<Rightarrow> rat \<Rightarrow> rat" where
  "fl p x =
     (if x = 0 then 0
      else let u = 2 powi (ilog2 \<bar>x\<bar> - int p + 1) in of_int (rne (x / u)) * u)"

abbreviation dbl :: "rat \<Rightarrow> rat" where
  "dbl \<equiv> fl 53"

abbreviation flt :: "rat \<Rightarrow> rat" where
  "flt \<equiv> fl 24"

subsection \<open>The contract of a rounding\<close>

locale rounding =
  fixes rnd :: "rat \<Rightarrow> rat" and prec :: nat
  assumes rnd_mono: "x \<le> y \<Longrightarrow> rnd x \<le> rnd y"
    and rnd_int: "\<bar>n\<bar> \<le> 2 ^ prec \<Longrightarrow> rnd (of_int n) = of_int n"
    and rnd_error: "\<bar>rnd x - x\<bar> \<le> \<bar>x\<bar> / 2 ^ prec"
begin

lemma rnd_0 [simp]: "rnd 0 = 0"
  using rnd_int [of 0] by simp

lemma rnd_1 [simp]: "rnd 1 = 1"
  using rnd_int [of 1] by simp

lemma rnd_nonneg: "0 \<le> x \<Longrightarrow> 0 \<le> rnd x"
  using rnd_mono [of 0 x] by simp

lemma rnd_le_int: "x \<le> of_int n \<Longrightarrow> \<bar>n\<bar> \<le> 2 ^ prec \<Longrightarrow> rnd x \<le> of_int n"
  using rnd_mono [of x "of_int n"] by (simp add: rnd_int)

lemma int_le_rnd: "of_int n \<le> x \<Longrightarrow> \<bar>n\<bar> \<le> 2 ^ prec \<Longrightarrow> of_int n \<le> rnd x"
  using rnd_mono [of "of_int n" x] by (simp add: rnd_int)

lemma rnd_lower: "0 \<le> x \<Longrightarrow> x * (1 - 1 / 2 ^ prec) \<le> rnd x"
  using rnd_error [of x] by (simp add: algebra_simps abs_le_iff)

lemma rnd_upper: "0 \<le> x \<Longrightarrow> rnd x \<le> x * (1 + 1 / 2 ^ prec)"
  using rnd_error [of x] by (simp add: algebra_simps abs_le_iff)

end

subsection \<open>The rounding meets it\<close>

lemma ilog2_bounds:
  assumes "0 < x"
  shows "2 powi ilog2 x \<le> x" and "x < 2 powi (ilog2 x + 1)"
proof -
  obtain n d where q: "quotient_of x = (n, d)" by (cases "quotient_of x")
  have d: "0 < d" using q by (rule quotient_of_denom_pos)
  have x: "x = of_int n / of_int d" using q by (rule quotient_of_div)
  have n: "0 < n" using assms d by (simp add: x zero_less_divide_iff)
  have pow: "(2 :: rat) powi (bitlen k - 1) \<le> of_int k \<and> (of_int k :: rat) < 2 powi bitlen k"
    if "0 < k" for k
  proof -
    have k1: "1 \<le> bitlen k" using that bitlen_eq_zero_iff [of k] bitlen_nonneg [of k] by linarith
    have "(of_int (2 ^ nat (bitlen k - 1)) :: rat) \<le> of_int k"
      and "(of_int k :: rat) < of_int (2 ^ nat (bitlen k))"
      using bitlen_bounds [OF that] by (simp_all only: of_int_le_iff of_int_less_iff)
    then show ?thesis
      using k1 by (simp add: power_int_def)
  qed
  define e where "e = bitlen n - bitlen d"
  have "x < 2 powi (e + 1)"
  proof -
    have "x < 2 powi bitlen n / 2 powi (bitlen d - 1)"
      unfolding x using pow [OF n] pow [OF d] n by (intro frac_less) auto
    then show ?thesis by (simp add: e_def power_int_add power_int_diff)
  qed
  moreover have "2 powi (e - 1) < x"
  proof -
    have "2 powi (bitlen n - 1) / 2 powi bitlen d < x"
      unfolding x using pow [OF n] pow [OF d] d n by (intro frac_less2) auto
    then show ?thesis by (simp add: e_def power_int_add power_int_diff)
  qed
  ultimately show "2 powi ilog2 x \<le> x" and "x < 2 powi (ilog2 x + 1)"
    by (auto simp: ilog2_def q Let_def e_def)
qed

lemma ilog2_mono:
  assumes "0 < x" and "x \<le> y"
  shows "ilog2 x \<le> ilog2 y"
proof -
  have "(2 :: rat) powi ilog2 x < 2 powi (ilog2 y + 1)"
    using ilog2_bounds [of x] ilog2_bounds [of y] assms by linarith
  then have "ilog2 x < ilog2 y + 1"
    by (metis linorder_not_less one_le_numeral power_int_increasing)
  then show ?thesis by simp
qed

lemma rne_error: "\<bar>of_int (rne x) - x\<bar> \<le> 1 / 2"
  using of_int_floor_le [of x] floor_correct [of x]
  by (auto simp: rne_def Let_def abs_le_iff)

lemma rne_int [simp]: "rne (of_int n) = n"
  by (simp add: rne_def)

lemma rne_mono:
  assumes "x \<le> y"
  shows "rne x \<le> rne y"
proof (cases "\<lfloor>x\<rfloor> = \<lfloor>y\<rfloor>")
  case True
  then show ?thesis using assms by (auto simp: rne_def Let_def)
next
  case False
  then have "\<lfloor>x\<rfloor> + 1 \<le> \<lfloor>y\<rfloor>" using floor_mono [OF assms] by linarith
  moreover have "rne x \<le> \<lfloor>x\<rfloor> + 1" and "\<lfloor>y\<rfloor> \<le> rne y" by (auto simp: rne_def Let_def)
  ultimately show ?thesis by linarith
qed

lemma rne_minus: "rne (- x) = - rne x"
proof (cases "x = of_int \<lfloor>x\<rfloor>")
  case True
  then show ?thesis by (metis of_int_minus rne_int)
next
  case False
  then have fl: "\<lfloor>- x\<rfloor> = - \<lfloor>x\<rfloor> - 1"
    using floor_correct [of x] by (intro floor_unique) (auto simp: less_le)
  show ?thesis by (auto simp: rne_def Let_def fl)
qed

lemma fl_0 [simp]: "fl p 0 = 0"
  by (simp add: fl_def)

lemma fl_minus: "fl p (- x) = - fl p x"
  by (simp add: fl_def Let_def rne_minus)

lemma fl_range:
  assumes "0 < x" and "0 < p"
  shows "2 powi ilog2 x \<le> fl p x" and "fl p x \<le> 2 powi (ilog2 x + 1)"
proof -
  define u :: rat where "u = 2 powi (ilog2 x - int p + 1)"
  have u: "0 < u" by (simp add: u_def)
  have lo: "2 powi ilog2 x = of_int (2 ^ (p - 1)) * u" and hi: "2 powi (ilog2 x + 1) = of_int (2 ^ p) * u"
    using \<open>0 < p\<close> by (simp_all add: u_def flip: power_int_of_nat power_int_add)
  have "of_int (2 ^ (p - 1)) \<le> x / u" and "x / u \<le> of_int (2 ^ p)"
    using ilog2_bounds [OF \<open>0 < x\<close>] u unfolding lo hi by (simp_all add: field_simps)
  then have "2 ^ (p - 1) \<le> rne (x / u)" and "rne (x / u) \<le> 2 ^ p"
    using rne_mono [of "of_int (2 ^ (p - 1))" "x / u"] rne_mono [of "x / u" "of_int (2 ^ p)"]
    by (simp_all only: rne_int)
  moreover have "fl p x = of_int (rne (x / u)) * u"
    using \<open>0 < x\<close> by (simp add: fl_def u_def Let_def)
  ultimately show "2 powi ilog2 x \<le> fl p x" and "fl p x \<le> 2 powi (ilog2 x + 1)"
    unfolding lo hi using u by (simp_all only: mult_le_cancel_right_pos of_int_le_iff)
qed

lemma fl_pos: "0 < x \<Longrightarrow> 0 < p \<Longrightarrow> 0 < fl p x"
  by (rule less_le_trans [OF _ fl_range(1)]) simp_all

lemma fl_mono_pos:
  assumes "0 < x" and "x \<le> y" and "0 < p"
  shows "fl p x \<le> fl p y"
proof (cases "ilog2 x = ilog2 y")
  case True
  define u :: rat where "u = 2 powi (ilog2 x - int p + 1)"
  have u: "0 < u" by (simp add: u_def)
  have "rne (x / u) \<le> rne (y / u)"
    using assms u by (intro rne_mono divide_right_mono) auto
  moreover have "fl p x = of_int (rne (x / u)) * u" "fl p y = of_int (rne (y / u)) * u"
    using assms True by (simp_all add: fl_def u_def Let_def)
  ultimately show ?thesis using u by simp
next
  case False
  then have "ilog2 x + 1 \<le> ilog2 y"
    using ilog2_mono assms by force
  then have "(2 :: rat) powi (ilog2 x + 1) \<le> 2 powi ilog2 y"
    by (intro power_int_increasing) auto
  then show ?thesis
    using fl_range(2) [of x p] fl_range(1) [of y p] assms by linarith
qed

lemma fl_mono:
  assumes "x \<le> y" and "0 < p"
  shows "fl p x \<le> fl p y"
proof -
  consider "0 < x" | "y < 0" | "x \<le> 0" "0 \<le> y" by linarith
  then show ?thesis
  proof cases
    case 1
    with assms show ?thesis by (intro fl_mono_pos)
  next
    case 2
    with assms have "fl p (- y) \<le> fl p (- x)" by (intro fl_mono_pos) auto
    then show ?thesis by (simp add: fl_minus)
  next
    case 3
    have "fl p x \<le> 0"
      using fl_pos [of "- x" p] 3 \<open>0 < p\<close> by (cases "x = 0") (auto simp: fl_minus)
    moreover have "0 \<le> fl p y"
      using fl_pos [of y p] 3 \<open>0 < p\<close> by (cases "y = 0") auto
    ultimately show ?thesis by linarith
  qed
qed

lemma fl_error_pos:
  assumes "0 < x"
  shows "\<bar>fl p x - x\<bar> \<le> x / 2 ^ p"
proof -
  define u :: rat where "u = 2 powi (ilog2 x - int p + 1)"
  have u: "0 < u" by (simp add: u_def)
  have "fl p x = of_int (rne (x / u)) * u"
    using assms by (simp add: fl_def u_def Let_def)
  then have "fl p x - x = (of_int (rne (x / u)) - x / u) * u"
    using u by (simp add: left_diff_distrib)
  then have "\<bar>fl p x - x\<bar> = \<bar>of_int (rne (x / u)) - x / u\<bar> * u"
    using u by (simp only: abs_mult abs_of_pos)
  also have "\<dots> \<le> 1 / 2 * u"
    using rne_error [of "x / u"] u by (intro mult_right_mono) auto
  also have "1 / 2 * u = 2 powi ilog2 x / 2 ^ p"
    by (simp add: u_def power_int_add power_int_diff)
  also have "\<dots> \<le> x / 2 ^ p"
    using ilog2_bounds(1) [OF assms] by (intro divide_right_mono) auto
  finally show ?thesis .
qed

lemma fl_error: "\<bar>fl p x - x\<bar> \<le> \<bar>x\<bar> / 2 ^ p"
proof -
  consider "x = 0" | "0 < x" | "0 < - x" by linarith
  then show ?thesis
  proof cases
    case 3
    then show ?thesis using fl_error_pos [of "- x" p] by (simp add: fl_minus)
  qed (use fl_error_pos [of x p] in auto)
qed

lemma fl_exact:
  assumes "ilog2 \<bar>x\<bar> - int p + 1 \<le> k" and "x = of_int m * 2 powi k"
  shows "fl p x = x"
proof (cases "x = 0")
  case False
  define u :: rat where "u = 2 powi (ilog2 \<bar>x\<bar> - int p + 1)"
  define j where "j = nat (k - (ilog2 \<bar>x\<bar> - int p + 1))"
  have "(2 :: rat) powi k = of_int (2 ^ j) * u"
    using assms(1) by (simp add: u_def j_def flip: power_int_of_nat power_int_add)
  then have "x = of_int (m * 2 ^ j) * u"
    using assms(2) by simp
  moreover have "u \<noteq> 0" by (simp add: u_def)
  ultimately have "x / u = of_int (m * 2 ^ j)" by (metis nonzero_mult_div_cancel_right)
  then have "of_int (rne (x / u)) * u = x"
    using \<open>x = of_int (m * 2 ^ j) * u\<close> by (simp only: rne_int)
  then show ?thesis by (simp add: fl_def u_def False Let_def)
qed simp

lemma fl_int:
  assumes "\<bar>n\<bar> \<le> 2 ^ p" and "0 < p"
  shows "fl p (of_int n) = of_int n"
proof (cases "\<bar>n\<bar> = 2 ^ p")
  case True
  have "(2 :: rat) powi ilog2 \<bar>of_int n\<bar> \<le> 2 powi int p"
    using ilog2_bounds(1) [of "\<bar>of_int n\<bar>"] True by (simp flip: of_int_abs)
  then have "ilog2 \<bar>of_int n\<bar> \<le> int p"
    by (rule power_int_le_imp_le_exp [rotated]) simp_all
  moreover have "n = sgn n * 2 ^ p" using True by (metis sgn_mult_abs)
  then have "(of_int n :: rat) = of_int (sgn n * 2 ^ (p - 1)) * 2 powi 1"
    using \<open>0 < p\<close> by (metis (no_types) One_nat_def Suc_pred mult.assoc of_int_mult of_int_numeral power_int_1_right power_Suc2)
  ultimately show ?thesis
    by (intro fl_exact [where k = 1 and m = "sgn n * 2 ^ (p - 1)"]) simp_all
next
  case False
  show ?thesis
  proof (cases "n = 0")
    case n0: False
    have "(2 :: rat) powi ilog2 \<bar>of_int n\<bar> < 2 powi int p"
    proof -
      have "\<bar>n\<bar> < 2 ^ p" using assms False by linarith
      then have "\<bar>of_int n :: rat\<bar> < 2 powi int p"
        by (metis of_int_abs of_int_less_iff of_int_numeral of_int_power power_int_of_nat)
      then show ?thesis using ilog2_bounds(1) [of "\<bar>of_int n\<bar>"] n0 by simp
    qed
    then have "ilog2 \<bar>of_int n\<bar> < int p"
      by (metis linorder_not_less one_le_numeral power_int_increasing)
    then show ?thesis by (intro fl_exact [where k = 0]) auto
  qed simp
qed

interpretation dbl: rounding dbl 53
  by unfold_locales (rule fl_mono fl_int fl_error; simp)+

interpretation flt: rounding flt 24
  by unfold_locales (rule fl_mono fl_int fl_error; simp)+

end
