(* ===== verification/Query.thy ===== *)
theory Query
  imports Checksum Floating "HOL-Library.Signed_Division"
begin

text \<open>
  \<open>src/src/query.cpp\<close>: the table of record types, the compilation of a text query into a DNS
  message (\<open>MakeQuery\<close>), the EDNS0 option that asks for DNSSEC data (\<open>AddDnssecToQuery\<close>), and
  the time stamp that travels in the DNS identifier (\<open>getQueryTimestamp\<close>, \<open>getQueryRTT\<close>).
\<close>

subsection \<open>The record type table\<close>

definition rr_types :: "string list" where
  "rr_types =
    [''A'', ''AAAA'', ''MX'', ''NS'', ''DS'', ''DNSKEY'', ''TXT'', ''SOA'', ''NAPTR'', ''RRSIG'',
     ''NSEC'', ''NSEC3'', ''NSEC3PARAM'', ''PTR'', ''SRV'',
     ''CNAME'', ''TSIG'', ''*'', ''ANY'', ''AXFR'', ''IXFR'',
     ''SPF'', ''A6'', ''HINFO'', ''WKS'', ''NULL'']"

definition rr_code :: "int list" where
  "rr_code =
    [1, 28, 15, 2, 43, 48, 16, 6, 35, 46,
     47, 50, 51, 12, 33,
     5, 250, 255, 255, 252, 251,
     99, 38, 13, 11, 10,
     0]"

text \<open>
  The search of \<open>MakeQuery\<close>: \<open>t\<close> counts up until \<open>rr_types[t]\<close> equals the name; the end of the
  list is the \<open>NULL\<close> that terminates the C array.
\<close>

fun rr_find :: "string \<Rightarrow> string list \<Rightarrow> nat \<Rightarrow> nat option" where
  "rr_find str [] t = None"
| "rr_find str (n # ns) t = (if str = n then Some t else rr_find str ns (t + 1))"

subsection \<open>The DNS header\<close>

text \<open>
  \<open>struct DNS_HEADER\<close> of \<open>src/src/query.h\<close> as laid out by GCC and Clang on a little-endian
  machine: bit-fields are allocated from the least significant bit of each byte.
\<close>

definition dns_qr :: "nat \<Rightarrow> bytes \<Rightarrow> bool" where
  "dns_qr off b = bit (load8 (off + 2) b) 7"

definition dns_opcode :: "nat \<Rightarrow> bytes \<Rightarrow> byte" where
  "dns_opcode off b = drop_bit 3 (load8 (off + 2) b) AND 15"

definition dns_tc :: "nat \<Rightarrow> bytes \<Rightarrow> bool" where
  "dns_tc off b = bit (load8 (off + 2) b) 1"

definition dns_rcode :: "nat \<Rightarrow> bytes \<Rightarrow> byte" where
  "dns_rcode off b = load8 (off + 3) b AND 15"

definition dns_ad :: "nat \<Rightarrow> bytes \<Rightarrow> bool" where
  "dns_ad off b = bit (load8 (off + 3) b) 5"

definition dns_id :: "nat \<Rightarrow> bytes \<Rightarrow> u16" where
  "dns_id off b = load16 off b"

definition dns_add_count :: "nat \<Rightarrow> bytes \<Rightarrow> u16" where
  "dns_add_count off b = load16 (off + 10) b"

subsection \<open>AddDnssecToQuery\<close>

text \<open>
  The function receives the size of the buffer and ignores it; the writes are defined only inside
  the object \<open>buffer\<close> points into, and are undefined behaviour otherwise. The \<open>DNS_OPT\<close> record
  is packed: name at 0, type at 1, UDP payload size at 3, extended rcode at 5, version at 6, flags
  \<open>z\<close> at 7, data length at 9.
\<close>

definition AddDnssecToQuery :: "bytes \<Rightarrow> nat \<Rightarrow> nat \<Rightarrow> int \<Rightarrow> (nat \<times> bytes) result" where
  "AddDnssecToQuery buffer buffersize querysize udp_payload_size =
     (if length buffer < 12 \<or> length buffer < querysize + 11 then Inl UndefinedBehaviour
      else
        let b = store8 3 (set_bit 5 (load8 3 buffer)) buffer;
            b = store16 10 (htons 1) b;
            b = blit querysize (replicate 11 0) b;
            b = store16 (querysize + 1) (htons 41) b;
            b = store16 (querysize + 3) (htons (word_of_int udp_payload_size)) b;
            b = store16 (querysize + 7) (htons 0x8000) b
        in Inr (querysize + 11, b))"

subsection \<open>MakeQuery\<close>

text \<open>
  The code \<open>MakeQuery\<close> calls and that is not part of the repository: the splitting of a string
  at blanks and the upper-case conversion of \<open>ppl7\<close>, and \<open>res_mkquery\<close> of the resolver library
  (\<open>None\<close> for a negative return value, otherwise the message it wrote at the start of the buffer).
\<close>

record query_lib =
  explode_blank :: "string \<Rightarrow> string list"
  toUpperCase :: "string \<Rightarrow> string"
  res_mkquery :: "string \<Rightarrow> int \<Rightarrow> nat \<Rightarrow> bytes option"

definition MakeQuery ::
  "query_lib \<Rightarrow> string \<Rightarrow> bytes \<Rightarrow> nat \<Rightarrow> bool \<Rightarrow> int \<Rightarrow> (nat \<times> bytes) result" where
  "MakeQuery lib query buffer buffersize dnssec udp_payload_size =
     (let tok = explode_blank lib query
      in if length tok \<noteq> 2 then Inl InvalidDNSQuery
         else
           case rr_find (toUpperCase lib (tok ! 1)) rr_types 0 of
             None \<Rightarrow> Inl UnknownRRType
           | Some t \<Rightarrow>
               (case res_mkquery lib (tok ! 0) (rr_code ! t) buffersize of
                  None \<Rightarrow> Inl InvalidDNSQuery
                | Some msg \<Rightarrow>
                    if length buffer < length msg then Inl UndefinedBehaviour
                    else if \<not> dnssec then Inr (length msg, blit 0 msg buffer)
                    else AddDnssecToQuery (blit 0 msg buffer) buffersize (length msg) udp_payload_size))"

subsection \<open>Time stamps\<close>

record timeval =
  tv_sec :: int
  tv_usec :: int

text \<open>\<open>None\<close>: \<open>gettimeofday\<close> failed. \<open>%\<close> and \<open>/\<close> of C truncate towards zero.\<close>

definition getQueryTimestamp :: "timeval option \<Rightarrow> u16" where
  "getQueryTimestamp now =
     (case now of
        Some tp \<Rightarrow> word_of_int ((tv_sec tp smod 6) * 10000 + (tv_usec tp sdiv 100))
      | None \<Rightarrow> 0)"

definition rtt_ticks :: "u16 \<Rightarrow> u16 \<Rightarrow> u16" where
  "rtt_ticks now start = (if now < start then 60000 - start + now else now - start)"

definition getQueryRTT :: "timeval option \<Rightarrow> u16 \<Rightarrow> rat" where
  "getQueryRTT tp start =
     (let now = getQueryTimestamp tp in dbl (of_nat (unat (rtt_ticks now start)) / 10000))"

subsection \<open>The record type table: the search is a lookup\<close>

lemma rr_find_ge: "rr_find str ns t = Some k \<Longrightarrow> t \<le> k"
  by (induction ns arbitrary: t) (fastforce split: if_splits)+

lemma rr_find_map_of:
  "length cs \<ge> length ns \<Longrightarrow>
   map_option (\<lambda>k. cs ! (k - t)) (rr_find str ns t) = map_of (zip ns cs) str"
proof (induction ns arbitrary: cs t)
  case (Cons n ns)
  then obtain c cs' where cs: "cs = c # cs'" and "length ns \<le> length cs'"
    by (cases cs) auto
  have "map_option (\<lambda>k. cs' ! (k - (t + 1))) (rr_find str ns (t + 1)) = map_of (zip ns cs') str"
    using Cons.IH \<open>length ns \<le> length cs'\<close> by blast
  moreover have "map_option (\<lambda>k. cs ! (k - t)) (rr_find str ns (t + 1)) =
      map_option (\<lambda>k. cs' ! (k - (t + 1))) (rr_find str ns (t + 1))"
  proof (rule option.map_cong [OF refl])
    fix k assume "k \<in> set_option (rr_find str ns (t + 1))"
    then have "k - t = Suc (k - (t + 1))" using rr_find_ge [of str ns "t + 1" k] by simp
    then show "cs ! (k - t) = cs' ! (k - (t + 1))" by (simp add: cs)
  qed
  ultimately show ?case by (simp add: cs)
qed simp

lemma rr_tables: "distinct rr_types" "length rr_code = length rr_types + 1"
  by (simp_all add: rr_types_def rr_code_def)

definition rr_type_code :: "string \<rightharpoonup> int" where
  "rr_type_code = map_of (zip rr_types rr_code)"

lemma MakeQuery_eq:
  "MakeQuery lib query buffer buffersize False u =
     (case explode_blank lib query of
        [name, type] \<Rightarrow>
          (case rr_type_code (toUpperCase lib type) of
             None \<Rightarrow> Inl UnknownRRType
           | Some code \<Rightarrow>
               (case res_mkquery lib name code buffersize of
                  None \<Rightarrow> Inl InvalidDNSQuery
                | Some msg \<Rightarrow>
                    if length msg \<le> length buffer then Inr (length msg, blit 0 msg buffer)
                    else Inl UndefinedBehaviour))
      | _ \<Rightarrow> Inl InvalidDNSQuery)"
proof -
  have find: "rr_type_code str = map_option ((!) rr_code) (rr_find str rr_types 0)" for str
    using rr_find_map_of [of rr_types rr_code 0 str] by (simp add: rr_type_code_def rr_tables)
  consider (two) name type where "explode_blank lib query = [name, type]"
    | (other) "length (explode_blank lib query) \<noteq> 2"
    by (metis length_0_conv length_Suc_conv numeral_2_eq_2)
  then show ?thesis
  proof cases
    case two
    then show ?thesis
      by (simp add: MakeQuery_def find not_less split: option.splits)
  next
    case other
    then show ?thesis
      by (auto simp: MakeQuery_def split: list.splits)
  qed
qed

text \<open>DNSSEC is added to the message that is built without it.\<close>

lemma MakeQuery_dnssec:
  "MakeQuery lib query buffer buffersize dnssec u =
     (case MakeQuery lib query buffer buffersize False u of
        Inl e \<Rightarrow> Inl e
      | Inr (n, b) \<Rightarrow> if dnssec then AddDnssecToQuery b buffersize n u else Inr (n, b))"
  by (simp add: MakeQuery_def Let_def split: option.split)

lemma AddDnssecToQuery_short:
  "length msg \<le> length buffer \<Longrightarrow> length buffer < length msg + 11 \<Longrightarrow>
    AddDnssecToQuery (blit 0 msg buffer) bs (length msg) u = Inl UndefinedBehaviour"
  by (simp add: AddDnssecToQuery_def blit_0)

subsection \<open>The EDNS0 option\<close>

definition opt_record :: "u16 \<Rightarrow> bytes" where
  "opt_record udp = [0, 0, 41, hi8 udp, lo8 udp, 0, 0, 0x80, 0, 0, 0]"

lemma opt_record_stores:
  "store16 7 (htons 0x8000) (store16 3 (htons u) (store16 1 (htons 41) (replicate 11 0))) = opt_record u"
proof -
  have "hi8 41 = 0" "lo8 41 = 41" "hi8 0x8000 = 0x80" "lo8 0x8000 = 0"
    by (simp_all add: hi8_def lo8_def)
  then show ?thesis
    by (simp add: opt_record_def store16_def eval_nat_numeral)
qed

text \<open>The query with the AD bit, one additional record, and that record.\<close>

definition dnssec_message :: "int \<Rightarrow> bytes \<Rightarrow> bytes" where
  "dnssec_message udp q = q[3 := set_bit 5 (q ! 3), 10 := 0, 11 := 1] @ opt_record (word_of_int udp)"

lemma length_dnssec_message [simp]: "length (dnssec_message udp q) = length q + 11"
  by (simp add: dnssec_message_def opt_record_def)

lemma AddDnssecToQuery_message:
  assumes "12 \<le> length q" and "length q + 11 \<le> length buffer"
  shows "AddDnssecToQuery (blit 0 q buffer) bs (length q) udp =
    Inr (length q + 11, blit 0 (dnssec_message udp q) buffer)"
proof -
  let ?q = "q[3 := set_bit 5 (q ! 3), 10 := 0, 11 := 1]"
  let ?r = "drop (length q) buffer"
  have b: "blit 0 q buffer = q @ ?r" by (simp add: blit_0)
  have lo: "hi8 1 = 0" "lo8 1 = 1" by (simp_all add: lo8_def hi8_def)
  have hd: "store16 10 (htons 1) (store8 3 (set_bit 5 (load8 3 (q @ ?r))) (q @ ?r)) = ?q @ ?r"
    using assms by (simp add: store16_def store8_def load8_def list_update_append nth_append lo)
  have z: "blit (length q) (replicate 11 0) (?q @ ?r) = ?q @ blit 0 (replicate 11 0) ?r"
    by (simp add: blit_def)
  have st: "store16 (length q + k) v (?q @ blit 0 src ?r) = ?q @ blit 0 (store16 k v src) ?r"
    if "k + 2 \<le> length src" for k v src
  proof -
    have "store16 (length q + k) v (?q @ blit 0 src ?r) = ?q @ store16 k v (blit 0 src ?r)"
      by (simp add: store16_def list_update_append)
    also have "store16 k v (blit 0 src ?r) = blit 0 (store16 k v src) ?r"
      using store16_blit_inside [of 0 ?r k src v] that by simp
    finally show ?thesis .
  qed
  have "AddDnssecToQuery (blit 0 q buffer) bs (length q) udp =
      Inr (length q + 11, ?q @ blit 0 (opt_record (word_of_int udp)) ?r)"
    using assms unfolding AddDnssecToQuery_def Let_def b hd z opt_record_stores [symmetric]
    by (simp add: st st [of 1, simplified])
  then show ?thesis by (simp add: dnssec_message_def blit_0 opt_record_def add.commute)
qed

subsection \<open>The message that is built\<close>

text \<open>The reference: the assigned numbers of the record types, by number.\<close>

definition iana_type :: "string \<rightharpoonup> int" where
  "iana_type = map_of
     [(''A'', 1), (''NS'', 2), (''CNAME'', 5), (''SOA'', 6), (''NULL'', 10), (''WKS'', 11), (''PTR'', 12), (''HINFO'', 13),
      (''MX'', 15), (''TXT'', 16), (''AAAA'', 28), (''SRV'', 33), (''NAPTR'', 35), (''A6'', 38), (''DS'', 43),
      (''RRSIG'', 46), (''NSEC'', 47), (''DNSKEY'', 48), (''NSEC3'', 50), (''NSEC3PARAM'', 51), (''SPF'', 99),
      (''TSIG'', 250), (''IXFR'', 251), (''AXFR'', 252), (''ANY'', 255), (''*'', 255)]"

lemma rr_type_code_iana: "rr_type_code = iana_type"
  unfolding rr_type_code_def iana_type_def
proof (rule map_of_eqI)
  show "set (map fst (zip rr_types rr_code)) = set (map fst
     [(''A'', 1 :: int), (''NS'', 2), (''CNAME'', 5), (''SOA'', 6), (''NULL'', 10), (''WKS'', 11), (''PTR'', 12), (''HINFO'', 13),
      (''MX'', 15), (''TXT'', 16), (''AAAA'', 28), (''SRV'', 33), (''NAPTR'', 35), (''A6'', 38), (''DS'', 43),
      (''RRSIG'', 46), (''NSEC'', 47), (''DNSKEY'', 48), (''NSEC3'', 50), (''NSEC3PARAM'', 51), (''SPF'', 99),
      (''TSIG'', 250), (''IXFR'', 251), (''AXFR'', 252), (''ANY'', 255), (''*'', 255)])"
    by code_simp
qed code_simp

text \<open>
  C28. What \<open>MakeQuery\<close> builds, with and without DNSSEC. The line has to consist of two words, or it is
  an \<open>InvalidDNSQuery\<close>; the second word, in upper case, has to be one of 26 record types, or it is an
  \<open>UnknownRRType\<close>; a refusal of the resolver library is an \<open>InvalidDNSQuery\<close> again. Otherwise the
  library is asked for the name and the number that is assigned to the type, and its message is at the
  start of the buffer, with the AD bit, one additional record and the OPT record behind it when DNSSEC
  is wanted, and the rest of the buffer as it was; the result is the length of that. A buffer that is
  too small for it is overrun. A message of the library has at least its header.
\<close>

theorem MakeQuery_spec:
  assumes "\<forall>name code n msg. res_mkquery lib name code n = Some msg \<longrightarrow> 12 \<le> length msg"
  shows "MakeQuery lib query buffer buffersize dnssec u =
     (case explode_blank lib query of
        [name, type] \<Rightarrow>
          (case iana_type (toUpperCase lib type) of
             None \<Rightarrow> Inl UnknownRRType
           | Some code \<Rightarrow>
               (case res_mkquery lib name code buffersize of
                  None \<Rightarrow> Inl InvalidDNSQuery
                | Some msg \<Rightarrow>
                    let out = (if dnssec then dnssec_message u msg else msg)
                    in if length out \<le> length buffer then Inr (length out, out @ drop (length out) buffer)
                       else Inl UndefinedBehaviour))
      | _ \<Rightarrow> Inl InvalidDNSQuery)"
proof (cases "MakeQuery lib query buffer buffersize False u")
  case (Inl e)
  then show ?thesis
    unfolding MakeQuery_dnssec [of lib query buffer buffersize dnssec u] rr_type_code_iana [symmetric] MakeQuery_eq
    by (auto split: list.splits option.splits if_splits)
next
  case (Inr r)
  then obtain name type code msg where m: "explode_blank lib query = [name, type]" "rr_type_code (toUpperCase lib type) = Some code"
      "res_mkquery lib name code buffersize = Some msg" "length msg \<le> length buffer"
    unfolding MakeQuery_eq by (auto split: list.splits option.splits if_splits)
  have "12 \<le> length msg" using assms m(3) by blast
  then show ?thesis
    using m AddDnssecToQuery_message [of msg buffer buffersize u] AddDnssecToQuery_short [of msg buffer buffersize u]
    unfolding MakeQuery_dnssec [of lib query buffer buffersize dnssec u] MakeQuery_eq
    by (auto simp: rr_type_code_iana Let_def blit_0 not_le)
qed

theorem MakeQuery_spec_witness:
  "MakeQuery \<lparr>explode_blank = (\<lambda>_. [''example.org'', ''mx'']), toUpperCase = (\<lambda>_. ''MX''),
       res_mkquery = (\<lambda>_ code _. Some (replicate 16 0 @ [word_of_int code]))\<rparr> ''example.org mx'' (replicate 30 7) 30 True 4096 =
     Inr (28, (replicate 16 0 @ [15])[3 := 32, 11 := 1] @ [0, 0, 41, 16, 0, 0, 0, 0x80, 0, 0, 0] @ [7, 7])"
proof -
  let ?lib = "\<lparr>explode_blank = (\<lambda>_. [''example.org'', ''mx'']), toUpperCase = (\<lambda>_. ''MX''),
       res_mkquery = (\<lambda>_ code _. Some (replicate 16 0 @ [word_of_int code]))\<rparr> :: query_lib"
  have "\<forall>name code n msg. res_mkquery ?lib name code n = Some msg \<longrightarrow> 12 \<le> length msg" by auto
  moreover have "iana_type ''MX'' = Some 15" by (simp add: iana_type_def)
  moreover have "dnssec_message 4096 (replicate 16 0 @ [15]) =
      (replicate 16 0 @ [15])[3 := 32, 11 := 1] @ [0, 0, 41, 16, 0, 0, 0, 0x80, 0, 0, 0]"
    by code_simp
  moreover have "length (dnssec_message 4096 (replicate 16 0 @ [15])) = 28" by simp
  ultimately show ?thesis
    using MakeQuery_spec [of ?lib "''example.org mx''" "replicate 30 7" 30 True 4096] by (simp add: numeral_2_eq_2)
qed

lemma AddDnssecToQuery_ok:
  assumes "12 \<le> querysize" and "querysize + 11 \<le> length buffer"
  obtains b where "AddDnssecToQuery buffer bs querysize u = Inr (querysize + 11, b)"
    and "length b = length buffer" and "dns_ad 0 b" and "dns_add_count 0 b = htons 1"
    and "bytes_at querysize 11 b = opt_record (word_of_int u)"
    and "\<And>i. i < length buffer \<Longrightarrow> i \<notin> {3, 10, 11} \<Longrightarrow> i < querysize \<or> querysize + 11 \<le> i \<Longrightarrow>
      b ! i = buffer ! i"
proof -
  define c where "c = blit querysize (replicate 11 0) (store16 10 (htons 1) (store8 3 (set_bit 5 (load8 3 buffer)) buffer))"
  define b where "b = store16 (querysize + 7) (htons 0x8000) (store16 (querysize + 3) (htons (word_of_int u))
    (store16 (querysize + 1) (htons 41) c))"
  have len: "length c = length buffer" "length b = length buffer"
    using assms by (simp_all add: b_def c_def length_blit)
  show ?thesis
  proof (rule that [of b])
    show "AddDnssecToQuery buffer bs querysize u = Inr (querysize + 11, b)"
      using assms by (simp add: AddDnssecToQuery_def Let_def b_def c_def)
    show "length b = length buffer" by (rule len)
    show "dns_ad 0 b"
      using assms by (simp add: dns_ad_def b_def c_def layout bit_simps)
    show "dns_add_count 0 b = htons 1"
      using assms by (simp add: dns_add_count_def b_def c_def layout)
    have "bytes_at querysize 11 c = replicate 11 0"
      using assms slice_blit_same [of querysize "replicate 11 0"] by (simp add: c_def)
    then show "bytes_at querysize 11 b = opt_record (word_of_int u)"
      using assms by (simp add: b_def slice_store16 len opt_record_stores [unfolded One_nat_def])
    show "b ! i = buffer ! i"
      if "i < length buffer" "i \<notin> {3, 10, 11}" "i < querysize \<or> querysize + 11 \<le> i" for i
      using that assms
      by (auto simp: b_def c_def f16.nth_put_other f8.nth_put_other nth_blit store16_def store8_def nth_list_update)
  qed
qed

subsection \<open>Round-trip times\<close>

definition valid_timeval :: "timeval \<Rightarrow> bool" where
  "valid_timeval t \<longleftrightarrow> 0 \<le> tv_sec t \<and> 0 \<le> tv_usec t \<and> tv_usec t < 1000000"

text \<open>The clock in ticks of 100 microseconds, and in seconds.\<close>

definition ticks :: "timeval \<Rightarrow> nat" where
  "ticks t = nat (tv_sec t * 10000 + tv_usec t div 100)"

definition seconds :: "timeval \<Rightarrow> rat" where
  "seconds t = of_int (tv_sec t) + of_int (tv_usec t) / 1000000"

lemma smod_sdiv_nonneg: "0 \<le> a \<Longrightarrow> 0 < b \<Longrightarrow> a smod b = a mod b \<and> a sdiv b = (a :: int) div b"
  by (cases "a = 0") (simp_all add: signed_modulo_int_def signed_divide_int_def)

lemma getQueryTimestamp_ticks:
  assumes "valid_timeval t"
  shows "unat (getQueryTimestamp (Some t)) = ticks t mod 60000"
proof -
  define s m where "s = nat (tv_sec t)" and "m = nat (tv_usec t div 100)"
  have sec: "tv_sec t = int s" and usec: "tv_usec t div 100 = int m" and m: "m < 10000"
    using assms by (auto simp: valid_timeval_def s_def m_def)
  have "getQueryTimestamp (Some t) = word_of_int (int (s mod 6 * 10000 + m))"
    using assms by (simp add: getQueryTimestamp_def valid_timeval_def smod_sdiv_nonneg sec usec of_nat_mod)
  moreover have "s mod 6 * 10000 + m < 60000" using m mod_less_divisor [of 6 s] by linarith
  ultimately have "unat (getQueryTimestamp (Some t)) = s mod 6 * 10000 + m"
    by (simp only: of_int_of_nat_eq unat_of_nat) simp
  also have "\<dots> = (s * 10000 + m) mod 60000"
  proof -
    have "s * 10000 + m = (s mod 6 * 10000 + m) + 60000 * (s div 6)"
      using div_mult_mod_eq [of s 6] by linarith
    then show ?thesis using \<open>s mod 6 * 10000 + m < 60000\<close> by (simp only: mod_mult_self2) simp
  qed
  also have "s * 10000 + m = ticks t" by (simp add: ticks_def sec usec nat_int_add)
  finally show ?thesis .
qed

lemma mod_diff_cases:
  fixes a b n :: nat
  assumes "b \<le> a" and "0 < n"
  shows "(a - b) mod n = (if b mod n \<le> a mod n then a mod n - b mod n else n - b mod n + a mod n)"
proof -
  define x y k l where "x = a mod n" and "y = b mod n" and "k = a div n" and "l = b div n"
  have a: "a = n * k + x" and b: "b = n * l + y" and x: "x < n" and y: "y < n"
    using \<open>0 < n\<close> by (simp_all add: x_def y_def k_def l_def)
  have lk: "l \<le> k" using assms by (simp add: k_def l_def div_le_mono)
  show ?thesis
  proof (cases "y \<le> x")
    case True
    have "a - b = x - y + n * (k - l)"
      using True lk by (simp add: a b diff_mult_distrib2)
    then have "(a - b) mod n = x - y"
      using x by (simp only: mod_mult_self2) simp
    then show ?thesis using True by (simp add: x_def y_def)
  next
    case False
    then have "l \<noteq> k" using assms(1) a b by auto
    then obtain d where k: "k = Suc (l + d)" using lk by (metis le_neq_implies_less less_imp_Suc_add)
    have "a - b = n - y + x + n * d"
      using False y by (simp add: a b k distrib_left)
    then have "(a - b) mod n = n - y + x"
      using False y by (simp only: mod_mult_self2) simp
    then show ?thesis using False by (simp add: x_def y_def)
  qed
qed

lemma rtt_ticks_mod:
  assumes now: "unat now = a mod 60000" and start: "unat start = b mod 60000" and "b \<le> a"
  shows "unat (rtt_ticks now start) = (a - b) mod 60000"
proof -
  have lt: "unat now < 60000" "unat start < 60000" using now start by simp_all
  show ?thesis
  proof (cases "now < start")
    case True
    then have less: "unat now < unat start" by (simp add: word_less_nat_alt)
    have "unat (60000 - start) = 60000 - unat start"
      using lt by (simp add: unat_sub word_le_nat_alt)
    then have "unat (60000 - start + now) = 60000 - unat start + unat now"
      using lt less by (simp add: unat_word_ariths)
    then show ?thesis
      using True less assms by (simp add: rtt_ticks_def mod_diff_cases)
  next
    case False
    then have "unat start \<le> unat now" "unat (now - start) = unat now - unat start"
      by (simp_all add: word_less_nat_alt unat_sub word_le_nat_alt)
    then show ?thesis
      using False assms by (simp add: rtt_ticks_def mod_diff_cases)
  qed
qed

subsection \<open>Properties\<close>

text \<open>
  C29. Adding DNSSEC to a compiled query of at least a header, with eleven bytes of room after it,
  sets the AD bit, makes the additional count one, appends exactly one EDNS0 OPT record with the
  DO bit and the given UDP size, returns the size of the extended message, and changes no other
  byte of the buffer.
\<close>

theorem AddDnssecToQuery_spec:
  assumes "12 \<le> querysize" and "querysize + 11 \<le> length buffer"
  shows "\<exists>b. AddDnssecToQuery buffer bufsz querysize udp = Inr (querysize + 11, b) \<and>
    length b = length buffer \<and> dns_ad 0 b \<and> htons (dns_add_count 0 b) = 1 \<and>
    bytes_at querysize 11 b = opt_record (word_of_int udp) \<and>
    (\<forall>i. i < length buffer \<and> i \<notin> {3, 10, 11} \<and> (i < querysize \<or> querysize + 11 \<le> i) \<longrightarrow>
      b ! i = buffer ! i)"
  using assms by (elim AddDnssecToQuery_ok [of _ _ bufsz udp]) auto

theorem AddDnssecToQuery_spec_witness:
  "\<exists>b. AddDnssecToQuery (replicate 32 7) 32 16 4096 = Inr (27, b) \<and> dns_ad 0 b \<and>
    bytes_at 16 11 b = [0, 0, 41, 0x10, 0, 0, 0, 0x80, 0, 0, 0] \<and> b ! 27 = 7"
proof -
  have "opt_record (word_of_int 4096) = [0, 0, 41, 0x10, 0, 0, 0, 0x80, 0, 0, 0]"
    by (simp add: opt_record_def hi8_def lo8_def)
  then show ?thesis
    using AddDnssecToQuery_spec [of 16 "replicate 32 7" 32 4096] by force
qed

text \<open>
  The writes of \<open>AddDnssecToQuery\<close> leave the buffer exactly when fewer than eleven bytes are
  left after the query (or the buffer is shorter than a header): the size parameter guards nothing.
\<close>

lemma AddDnssecToQuery_overflow:
  "AddDnssecToQuery buffer bufsz querysize udp = Inl UndefinedBehaviour \<longleftrightarrow>
   length buffer < 12 \<or> length buffer < querysize + 11"
  by (simp add: AddDnssecToQuery_def Let_def)

text \<open>
  C18. The time stamp carried in the DNS identifier measures round-trip times: for two readings of
  the clock, the second not before the first, the tick count is the number of elapsed 100
  microsecond ticks modulo the six seconds the stamp can represent.
\<close>

theorem rtt_ticks_elapsed:
  assumes "valid_timeval t0" and "valid_timeval t1" and "ticks t0 \<le> ticks t1"
  shows "unat (rtt_ticks (getQueryTimestamp (Some t1)) (getQueryTimestamp (Some t0))) =
    (ticks t1 - ticks t0) mod 60000"
  using assms by (intro rtt_ticks_mod getQueryTimestamp_ticks)

theorem rtt_ticks_elapsed_witness:
  "unat (rtt_ticks (getQueryTimestamp (Some \<lparr>tv_sec = 12, tv_usec = 300\<rparr>))
     (getQueryTimestamp (Some \<lparr>tv_sec = 11, tv_usec = 999900\<rparr>))) = 4"
  using rtt_ticks_elapsed [of "\<lparr>tv_sec = 11, tv_usec = 999900\<rparr>" "\<lparr>tv_sec = 12, tv_usec = 300\<rparr>"]
  by (simp add: valid_timeval_def ticks_def)

lemma ticks_seconds:
  assumes "valid_timeval t"
  shows "of_nat (ticks t) \<le> seconds t * 10000" and "seconds t * 10000 < of_nat (ticks t) + 1"
proof -
  have "tv_usec t = 100 * (tv_usec t div 100) + tv_usec t mod 100" by simp
  then have u: "(of_int (tv_usec t) :: rat) = 100 * of_int (tv_usec t div 100) + of_int (tv_usec t mod 100)"
    by (metis of_int_add of_int_mult of_int_numeral)
  have m: "0 \<le> (of_int (tv_usec t mod 100) :: rat)" "of_int (tv_usec t mod 100) < (100 :: rat)"
    by simp_all
  have "0 \<le> tv_sec t * 10000 + tv_usec t div 100"
    using assms by (auto simp: valid_timeval_def pos_imp_zdiv_nonneg_iff)
  then have n: "(of_nat (ticks t) :: rat) = of_int (tv_sec t) * 10000 + of_int (tv_usec t div 100)"
    by (simp add: ticks_def)
  have s: "seconds t * 10000 = of_int (tv_sec t) * 10000 + of_int (tv_usec t) / 100"
    by (simp add: seconds_def field_simps)
  show "of_nat (ticks t) \<le> seconds t * 10000" and "seconds t * 10000 < of_nat (ticks t) + 1"
    unfolding n s u using m by simp_all
qed

lemma getQueryRTT_error:
  assumes v: "valid_timeval t0" "valid_timeval t1"
    and "seconds t0 \<le> seconds t1" and "seconds t1 - seconds t0 \<le> 59999 / 10000"
  shows "\<bar>getQueryRTT (Some t1) (getQueryTimestamp (Some t0)) - (seconds t1 - seconds t0)\<bar> < 1 / 5000"
proof -
  note b = ticks_seconds [OF v(1)] ticks_seconds [OF v(2)]
  have "(of_nat (ticks t0) :: rat) < of_nat (ticks t1) + 1"
    and "(of_nat (ticks t1) :: rat) < of_nat (ticks t0) + 60000"
    using b assms by linarith+
  then have le: "ticks t0 \<le> ticks t1" and lt: "ticks t1 < ticks t0 + 60000"
    by (metis Suc_eq_plus1 less_Suc_eq_le of_nat_1 of_nat_add of_nat_less_iff,
        metis of_nat_add of_nat_less_iff of_nat_numeral)
  define d where "d = ticks t1 - ticks t0"
  define x :: rat where "x = of_nat d / 10000"
  have "unat (rtt_ticks (getQueryTimestamp (Some t1)) (getQueryTimestamp (Some t0))) = d"
    using le lt rtt_ticks_mod [OF getQueryTimestamp_ticks getQueryTimestamp_ticks, OF v(2,1) le]
    by (simp add: d_def)
  then have "getQueryRTT (Some t1) (getQueryTimestamp (Some t0)) = dbl x"
    unfolding getQueryRTT_def Let_def x_def by (simp only:)
  moreover have "(of_nat d :: rat) = of_nat (ticks t1) - of_nat (ticks t0)"
    using le by (simp add: d_def)
  then have "\<bar>x - (seconds t1 - seconds t0)\<bar> < 1 / 10000"
    using b by (simp add: x_def abs_less_iff field_simps)
  moreover have "\<bar>dbl x - x\<bar> \<le> 1 / 10000"
  proof -
    have "d < 60000" using lt by (simp add: d_def)
    then have "\<bar>x\<bar> \<le> 6" by (simp add: x_def)
    then have "\<bar>x\<bar> / 2 ^ 53 \<le> 6 / 2 ^ 53" by (rule divide_right_mono) simp
    moreover have "6 / 2 ^ 53 \<le> (1 / 10000 :: rat)" by simp
    ultimately show ?thesis using dbl.rnd_error [of x] by linarith
  qed
  ultimately show ?thesis by linarith
qed

text \<open>
  C19. The measured round-trip time is accurate: for a reply that arrives at most 5.9999 seconds
  after its query was stamped, the \<open>double\<close> that \<open>getQueryRTT\<close> returns differs from the time
  that passed by less than 0.2 milliseconds.
\<close>

theorem getQueryRTT_accurate:
  assumes v: "valid_timeval t0" "valid_timeval t1"
    and "seconds t0 \<le> seconds t1" and "seconds t1 - seconds t0 \<le> 59999 / 10000"
  shows "\<bar>getQueryRTT (Some t1) (getQueryTimestamp (Some t0)) - (seconds t1 - seconds t0)\<bar> < 1 / 5000"
  using assms by (rule getQueryRTT_error)

theorem getQueryRTT_accurate_witness:
  "\<bar>getQueryRTT (Some \<lparr>tv_sec = 12, tv_usec = 350\<rparr>)
      (getQueryTimestamp (Some \<lparr>tv_sec = 11, tv_usec = 999900\<rparr>)) - 450 / 1000000\<bar> < 1 / 5000"
  using getQueryRTT_accurate [of "\<lparr>tv_sec = 11, tv_usec = 999900\<rparr>" "\<lparr>tv_sec = 12, tv_usec = 350\<rparr>"]
  by (simp add: valid_timeval_def seconds_def)

end
