(* ===== verification/Packet.thy ===== *)
theory Packet
  imports Query
begin

text \<open>
  \<open>src/src/packet.cpp\<close>: the class \<open>Packet\<close>, a 4096-byte buffer that holds an IPv4 header, a UDP
  header and a payload, with lazily updated checksums.

  IPv4 header: byte 0 version and header length, 2 total length, 4 identification, 8 time to live,
  9 protocol, 10 checksum, 12 source, 16 destination. UDP header at 20: 20 source port, 22
  destination port, 24 length, 26 checksum. Payload at 28.
\<close>

subsection \<open>State\<close>

record packet =
  pkt_buffer :: bytes
  payload_size :: nat
  chksum_valid :: bool

datatype ip_family = IPv4 | IPv6

text \<open>
  What the code reads of a \<open>ppl7::IPAddress\<close>: its family and the first four bytes at \<open>addr()\<close>, as
  an \<open>in_addr_t\<close> in memory order; of a \<open>ppl7::IPNetwork\<close>: its first address and prefix length.
\<close>

record ip_address =
  family :: ip_family
  addr :: u32

record ip_network =
  net_first :: ip_address
  prefixlen :: nat

abbreviation (input) ISZ :: nat where "ISZ \<equiv> 20"
abbreviation (input) USZ :: nat where "USZ \<equiv> 8"
abbreviation (input) HDRSZ :: nat where "HDRSZ \<equiv> ISZ + USZ"
abbreviation (input) MAXPACKETSIZE :: nat where "MAXPACKETSIZE \<equiv> 4096"

subsection \<open>Checksums\<close>

text \<open>
  \<open>udp_cksum\<close> copies the pseudo header, the UDP header and the payload into a zeroed buffer of
  \<open>MAXPACKETSIZE\<close> bytes and sums it, padded to an even size.
\<close>

definition udp_cksum :: "bytes \<Rightarrow> bytes \<Rightarrow> bytes \<Rightarrow> nat \<Rightarrow> u16" where
  "udp_cksum iphdr udp payload sz =
     (let cbuf = replicate MAXPACKETSIZE 0;
          cbuf = store32 0 (load32 12 iphdr) cbuf;
          cbuf = store32 4 (load32 16 iphdr) cbuf;
          cbuf = store8 8 0 cbuf;
          cbuf = store8 9 (load8 9 iphdr) cbuf;
          cbuf = store16 10 (load16 4 udp) cbuf;
          cbuf = blit 12 (take USZ udp) cbuf;
          cbuf = blit 20 (take sz payload) cbuf
      in in_cksum (take (4 * 3 + USZ + sz + sz mod 2) cbuf))"

definition updateChecksums :: "packet \<Rightarrow> packet" where
  "updateChecksums p =
     (let b = pkt_buffer p;
          b = store16 10 0 b;
          b = store16 10 (in_cksum (take ISZ b)) b;
          b = store16 26 0 b;
          b = store16 26 (udp_cksum b (drop ISZ b) (drop HDRSZ b) (payload_size p)) b
      in p\<lparr>pkt_buffer := b, chksum_valid := True\<rparr>)"

subsection \<open>Construction\<close>

text \<open>\<open>ip_hl\<close> is the low and \<open>ip_v\<close> the high half of byte 0.\<close>

definition Packet_new :: packet where
  "Packet_new =
     (let b = replicate MAXPACKETSIZE 0;
          b = store8 0 ((load8 0 b AND 0xf0) OR 5) b;
          b = store8 0 ((load8 0 b AND 0x0f) OR 0x40) b;
          b = store8 1 0 b;
          b = store16 6 0 b;
          b = store8 8 64 b;
          b = store8 9 17 b;
          b = store16 10 0 b;
          b = store16 4 0 b;
          b = store32 12 0 b;
          b = store32 16 0 b;
          b = store16 2 (htons (word_of_nat (HDRSZ + 0))) b;
          b = store16 10 (in_cksum (take ISZ b)) b;
          b = store16 24 (htons (word_of_nat (USZ + 0))) b
      in \<lparr>pkt_buffer = b, payload_size = 0, chksum_valid = False\<rparr>)"

subsection \<open>Setters\<close>

definition setSource :: "ip_address \<Rightarrow> int \<Rightarrow> packet \<Rightarrow> packet" where
  "setSource ip_addr port p =
     p\<lparr>pkt_buffer := store16 20 (htons (word_of_int port)) (store32 12 (addr ip_addr) (pkt_buffer p)),
       chksum_valid := False\<rparr>"

text \<open>\<open>ppl7::rand(min, max)\<close> is a parameter.\<close>

definition randomSourcePort :: "(u32 \<Rightarrow> u32 \<Rightarrow> u32) \<Rightarrow> packet \<Rightarrow> packet" where
  "randomSourcePort rand p =
     p\<lparr>pkt_buffer := store16 20 (htons (ucast (rand 1024 65535))) (pkt_buffer p),
       chksum_valid := False\<rparr>"

definition randomSourceIP :: "(u32 \<Rightarrow> u32 \<Rightarrow> u32) \<Rightarrow> u32 \<Rightarrow> u32 \<Rightarrow> packet \<Rightarrow> packet" where
  "randomSourceIP rand start sz p =
     p\<lparr>pkt_buffer := store32 12 (htonl (rand start (start + sz - 1))) (pkt_buffer p),
       chksum_valid := False\<rparr>"

text \<open>
  \<open>powl(2, 32 - prefixlen)\<close> converted to an integer type, which truncates: a prefix longer than 32
  bits gives a fraction.
\<close>

definition powl2 :: "nat \<Rightarrow> nat" where
  "powl2 plen = (if plen \<le> 32 then 2 ^ (32 - plen) else 0)"

text \<open>The overload for a network: \<open>size\<close> is a \<open>size_t\<close>, and the sum is narrowed for \<open>rand\<close>.\<close>

definition randomSourceIP_net :: "(u32 \<Rightarrow> u32 \<Rightarrow> u32) \<Rightarrow> ip_network \<Rightarrow> packet \<Rightarrow> packet" where
  "randomSourceIP_net rand net p =
     (let start = htonl (addr (net_first net));
          sz = (word_of_nat (powl2 (prefixlen net)) :: u64)
      in p\<lparr>pkt_buffer := store32 12 (htonl (rand start (ucast (ucast start + sz - 1)))) (pkt_buffer p),
           chksum_valid := False\<rparr>)"

text \<open>
  Reads the source address and port of a captured Ethernet frame, whatever \<open>size\<close> says: outside
  the frame that is undefined behaviour. The checksum flag is left alone.
\<close>

definition useSourceFromPcap :: "bytes \<Rightarrow> nat \<Rightarrow> packet \<Rightarrow> packet result" where
  "useSourceFromPcap pkt sz p =
     (if length pkt < 36 then Inl UndefinedBehaviour
      else Inr (p\<lparr>pkt_buffer := store16 20 (load16 34 pkt) (store32 12 (load32 26 pkt) (pkt_buffer p))\<rparr>))"

definition setDestination :: "ip_address \<Rightarrow> int \<Rightarrow> packet \<Rightarrow> packet" where
  "setDestination ip_addr port p =
     p\<lparr>pkt_buffer := store16 22 (htons (word_of_int port)) (store32 16 (addr ip_addr) (pkt_buffer p)),
       chksum_valid := False\<rparr>"

definition setIpId :: "u16 \<Rightarrow> packet \<Rightarrow> packet" where
  "setIpId i p = p\<lparr>pkt_buffer := store16 4 (htons i) (pkt_buffer p), chksum_valid := False\<rparr>"

definition setDnsId :: "u16 \<Rightarrow> packet \<Rightarrow> packet" where
  "setDnsId i p = p\<lparr>pkt_buffer := store16 HDRSZ (htons i) (pkt_buffer p), chksum_valid := False\<rparr>"

text \<open>The writes of both payload setters to the two length fields.\<close>

definition set_lengths :: "nat \<Rightarrow> bytes \<Rightarrow> bytes" where
  "set_lengths n b =
     store16 24 (htons (word_of_nat (USZ + n))) (store16 2 (htons (word_of_nat (HDRSZ + n))) b)"

text \<open>
  The guard of \<open>setPayload\<close> is evaluated in \<open>size_t\<close> arithmetic; a \<open>memcpy\<close> that reads past the
  source or writes past the buffer is undefined behaviour.
\<close>

definition setPayload :: "bytes \<Rightarrow> u64 \<Rightarrow> packet \<Rightarrow> packet result" where
  "setPayload payload sz p =
     (if sz + word_of_nat HDRSZ > word_of_nat MAXPACKETSIZE then Inl BufferOverflow
      else if length payload < unat sz \<or> length (pkt_buffer p) < HDRSZ + unat sz
      then Inl UndefinedBehaviour
      else Inr (p\<lparr>pkt_buffer := set_lengths (unat sz) (blit HDRSZ (take (unat sz) payload) (pkt_buffer p)),
                 payload_size := unat sz, chksum_valid := False\<rparr>))"

text \<open>
  \<open>buffersize - HDRSZ\<close> is \<open>buffersize - ISZ + USZ\<close>, since the macro \<open>HDRSZ\<close> has no parentheses.
\<close>

definition setPayloadDNSQuery :: "query_lib \<Rightarrow> string \<Rightarrow> bool \<Rightarrow> packet \<Rightarrow> packet result" where
  "setPayloadDNSQuery lib query dnssec p =
     bindE (MakeQuery lib query (drop HDRSZ (pkt_buffer p)) (MAXPACKETSIZE - ISZ + USZ) dnssec 4096)
       (\<lambda>(n, b). Inr (p\<lparr>pkt_buffer := set_lengths n (take HDRSZ (pkt_buffer p) @ b),
                        payload_size := n, chksum_valid := False\<rparr>))"

subsection \<open>Reading the packet\<close>

definition pkt_size :: "packet \<Rightarrow> nat" where
  "pkt_size p = HDRSZ + payload_size p"

definition pkt_ptr :: "packet \<Rightarrow> bytes \<times> packet" where
  "pkt_ptr p = (let q = (if chksum_valid p then p else updateChecksums p) in (pkt_buffer q, q))"

subsection \<open>The datagram on the wire\<close>

text \<open>
  The reference: what RFC 791 and RFC 768 require of a datagram \<open>d\<close> with a 20-byte header, a UDP
  segment and nothing else, stated with the checksum of RFC 1071 over bytes, without reference to
  the code. \<open>be16\<close> is the big-endian number in two bytes.
\<close>

definition be16 :: "nat \<Rightarrow> bytes \<Rightarrow> nat" where
  "be16 off d = 256 * unat (d ! off) + unat (d ! (off + 1))"

definition pseudo_segment :: "bytes \<Rightarrow> bytes" where
  "pseudo_segment d =
     bytes_at 12 8 d @ [0, d ! 9] @ bytes_at 24 2 d @ drop 20 d @ replicate (length d mod 2) 0"

definition valid_datagram :: "bytes \<Rightarrow> bool" where
  "valid_datagram d \<longleftrightarrow>
     28 \<le> length d \<and> d ! 0 = 0x45 \<and> d ! 9 = 17 \<and> be16 2 d = length d \<and>
     be16 24 d = length d - 20 \<and> rfc1071 (take 20 d) = 0 \<and> rfc1071 (pseudo_segment d) = 0"

subsection \<open>Regions covered by the checksums\<close>

definition udp_region :: "bytes \<Rightarrow> nat \<Rightarrow> bytes" where
  "udp_region b n =
     bytes_at 12 8 b @ [0, load8 9 b] @ bytes_at 24 2 b @ bytes_at 20 (8 + n) b @ replicate (n mod 2) 0"

lemma length_udp_region: "28 + n \<le> length b \<Longrightarrow> length (udp_region b n) = 20 + n + n mod 2"
  by (simp add: udp_region_def)

lemma udp_cksum_region:
  assumes len: "length b = 4096" and n: "n \<le> 4068"
  shows "udp_cksum b (drop 20 b) (drop 28 b) n = in_cksum (udp_region b n)"
proof -
  let ?z = "replicate MAXPACKETSIZE (0 :: byte)"
  let ?pseudo = "bytes_at 12 8 b @ [0, load8 9 b] @ bytes_at 24 2 b"
  have src: "store32 4 (load32 16 b) (store32 0 (load32 12 b) ?z) = blit 0 (bytes_at 12 8 b) ?z"
    using blit_adjacent [of 0 "bytes_at 12 4 b" "bytes_at 16 4 b" ?z] slice_add [of 12 4 4 b] len
    by (simp add: store32_copy length_blit)
  have proto: "store8 9 (load8 9 b) (store8 8 0 (blit 0 (bytes_at 12 8 b) ?z)) =
      blit 0 (bytes_at 12 8 b @ [0, load8 9 b]) ?z"
    using blit_adjacent [of 0 "bytes_at 12 8 b" "[0]" ?z]
      blit_adjacent [of 0 "bytes_at 12 8 b @ [0]" "[load8 9 b]" ?z] len
    by (simp add: store8_blit length_blit)
  have ulen: "load16 4 (drop 20 b) = load16 24 b"
    using len by (simp add: load16_def)
  have pseudo: "store16 10 (load16 24 b) (blit 0 (bytes_at 12 8 b @ [0, load8 9 b]) ?z) = blit 0 ?pseudo ?z"
    using blit_adjacent [of 0 "bytes_at 12 8 b @ [0, load8 9 b]" "bytes_at 24 2 b" ?z] len
    by (simp add: store16_copy length_blit)
  have seg: "take USZ (drop 20 b) = bytes_at 20 8 b" "take n (drop 28 b) = bytes_at 28 n b"
    by (simp_all add: bytes_at_def)
  have "blit 20 (bytes_at 28 n b) (blit 12 (bytes_at 20 8 b) (blit 0 ?pseudo ?z)) =
      blit 0 (?pseudo @ bytes_at 20 8 b @ bytes_at 28 n b) ?z"
    using blit_adjacent [of 0 ?pseudo "bytes_at 20 8 b" ?z]
      blit_adjacent [of 0 "?pseudo @ bytes_at 20 8 b" "bytes_at 28 n b" ?z] len n
    by simp
  also have "\<dots> = udp_region b n @ replicate (4096 - (20 + n + n mod 2)) 0"
  proof -
    have "n mod 2 \<le> 1" by simp
    then have "4096 - (20 + n) = n mod 2 + (4096 - (20 + n + n mod 2))" using n by linarith
    then have pad: "replicate (4096 - (20 + n)) (0 :: byte) =
        replicate (n mod 2) 0 @ replicate (4096 - (20 + n + n mod 2)) 0"
      by (metis replicate_add)
    have "length (?pseudo @ bytes_at 20 8 b @ bytes_at 28 n b) = 20 + n"
      using len n by simp
    then have "blit 0 (?pseudo @ bytes_at 20 8 b @ bytes_at 28 n b) ?z =
        (?pseudo @ bytes_at 20 8 b @ bytes_at 28 n b) @ replicate (4096 - (20 + n)) 0"
      by (simp only: blit_0 drop_replicate)
    then show ?thesis
      unfolding pad using slice_add [of 20 8 n b] by (simp add: udp_region_def)
  qed
  finally have "take (20 + n + n mod 2) (blit 20 (bytes_at 28 n b) (blit 12 (bytes_at 20 8 b)
      (blit 0 ?pseudo ?z))) = udp_region b n"
    using len n by (simp add: length_udp_region)
  then show ?thesis
    by (simp add: udp_cksum_def Let_def src proto ulen pseudo seg)
qed

lemma udp_region_store_sum:
  assumes "28 + n \<le> length b"
  shows "udp_region (store16 26 v b) n = store16 18 v (udp_region b n)"
    and "load16 18 (udp_region b n) = load16 26 b"
proof -
  let ?pre = "bytes_at 12 8 b @ [0, load8 9 b] @ bytes_at 24 2 b"
  have pre: "length ?pre = 12" using assms by simp
  have seg: "udp_region b n = ?pre @ bytes_at 20 (8 + n) b @ replicate (n mod 2) 0"
    by (simp add: udp_region_def)
  have "udp_region (store16 26 v b) n = ?pre @ store16 6 v (bytes_at 20 (8 + n) b) @ replicate (n mod 2) 0"
    using assms by (simp add: udp_region_def layout slice_store16)
  also have "\<dots> = store16 18 v (udp_region b n)"
    unfolding seg using pre assms by (simp add: store16_def list_update_append)
  finally show "udp_region (store16 26 v b) n = store16 18 v (udp_region b n)" .
  show "load16 18 (udp_region b n) = load16 26 b"
    unfolding seg using pre assms by (simp add: load16_def nth_append nth_slice)
qed

subsection \<open>The class invariant\<close>

definition sealed :: "bytes \<Rightarrow> nat \<Rightarrow> bool" where
  "sealed b n \<longleftrightarrow> in_cksum (take 20 b) = 0 \<and> in_cksum (udp_region b n) = 0"

definition headers_ok :: "bytes \<Rightarrow> nat \<Rightarrow> bool" where
  "headers_ok b n \<longleftrightarrow>
     length b = 4096 \<and> n \<le> 4068 \<and> load8 0 b = 0x45 \<and> load8 9 b = 17 \<and>
     load16 2 b = htons (word_of_nat (28 + n)) \<and> load16 24 b = htons (word_of_nat (8 + n))"

definition packet_inv :: "packet \<Rightarrow> bool" where
  "packet_inv p \<longleftrightarrow> headers_ok (pkt_buffer p) (payload_size p) \<and>
     (chksum_valid p \<longrightarrow> sealed (pkt_buffer p) (payload_size p))"

lemma take_store16: "off + 2 \<le> n \<Longrightarrow> take n (store16 off v b) = store16 off v (take n b)"
  by (simp add: store16_def take_update_swap)

lemma updateChecksums_inv:
  assumes "packet_inv p"
  shows "packet_inv (updateChecksums p)" and "chksum_valid (updateChecksums p)"
    and "payload_size (updateChecksums p) = payload_size p"
proof -
  let ?n = "payload_size p"
  define b1 where "b1 = store16 10 0 (pkt_buffer p)"
  define b2 where "b2 = store16 10 (in_cksum (take 20 b1)) b1"
  define b3 where "b3 = store16 26 0 b2"
  define b4 where "b4 = store16 26 (in_cksum (udp_region b3 ?n)) b3"
  have h: "headers_ok (pkt_buffer p) ?n" using assms by (simp add: packet_inv_def)
  have len: "length (pkt_buffer p) = 4096" "length b1 = 4096" "length b2 = 4096" "length b3 = 4096" "length b4 = 4096" and n: "?n \<le> 4068"
    using h by (simp_all add: b1_def b2_def b3_def b4_def headers_ok_def)
  have upd: "updateChecksums p = p\<lparr>pkt_buffer := b4, chksum_valid := True\<rparr>"
    using udp_cksum_region [OF len(4) n]
    by (simp add: updateChecksums_def Let_def b1_def b2_def b3_def b4_def)
  have "headers_ok b4 ?n"
    using h by (simp add: headers_ok_def b1_def b2_def b3_def b4_def layout)
  moreover have "in_cksum (take 20 b4) = 0"
  proof -
    have "take 20 b4 = take 20 b2"
      by (simp add: b4_def b3_def store16_def)
    also have "\<dots> = store16 10 (in_cksum (take 20 b1)) (take 20 b1)"
      by (simp add: b2_def take_store16)
    also have "in_cksum \<dots> = 0"
      by (rule ck.seal) (simp_all add: len b1_def take_store16 layout)
    finally show ?thesis .
  qed
  moreover have "in_cksum (udp_region b4 ?n) = 0"
  proof -
    have "udp_region b4 ?n = store16 18 (in_cksum (udp_region b3 ?n)) (udp_region b3 ?n)"
      using len n by (simp add: b4_def udp_region_store_sum)
    also have "in_cksum \<dots> = 0"
      by (rule ck.seal) (use len n in \<open>simp_all add: length_udp_region udp_region_store_sum b3_def layout\<close>)
    finally show ?thesis .
  qed
  ultimately show "packet_inv (updateChecksums p)" and "chksum_valid (updateChecksums p)"
    and "payload_size (updateChecksums p) = payload_size p"
    by (simp_all add: packet_inv_def sealed_def upd)
qed

lemma Packet_new_inv: "packet_inv Packet_new"
proof -
  have "load8 0 (pkt_buffer Packet_new) = 0x45"
    by (simp add: Packet_new_def Let_def layout) (simp add: load8_def)
  then show ?thesis
    by (simp add: packet_inv_def headers_ok_def) (simp add: Packet_new_def Let_def layout)
qed

text \<open>The setters: every one of them keeps the header fields and drops the checksum flag.\<close>

lemmas setter_defs = setSource_def randomSourcePort_def randomSourceIP_def randomSourceIP_net_def
  setDestination_def setIpId_def setDnsId_def

lemma setters_inv:
  assumes "packet_inv p"
  shows "packet_inv (setSource ip port p)" "packet_inv (randomSourcePort rand p)"
    "packet_inv (randomSourceIP rand start sz p)" "packet_inv (randomSourceIP_net rand net p)"
    "packet_inv (setDestination ip port p)" "packet_inv (setIpId i p)" "packet_inv (setDnsId i p)"
  using assms by (simp_all add: packet_inv_def headers_ok_def setter_defs Let_def layout)

lemma setters_chksum [simp]:
  "\<not> chksum_valid (setSource ip port p)" "\<not> chksum_valid (randomSourcePort rand p)"
  "\<not> chksum_valid (randomSourceIP rand start sz p)" "\<not> chksum_valid (randomSourceIP_net rand net p)"
  "\<not> chksum_valid (setDestination ip port p)" "\<not> chksum_valid (setIpId i p)" "\<not> chksum_valid (setDnsId i p)"
  by (simp_all add: setter_defs Let_def)

lemma setters_size [simp]:
  "payload_size (setSource ip port p) = payload_size p" "payload_size (randomSourcePort rand p) = payload_size p"
  "payload_size (randomSourceIP rand start sz p) = payload_size p"
  "payload_size (randomSourceIP_net rand net p) = payload_size p"
  "payload_size (setDestination ip port p) = payload_size p" "payload_size (setIpId i p) = payload_size p"
  "payload_size (setDnsId i p) = payload_size p"
  by (simp_all add: setter_defs Let_def)

lemma useSourceFromPcap_inv:
  assumes "packet_inv p" and "\<not> chksum_valid p" and "useSourceFromPcap pkt sz p = Inr q"
  shows "packet_inv q" and "\<not> chksum_valid q" and "payload_size q = payload_size p"
  using assms by (auto simp: useSourceFromPcap_def packet_inv_def headers_ok_def layout split: if_splits)

lemma set_lengths_headers:
  assumes "length b = 4096" and "n \<le> 4068" and "load8 0 b = 0x45" and "load8 9 b = 17"
  shows "headers_ok (set_lengths n b) n"
  using assms by (simp add: headers_ok_def set_lengths_def layout)

lemma setPayload_inv:
  assumes "packet_inv p" and "setPayload payload sz p = Inr q"
  shows "packet_inv q" and "\<not> chksum_valid q" and "payload_size q = unat sz"
proof -
  let ?b = "blit 28 (take (unat sz) payload) (pkt_buffer p)"
  have fits: "unat sz \<le> length payload" "28 + unat sz \<le> length (pkt_buffer p)"
    and q: "q = p\<lparr>pkt_buffer := set_lengths (unat sz) ?b, payload_size := unat sz, chksum_valid := False\<rparr>"
    using assms(2) by (auto simp: setPayload_def not_less split: if_splits)
  have "headers_ok (set_lengths (unat sz) ?b) (unat sz)"
    using assms(1) fits by (intro set_lengths_headers) (simp_all add: packet_inv_def headers_ok_def layout)
  then show "packet_inv q" and "\<not> chksum_valid q" and "payload_size q = unat sz"
    by (simp_all add: q packet_inv_def)
qed

lemma MakeQuery_bounds:
  assumes "MakeQuery lib query buffer bufsz dnssec udp = Inr (n, b)"
  shows "n \<le> length buffer" and "length b = length buffer"
  using assms
  by (auto simp: MakeQuery_def AddDnssecToQuery_def Let_def layout split: if_splits option.splits)

lemma setPayloadDNSQuery_inv:
  assumes inv: "packet_inv p" and "setPayloadDNSQuery lib query dnssec p = Inr q"
  shows "packet_inv q" and "\<not> chksum_valid q"
proof -
  have len: "length (pkt_buffer p) = 4096" using inv by (simp add: packet_inv_def headers_ok_def)
  obtain n b where mk: "MakeQuery lib query (drop 28 (pkt_buffer p)) 4084 dnssec 4096 = Inr (n, b)"
    and q: "q = p\<lparr>pkt_buffer := set_lengths n (take 28 (pkt_buffer p) @ b), payload_size := n,
      chksum_valid := False\<rparr>"
    using assms(2) by (auto simp: setPayloadDNSQuery_def bindE_Inr_iff)
  have "n \<le> 4068" "length b = 4068" using MakeQuery_bounds [OF mk] len by simp_all
  then have "headers_ok (set_lengths n (take 28 (pkt_buffer p) @ b)) n"
    using inv len
    by (intro set_lengths_headers) (auto simp: packet_inv_def headers_ok_def load8_def nth_append)
  then show "packet_inv q" and "\<not> chksum_valid q" by (simp_all add: q packet_inv_def)
qed

lemma pkt_ptr_inv:
  assumes "packet_inv p"
  shows "packet_inv (snd (pkt_ptr p))" and "chksum_valid (snd (pkt_ptr p))"
    and "payload_size (snd (pkt_ptr p)) = payload_size p" and "fst (pkt_ptr p) = pkt_buffer (snd (pkt_ptr p))"
  using assms by (simp_all add: pkt_ptr_def Let_def updateChecksums_inv)

subsection \<open>What the invariant means on the wire\<close>

lemma be16_load16: "be16 off d = unat (htons (load16 off d))"
  by (simp add: be16_def load16_def htons_bytes unat_simps)

lemma load16_htons_iff: "load16 off b = htons v \<longleftrightarrow> be16 off b = unat v"
  by (metis be16_load16 htons_htons word_unat_eq_iff)

lemma drop_bit_4_byte: "drop_bit 4 (b :: byte) = 4 \<longleftrightarrow> unat b div 16 = 4"
  by (simp only: word_unat_eq_iff unat_drop_bit_div) simp

lemma pseudo_segment_region:
  assumes "28 + n \<le> length b"
  shows "pseudo_segment (take (28 + n) b) = udp_region b n"
proof -
  have "bytes_at o' k (take (28 + n) b) = bytes_at o' k b" if "o' + k \<le> 28 + n" for o' k
    using that by (simp add: bytes_at_def drop_take min_def)
  moreover have "drop 20 (take (28 + n) b) = bytes_at 20 (8 + n) b"
    by (simp add: bytes_at_def drop_take)
  moreover have "(28 + n) mod 2 = n mod 2" by presburger
  ultimately show ?thesis
    using assms by (simp add: pseudo_segment_def udp_region_def load8_def)
qed

lemma sealed_valid_datagram:
  assumes "headers_ok b n"
  shows "valid_datagram (take (28 + n) b) \<longleftrightarrow> sealed b n"
proof -
  have len: "length b = 4096" and n: "n \<le> 4068" using assms by (simp_all add: headers_ok_def)
  have "load16 2 (take (28 + n) b) = load16 2 b" "load16 24 (take (28 + n) b) = load16 24 b"
    by (simp_all add: load16_def)
  moreover have "unat (word_of_nat (28 + n) :: u16) = 28 + n" "unat (word_of_nat (8 + n) :: u16) = 8 + n"
    using n by (simp_all only: unat_of_nat) simp_all
  ultimately have be: "be16 2 (take (28 + n) b) = 28 + n" "be16 24 (take (28 + n) b) = 8 + n"
    using assms unfolding be16_load16 headers_ok_def by (simp_all only: htons_htons)
  have "take 20 (take (28 + n) b) = take 20 b" by (simp add: min_def)
  then show ?thesis
    using assms len n be
    by (simp add: valid_datagram_def sealed_def headers_ok_def load8_def pseudo_segment_region
        in_cksum_value length_udp_region rfc1071_value word_unat_eq_iff)
qed

subsection \<open>Reachable packets\<close>

text \<open>
  The packets a client of the class can build: from the constructor by any sequence of public
  calls that succeed, with arbitrary arguments. \<open>useSourceFromPcap\<close> is restricted to packets
  whose checksums are marked stale, the only way the program calls it.
\<close>

inductive packet_call :: "packet \<Rightarrow> packet \<Rightarrow> bool" where
  setSource: "packet_call p (setSource ip port p)"
| randomSourcePort: "packet_call p (randomSourcePort rand p)"
| randomSourceIP: "packet_call p (randomSourceIP rand start sz p)"
| randomSourceIP_net: "packet_call p (randomSourceIP_net rand net p)"
| setDestination: "packet_call p (setDestination ip port p)"
| setIpId: "packet_call p (setIpId i p)"
| setDnsId: "packet_call p (setDnsId i p)"
| setPayload: "setPayload payload sz p = Inr q \<Longrightarrow> packet_call p q"
| setPayloadDNSQuery: "setPayloadDNSQuery lib query dnssec p = Inr q \<Longrightarrow> packet_call p q"
| useSourceFromPcap: "\<not> chksum_valid p \<Longrightarrow> useSourceFromPcap pkt sz p = Inr q \<Longrightarrow> packet_call p q"
| pkt_ptr: "packet_call p (snd (pkt_ptr p))"

inductive packet_reach :: "packet \<Rightarrow> bool" where
  new: "packet_reach Packet_new"
| call: "packet_reach p \<Longrightarrow> packet_call p q \<Longrightarrow> packet_reach q"

lemma packet_call_inv: "packet_call p q \<Longrightarrow> packet_inv p \<Longrightarrow> packet_inv q"
  by (induction rule: packet_call.induct)
     (blast intro: setters_inv setPayload_inv setPayloadDNSQuery_inv useSourceFromPcap_inv pkt_ptr_inv)+

lemma packet_reach_inv: "packet_reach p \<Longrightarrow> packet_inv p"
  by (induction rule: packet_reach.induct) (auto intro: Packet_new_inv packet_call_inv)

lemma pkt_ptr_valid:
  assumes "packet_inv p"
  shows "valid_datagram (take (pkt_size p) (fst (pkt_ptr p)))"
  using pkt_ptr_inv [OF assms] sealed_valid_datagram [of "fst (pkt_ptr p)" "payload_size p"]
  by (simp add: pkt_size_def packet_inv_def)

text \<open>
  C1. After every sequence of setter calls in which \<open>useSourceFromPcap\<close> is called only while the
  checksums are out of date (behind another setter, as \<open>sendPacket\<close> does it), the bytes that are handed
  to the kernel form a well-formed IPv4/UDP datagram: version and header length, protocol, both length
  fields, the header checksum and the UDP checksum all hold, for every payload size including the odd
  ones. Without that condition it fails, because \<open>useSourceFromPcap\<close> leaves \<open>chksum_valid\<close> set.
\<close>

theorem packet_wire_valid:
  assumes "packet_reach p"
  shows "valid_datagram (take (pkt_size p) (fst (pkt_ptr p)))"
  using assms by (intro pkt_ptr_valid packet_reach_inv)

theorem packet_wire_valid_witness:
  "valid_datagram (take 28 (fst (pkt_ptr (setDestination \<lparr>family = IPv4, addr = 0x0100a8c0\<rparr> 53 Packet_new))))"
proof -
  let ?p = "setDestination \<lparr>family = IPv4, addr = 0x0100a8c0\<rparr> 53 Packet_new"
  have "packet_reach ?p" by (rule packet_reach.call [OF packet_reach.new packet_call.setDestination])
  moreover have "pkt_size ?p = 28" by (simp add: pkt_size_def setDestination_def Packet_new_def Let_def)
  ultimately show ?thesis using packet_wire_valid [of ?p] by simp
qed

subsection \<open>Payloads\<close>

lemma setPayload_guard:
  "(sz :: u64) + word_of_nat HDRSZ > word_of_nat MAXPACKETSIZE \<longleftrightarrow>
   4068 < unat sz \<and> unat sz < 18446744073709551616 - 28"
proof -
  have "unat (sz + 28) = (unat sz + 28) mod 18446744073709551616"
    by (simp add: unat_word_ariths)
  also have "\<dots> = (if unat sz < 18446744073709551616 - 28 then unat sz + 28
      else unat sz - (18446744073709551616 - 28))"
    using u64_lt [of sz] by (auto simp: not_less le_mod_geq simp del: u64_lt)
  finally show ?thesis
    using u64_lt [of sz] by (auto simp: word_less_nat_alt simp del: u64_lt)
qed

text \<open>
  C30. \<open>setPayload\<close> raises \<open>BufferOverflow\<close> for every size above 4068 bytes up to the point where
  the \<open>size_t\<close> sum of its guard wraps around; it accepts a size exactly when it is at most 4068 and
  the source has that many bytes; in the remaining cases (a source that is too short, or one of the
  28 largest \<open>size_t\<close> values, which pass the guard) the copy leaves its objects.
\<close>

theorem setPayload_outcome:
  assumes "packet_inv p"
  shows "(setPayload payload sz p = Inl BufferOverflow \<longleftrightarrow> 4068 < unat sz \<and> unat sz < 2 ^ 64 - 28) \<and>
    ((\<exists>q. setPayload payload sz p = Inr q) \<longleftrightarrow> unat sz \<le> 4068 \<and> unat sz \<le> length payload) \<and>
    (setPayload payload sz p = Inl UndefinedBehaviour \<longleftrightarrow>
      (unat sz \<le> 4068 \<and> length payload < unat sz) \<or> 2 ^ 64 - 28 \<le> unat sz)"
  using setPayload_guard [of sz] assms
  by (auto simp: setPayload_def packet_inv_def headers_ok_def)

theorem setPayload_outcome_witness:
  "setPayload [1, 2, 3] 4069 Packet_new = Inl BufferOverflow \<and>
   (\<exists>q. setPayload [1, 2, 3] 3 Packet_new = Inr q) \<and>
   setPayload [1, 2, 3] 0xffffffffffffffff Packet_new = Inl UndefinedBehaviour"
  using setPayload_outcome [OF Packet_new_inv, of "[1, 2, 3]" 4069]
    setPayload_outcome [OF Packet_new_inv, of "[1, 2, 3]" 3]
    setPayload_outcome [OF Packet_new_inv, of "[1, 2, 3]" "0xffffffffffffffff"]
  by simp

lemma pkt_ptr_other_bytes:
  assumes "packet_inv p" and "i \<notin> {10, 11, 26, 27}"
  shows "fst (pkt_ptr p) ! i = pkt_buffer p ! i"
proof -
  have "i < 10 \<or> 12 \<le> i" "i < 26 \<or> 28 \<le> i" using assms(2) by auto
  then show ?thesis
    by (simp add: pkt_ptr_def Let_def updateChecksums_def f16.nth_put_other)
qed

lemma pkt_ptr_length: "packet_inv p \<Longrightarrow> length (fst (pkt_ptr p)) = 4096"
  using pkt_ptr_inv [of p] by (simp add: packet_inv_def headers_ok_def)

lemma pkt_ptr_payload:
  assumes "packet_inv p"
  shows "drop 28 (take (pkt_size p) (fst (pkt_ptr p))) = bytes_at 28 (payload_size p) (pkt_buffer p)"
proof -
  have len: "length (pkt_buffer p) = 4096" "payload_size p \<le> 4068"
    using assms by (simp_all add: packet_inv_def headers_ok_def)
  have "drop 28 (take (pkt_size p) (fst (pkt_ptr p))) = bytes_at 28 (payload_size p) (fst (pkt_ptr p))"
    by (simp add: pkt_size_def drop_take bytes_at_def)
  also have "\<dots> = bytes_at 28 (payload_size p) (pkt_buffer p)"
    by (rule slice_eqI) (use assms len in \<open>simp_all add: pkt_ptr_length pkt_ptr_other_bytes\<close>)
  finally show ?thesis .
qed

lemma setPayload_bytes:
  assumes "packet_inv p" and "setPayload payload sz p = Inr q"
  shows "bytes_at 28 (unat sz) (pkt_buffer q) = take (unat sz) payload"
proof -
  let ?b = "blit 28 (take (unat sz) payload) (pkt_buffer p)"
  have fits: "unat sz \<le> length payload" "28 + unat sz \<le> length (pkt_buffer p)"
    and q: "pkt_buffer q = set_lengths (unat sz) ?b"
    using assms(2) by (auto simp: setPayload_def not_less split: if_splits)
  have "bytes_at 28 (unat sz) (pkt_buffer q) = bytes_at 28 (unat sz) ?b"
    using fits by (simp add: q set_lengths_def layout)
  also have "\<dots> = take (unat sz) payload"
    using fits slice_blit_same [of 28 "take (unat sz) payload" "pkt_buffer p"] by simp
  finally show ?thesis .
qed

text \<open>
  C31. Round trip of the payload: the UDP payload of the datagram that leaves the packet is the data
  that was put into it.
\<close>

theorem setPayload_roundtrip:
  assumes "packet_inv p" and "setPayload payload sz p = Inr q"
  shows "drop 28 (take (pkt_size q) (fst (pkt_ptr q))) = take (unat sz) payload"
  using pkt_ptr_payload [OF setPayload_inv(1) [OF assms]] setPayload_inv(3) [OF assms] setPayload_bytes [OF assms]
  by simp

theorem setPayload_roundtrip_witness:
  "\<exists>q. setPayload [1, 2, 3] 3 Packet_new = Inr q \<and>
     drop 28 (take (pkt_size q) (fst (pkt_ptr q))) = [1, 2, 3]"
proof -
  have "length (pkt_buffer Packet_new) = 4096"
    using Packet_new_inv by (simp add: packet_inv_def headers_ok_def)
  then obtain q where "setPayload [1, 2, 3] 3 Packet_new = Inr q"
    by (simp add: setPayload_def)
  then show ?thesis using setPayload_roundtrip [OF Packet_new_inv, of "[1, 2, 3]" 3 q] by simp
qed

subsection \<open>Spoofed source addresses\<close>

text \<open>What \<open>ppl7::rand\<close> promises: a value between its bounds.\<close>

definition rand_ok :: "(u32 \<Rightarrow> u32 \<Rightarrow> u32) \<Rightarrow> bool" where
  "rand_ok rand \<longleftrightarrow> (\<forall>lo hi. lo \<le> hi \<longrightarrow> lo \<le> rand lo hi \<and> rand lo hi \<le> hi)"

lemma net_last:
  assumes "k \<le> 32" and "2 ^ k dvd unat (start :: u32)"
  shows "unat (start + word_of_nat (2 ^ k) - 1) = unat start + 2 ^ k - 1"
proof -
  obtain m where m: "unat start = 2 ^ k * m" using assms(2) by blast
  have pow: "(2 :: nat) ^ 32 = 2 ^ k * 2 ^ (32 - k)" using assms(1) by (simp flip: power_add)
  moreover have "2 ^ k * m < (2 :: nat) ^ 32" using u32_lt [of start] by (simp add: m)
  ultimately have "m < 2 ^ (32 - k)" by (metis mult_less_cancel1)
  then have "2 ^ k * (m + 1) \<le> 2 ^ k * (2 ^ (32 - k) :: nat)" by (intro mult_left_mono) auto
  then have le: "unat start + 2 ^ k \<le> 2 ^ 32" using pow m by (simp add: distrib_left)
  have "(word_of_nat (unat start + 2 ^ k - 1) :: u32) = word_of_nat (unat start + 2 ^ k) - 1"
    by (subst of_nat_diff) (simp_all add: Suc_leI trans_le_add2)
  then have "start + word_of_nat (2 ^ k) - 1 = word_of_nat (unat start + 2 ^ k - 1)"
    by (simp only: of_nat_add of_nat_unat ucast_id)
  then have "unat (start + word_of_nat (2 ^ k) - 1) = (unat start + 2 ^ k - 1) mod 2 ^ 32"
    by (simp only: unat_of_nat) simp
  moreover have "0 < (2 :: nat) ^ k" by simp
  ultimately show ?thesis using le by (subst (asm) mod_less) linarith+
qed

lemma rand_in_net:
  assumes "rand_ok rand" and "k \<le> 32" and al: "2 ^ k dvd unat (start :: u32)"
  shows "unat (rand start (start + word_of_nat (2 ^ k) - 1)) div 2 ^ k = unat start div 2 ^ k"
proof -
  let ?r = "rand start (start + word_of_nat (2 ^ k) - 1)"
  have last: "unat (start + word_of_nat (2 ^ k) - 1) = unat start + 2 ^ k - 1"
    using assms by (intro net_last)
  have "start \<le> start + word_of_nat (2 ^ k) - 1"
    unfolding word_le_nat_alt last using zero_less_power [of "2 :: nat" k] by linarith
  then have "start \<le> ?r" "?r \<le> start + word_of_nat (2 ^ k) - 1"
    using assms(1) unfolding rand_ok_def by (simp_all only: simp_thms)
  then have r: "unat start \<le> unat ?r" "unat ?r \<le> unat start + 2 ^ k - 1"
    unfolding word_le_nat_alt last .
  obtain m where m: "unat start = m * 2 ^ k" using al by (metis dvdE mult.commute)
  have "unat ?r < (m + 1) * 2 ^ k" "m * 2 ^ k \<le> unat ?r"
    using r zero_less_power [of "2 :: nat" k] unfolding m distrib_right mult_1 by linarith+
  then have "unat ?r div 2 ^ k = m"
    by (intro div_nat_eqI) (simp_all add: mult.commute)
  then show ?thesis by (simp add: m)
qed

text \<open>
  The contract behind spoofing: with a first address whose host bits are zero, the source address
  written into the packet has the network's prefix.
\<close>

lemma randomSourceIP_in_network:
  assumes "rand_ok rand" and "plen \<le> 32" and "2 ^ (32 - plen) dvd unat start"
  shows "unat (rand start (start + word_of_nat (powl2 plen) - 1)) div 2 ^ (32 - plen) = unat start div 2 ^ (32 - plen)"
  using rand_in_net [of rand "32 - plen" start] assms by (simp add: powl2_def)

subsection \<open>Two defects of the class\<close>

lemma store16_same: "off + 2 \<le> length b \<Longrightarrow> store16 off (load16 off b) b = b"
  by (simp add: store16_def load16_def)

lemma useSourceFromPcap_breaks:
  assumes inv: "packet_inv p" "chksum_valid p" and "36 \<le> length pkt"
    and hi: "load16 28 pkt = load16 14 (pkt_buffer p)"
    and lo: "load16 26 pkt \<noteq> load16 12 (pkt_buffer p)"
      "{load16 26 pkt, load16 12 (pkt_buffer p)} \<noteq> {0, 0xffff}"
  shows "\<exists>q. useSourceFromPcap pkt sz p = Inr q \<and> \<not> valid_datagram (take (pkt_size q) (fst (pkt_ptr q)))"
proof -
  let ?b = "pkt_buffer p" and ?n = "payload_size p"
  let ?c = "store16 20 (load16 34 pkt) (store32 12 (load32 26 pkt) ?b)"
  let ?q = "p\<lparr>pkt_buffer := ?c\<rparr>"
  have h: "headers_ok ?b ?n" "sealed ?b ?n" using inv by (simp_all add: packet_inv_def)
  then have len: "length ?b = 4096" by (simp add: headers_ok_def)
  have "headers_ok ?c ?n" using h by (simp add: headers_ok_def layout)
  moreover have "in_cksum (take 20 ?c) \<noteq> 0"
  proof
    assume z: "in_cksum (take 20 ?c) = 0"
    have split: "store32 12 (load32 26 pkt) ?b = store16 14 (load16 28 pkt) (store16 12 (load16 26 pkt) ?b)"
      by (simp add: store32_def load32_def)
    have same: "store16 14 (load16 28 pkt) (store16 12 (load16 26 pkt) ?b) = store16 12 (load16 26 pkt) ?b"
      using store16_same [of 14 "store16 12 (load16 26 pkt) ?b"] len
      by (simp add: hi f16_16.get_put_other)
    have "take 20 ?c = take 20 (store32 12 (load32 26 pkt) ?b)" by (simp add: store16_def)
    then have "take 20 ?c = store16 12 (load16 26 pkt) (take 20 ?b)"
      by (simp only: split same) (simp add: take_store16)
    then have "in_cksum (store16 12 (load16 26 pkt) (take 20 ?b)) = 0" using z by simp
    moreover have "in_cksum (take 20 ?b) = 0" using h by (simp add: sealed_def)
    moreover have "load16 12 (take 20 ?b) = load16 12 ?b" by (simp add: load16_def)
    ultimately show False
      using ck.detect [of 12 "take 20 ?b" "load16 26 pkt"] lo len by simp
  qed
  ultimately have "\<not> valid_datagram (take (28 + ?n) ?c)"
    by (simp add: sealed_valid_datagram sealed_def)
  moreover have "useSourceFromPcap pkt sz p = Inr ?q" using assms by (simp add: useSourceFromPcap_def)
  ultimately show ?thesis using inv by (intro exI [of _ ?q]) (simp add: pkt_size_def pkt_ptr_def Let_def)
qed

text \<open>
  \<open>useSourceFromPcap\<close> does not mark the checksums stale: called on a packet whose checksums
  were already computed, it changes the source and leaves a datagram that no receiver accepts. The
  sender thread is not affected, because it always sets the payload before and the DNS identifier
  after the call.
\<close>

theorem useSourceFromPcap_stale_checksum:
  "\<exists>p pkt q. packet_reach p \<and> useSourceFromPcap pkt (length pkt) p = Inr q \<and>
     \<not> valid_datagram (take (pkt_size q) (fst (pkt_ptr q)))"
proof -
  let ?p = "snd (pkt_ptr Packet_new)" and ?pkt = "(replicate 36 0)[26 := 1] :: bytes"
  have reach: "packet_reach ?p" by (rule packet_reach.call [OF packet_reach.new packet_call.pkt_ptr])
  have new0: "pkt_buffer Packet_new ! i = 0" if "i \<in> {12, 13, 14, 15}" for i
    using that by (auto simp: Packet_new_def Let_def f8.nth_put_other f16.nth_put_other f32.nth_put_other
        store32_def store16_def nth_list_update lo8_def hi8_def lo16_def hi16_def)
  have zero: "pkt_buffer ?p ! i = 0" if "i \<in> {12, 13, 14, 15}" for i
  proof -
    have "i \<notin> {10, 11, 26, 27}" using that by auto
    then have "fst (pkt_ptr Packet_new) ! i = 0"
      using pkt_ptr_other_bytes [OF Packet_new_inv] new0 [OF that] by simp
    then show ?thesis by (simp only: pkt_ptr_inv(4) [OF Packet_new_inv])
  qed
  have "load16 28 ?pkt = load16 14 (pkt_buffer ?p)" "load16 26 ?pkt = 1" "load16 12 (pkt_buffer ?p) = 0"
    using zero by (simp_all add: load16_def le16_def)
  then have "\<exists>q. useSourceFromPcap ?pkt (length ?pkt) ?p = Inr q \<and>
      \<not> valid_datagram (take (pkt_size q) (fst (pkt_ptr q)))"
    using pkt_ptr_inv [OF Packet_new_inv]
    by (intro useSourceFromPcap_breaks) (simp_all add: doubleton_eq_iff)
  with reach show ?thesis by blast
qed

text \<open>A resolver library that does not write more than it is told to.\<close>

definition mkquery_fits :: "query_lib \<Rightarrow> bool" where
  "mkquery_fits lib \<longleftrightarrow> (\<forall>name type n msg. res_mkquery lib name type n = Some msg \<longrightarrow> length msg \<le> n)"

text \<open>
  \<open>setPayloadDNSQuery\<close> tells the resolver library that 4084 bytes are free where 4068 are,
  because \<open>buffersize - HDRSZ\<close> expands without parentheses: a library that respects the size it is
  given may write past the packet buffer.
\<close>

theorem setPayloadDNSQuery_overflow:
  "\<exists>lib. mkquery_fits lib \<and>
     setPayloadDNSQuery lib ''a.example A'' False Packet_new = Inl UndefinedBehaviour"
proof -
  define lib where "lib = \<lparr>explode_blank = (\<lambda>_. [''a.example'', ''A'']), toUpperCase = (\<lambda>s. s),
    res_mkquery = (\<lambda>_ _ n. Some (replicate n 0))\<rparr>"
  have "length (pkt_buffer Packet_new) = 4096"
    using Packet_new_inv by (simp add: packet_inv_def headers_ok_def)
  then have "setPayloadDNSQuery lib ''a.example A'' False Packet_new = Inl UndefinedBehaviour"
    by (simp add: setPayloadDNSQuery_def MakeQuery_def lib_def rr_types_def)
  then show ?thesis by (intro exI [of _ lib]) (simp add: lib_def mkquery_fits_def)
qed

end
