(* ===== verification/Payload_File.thy ===== *)
theory Payload_File
  imports Packet "HOL-Library.Multiset"
begin

text \<open>
  \<open>src/src/payload_file.cpp\<close>: the class \<open>PayloadFile\<close>. A text file is compiled into DNS messages, a
  capture file is filtered for DNS queries; the result is a list that the sender threads draw from
  in turns, under a mutex, so that the draws of all threads form one sequence.
\<close>

subsection \<open>State\<close>

text \<open>
  The iterator is the index of the element it points to. The counter \<open>validLinesInQueryFile\<close> counts
  list cells that are in memory, so its 64 bits suffice.
\<close>

record payload_file =
  validLinesInQueryFile :: nat
  querycache :: "bytes list"
  it_pos :: nat
  payloadIsPcap :: bool

definition PayloadFile_new :: payload_file where
  "PayloadFile_new = \<lparr>validLinesInQueryFile = 0, querycache = [], it_pos = 0, payloadIsPcap = False\<rparr>"

text \<open>
  Code outside the repository: the file system (\<open>None\<close>: the open fails), \<open>ppl7::Peek32\<close>, the strings
  that successive calls \<open>gets(buffer, 1024)\<close> read from the start of a file until the end of file,
  \<open>String::trim\<close>, and the frames that \<open>pcap_next\<close> returns from a capture file (\<open>None\<close>:
  \<open>pcap_open_offline\<close> fails); \<open>hdr.caplen\<close> is the number of bytes of a frame.
\<close>

record file_lib =
  fs_open :: "string \<Rightarrow> bytes option"
  Peek32 :: "bytes \<Rightarrow> u32"
  gets_lines :: "bytes \<Rightarrow> string list"
  trim :: "string \<Rightarrow> string"
  pcap_frames :: "string \<Rightarrow> bytes list option"

subsection \<open>Detection of capture files\<close>

definition detectPcap :: "file_lib \<Rightarrow> bytes \<Rightarrow> bool" where
  "detectPcap io content =
     (if length (take 8 content) \<noteq> 8 then False
      else
        let magic = Peek32 io (take 8 content)
        in if magic = 0xa1b2c3d4 \<or> magic = 0xa1b23c4d then True
           else if magic = 0xd4c3b2a1 \<or> magic = 0x4d3cb2a1 then True
           else False)"

subsection \<open>Text files\<close>

text \<open>
  One pass of the loop of \<open>loadAndCompile\<close> per line; \<open>buf\<close> is the buffer the queries are compiled in.
  The inner handler swallows every exception of \<open>MakeQuery\<close>, but undefined behaviour is not an
  exception.
\<close>

fun compile_lines :: "file_lib \<Rightarrow> query_lib \<Rightarrow> string list \<Rightarrow> bytes \<Rightarrow> payload_file \<Rightarrow> payload_file result" where
  "compile_lines io ql [] buf pf =
     (if validLinesInQueryFile pf = 0 then Inl InvalidQueryFile else Inr pf)"
| "compile_lines io ql (line # lines) buf pf =
     (let buffer = trim io line
      in if buffer = [] then compile_lines io ql lines buf pf
         else if hd buffer = CHR ''#'' then compile_lines io ql lines buf pf
         else
           case MakeQuery ql buffer buf 4096 False 4096 of
             Inr (sz, buf') \<Rightarrow>
               compile_lines io ql lines buf'
                 (pf\<lparr>querycache := querycache pf @ [take sz buf'],
                     validLinesInQueryFile := validLinesInQueryFile pf + 1\<rparr>)
           | Inl UndefinedBehaviour \<Rightarrow> Inl UndefinedBehaviour
           | Inl _ \<Rightarrow> compile_lines io ql lines buf pf)"

definition loadAndCompile :: "file_lib \<Rightarrow> query_lib \<Rightarrow> bytes \<Rightarrow> payload_file \<Rightarrow> payload_file result" where
  "loadAndCompile io ql content pf =
     compile_lines io ql (gets_lines io content) (replicate 4096 0) (pf\<lparr>validLinesInQueryFile := 0\<rparr>)"

subsection \<open>Capture files\<close>

text \<open>
  The tests of the loop on one frame, in the order of the code. A field that does not lie inside
  the frame is read outside of the memory \<open>pcap_next\<close> returned.
\<close>

definition pcap_accept :: "bytes \<Rightarrow> bool result" where
  "pcap_accept pkt =
     (if 4096 < length pkt then Inr False
      else if length pkt < 14 then Inl UndefinedBehaviour
      else if load16 12 pkt \<noteq> htons 0x0800 then Inr False
      else if length pkt < 15 then Inl UndefinedBehaviour
      else if drop_bit 4 (load8 14 pkt) \<noteq> 4 then Inr False
      else if length pkt < 38 then Inl UndefinedBehaviour
      else if load16 36 pkt \<noteq> htons 53 then Inr False
      else if length pkt < 45 then Inl UndefinedBehaviour
      else if dns_qr 42 pkt \<or> dns_opcode 42 pkt \<noteq> 0 then Inr False
      else Inr True)"

fun pcap_loop :: "bytes list \<Rightarrow> payload_file \<Rightarrow> payload_file result" where
  "pcap_loop [] pf = Inr pf"
| "pcap_loop (pkt # pkts) pf =
     (case pcap_accept pkt of
        Inl e \<Rightarrow> Inl e
      | Inr False \<Rightarrow> pcap_loop pkts pf
      | Inr True \<Rightarrow>
          pcap_loop pkts
            (pf\<lparr>querycache := querycache pf @ [pkt],
                validLinesInQueryFile := validLinesInQueryFile pf + 1\<rparr>))"

definition loadAndCompilePcapFile :: "file_lib \<Rightarrow> string \<Rightarrow> payload_file \<Rightarrow> payload_file result" where
  "loadAndCompilePcapFile io filename pf =
     (case pcap_frames io filename of
        None \<Rightarrow> Inl InvalidQueryFile
      | Some pkts \<Rightarrow>
          bindE (pcap_loop pkts (pf\<lparr>payloadIsPcap := True, validLinesInQueryFile := 0\<rparr>))
            (\<lambda>pf. if validLinesInQueryFile pf = 0 then Inl InvalidQueryFile else Inr pf))"

subsection \<open>Opening and drawing\<close>

definition openQueryFile :: "file_lib \<Rightarrow> query_lib \<Rightarrow> string \<Rightarrow> payload_file \<Rightarrow> payload_file result" where
  "openQueryFile io ql filename pf =
     (if filename = [] then Inl InvalidQueryFile
      else
        case fs_open io filename of
          None \<Rightarrow> Inl Ppl7Exception
        | Some content \<Rightarrow>
            if length content = 0 then Inl InvalidQueryFile
            else
              bindE (if detectPcap io content then loadAndCompilePcapFile io filename pf
                     else loadAndCompile io ql content pf)
                (\<lambda>pf. Inr (pf\<lparr>it_pos := 0\<rparr>)))"

definition getQuery :: "payload_file \<Rightarrow> (bytes \<times> payload_file) result" where
  "getQuery pf =
     (if it_pos pf < length (querycache pf)
      then
        let bap = querycache pf ! it_pos pf;
            it = it_pos pf + 1;
            it = (if it = length (querycache pf) then 0 else it)
        in Inr (bap, pf\<lparr>it_pos := it\<rparr>)
      else Inl UndefinedBehaviour)"

definition isPcap :: "payload_file \<Rightarrow> bool" where
  "isPcap pf = payloadIsPcap pf"

subsection \<open>What is loaded from a text file\<close>

text \<open>
  What is used of \<open>res_mkquery\<close>: it respects the size of the buffer, and what it writes is a DNS
  message with one question, that is, a header of 12 bytes, a name of at most 255 and 4 bytes.
\<close>

definition mkquery_ok :: "query_lib \<Rightarrow> bool" where
  "mkquery_ok ql \<longleftrightarrow>
     (\<forall>name type n msg. res_mkquery ql name type n = Some msg \<longrightarrow>
        12 \<le> length msg \<and> length msg \<le> n \<and> length msg \<le> 271)"

text \<open>The message of a line, without the buffer; \<open>None\<close> for a line that is skipped.\<close>

definition query_message :: "query_lib \<Rightarrow> string \<Rightarrow> bytes option" where
  "query_message ql query =
     (case explode_blank ql query of
        [name, type] \<Rightarrow>
          (case rr_type_code (toUpperCase ql type) of
             None \<Rightarrow> None
           | Some code \<Rightarrow> res_mkquery ql name code 4096)
      | _ \<Rightarrow> None)"

definition line_message :: "file_lib \<Rightarrow> query_lib \<Rightarrow> string \<Rightarrow> bytes option" where
  "line_message io ql line =
     (let l = trim io line in if l = [] \<or> hd l = CHR ''#'' then None else query_message ql l)"

lemma MakeQuery_message:
  assumes "mkquery_ok ql" and "length buf = 4096"
  shows "query_message ql query = Some msg \<Longrightarrow>
      MakeQuery ql query buf 4096 False u = Inr (length msg, blit 0 msg buf)"
    and "query_message ql query = None \<Longrightarrow>
      MakeQuery ql query buf 4096 False u \<in> {Inl InvalidDNSQuery, Inl UnknownRRType}"
    and "query_message ql query = Some msg \<Longrightarrow> 12 \<le> length msg \<and> length msg \<le> 271"
  using assms
  by (auto simp: MakeQuery_eq query_message_def mkquery_ok_def split: option.splits list.splits; fastforce)+

lemma compile_lines_eq:
  assumes "mkquery_ok ql" and "length buf = 4096"
  shows "compile_lines io ql lines buf pf =
    (let new = List.map_filter (line_message io ql) lines;
         pf' = pf\<lparr>querycache := querycache pf @ new,
                  validLinesInQueryFile := validLinesInQueryFile pf + length new\<rparr>
     in if validLinesInQueryFile pf' = 0 then Inl InvalidQueryFile else Inr pf')"
  using assms(2)
proof (induction lines arbitrary: buf pf)
  case Nil
  then show ?case by (simp add: map_filter_simps)
next
  case (Cons line lines)
  let ?l = "trim io line"
  show ?case
  proof (cases "?l = [] \<or> hd ?l = CHR ''#''")
    case True
    then have "line_message io ql line = None" by (simp add: line_message_def)
    with True show ?thesis using Cons by (auto simp: map_filter_simps Let_def)
  next
    case False
    then have lm: "line_message io ql line = query_message ql ?l" by (simp add: line_message_def)
    show ?thesis
    proof (cases "query_message ql ?l")
      case None
      then have "MakeQuery ql ?l buf 4096 False 4096 \<in> {Inl InvalidDNSQuery, Inl UnknownRRType}"
        using MakeQuery_message(2) assms(1) Cons.prems by blast
      then show ?thesis using False None Cons by (auto simp: lm map_filter_simps Let_def)
    next
      case (Some msg)
      have "length msg \<le> 4096" using MakeQuery_message(3) [OF assms(1) Cons.prems Some] by simp
      moreover have "MakeQuery ql ?l buf 4096 False 4096 = Inr (length msg, blit 0 msg buf)"
        by (rule MakeQuery_message(1) [OF assms(1) Cons.prems Some])
      ultimately show ?thesis
        using False Some Cons by (simp add: lm map_filter_simps length_blit blit_0) (simp add: Let_def)
    qed
  qed
qed

lemma loadAndCompile_eq:
  assumes "mkquery_ok ql"
  shows "loadAndCompile io ql content pf =
    (let new = List.map_filter (line_message io ql) (gets_lines io content)
     in if new = [] then Inl InvalidQueryFile
        else Inr (pf\<lparr>querycache := querycache pf @ new, validLinesInQueryFile := length new\<rparr>))"
  by (simp add: loadAndCompile_def compile_lines_eq [OF assms] Let_def)

text \<open>
  C26. Loading a text file keeps, in order, exactly the messages of the lines that are neither blank
  nor comments and compile; a bad line is skipped and never ends the load, and a file without a
  single valid line is refused.
\<close>

theorem loadAndCompile_spec:
  assumes "mkquery_ok ql" and "messages = List.map_filter (line_message io ql) (gets_lines io content)"
  shows "loadAndCompile io ql content pf =
    (if messages = [] then Inl InvalidQueryFile
     else Inr (pf\<lparr>querycache := querycache pf @ messages, validLinesInQueryFile := length messages\<rparr>))"
  using loadAndCompile_eq [OF assms(1)] assms(2) by (simp add: Let_def)

text \<open>A library for the witnesses: it splits at the first blank and builds a header and the code.\<close>

definition demo_lib :: query_lib where
  "demo_lib = \<lparr>explode_blank = (\<lambda>s. [takeWhile (\<lambda>c. c \<noteq> CHR '' '') s, tl (dropWhile (\<lambda>c. c \<noteq> CHR '' '') s)]),
     toUpperCase = (\<lambda>s. s), res_mkquery = (\<lambda>_ code n. if n < 13 then None else Some (replicate 12 0 @ [word_of_int code]))\<rparr>"

definition demo_io :: file_lib where
  "demo_io = \<lparr>fs_open = (\<lambda>_. Some [1]), Peek32 = load32 0,
     gets_lines = (\<lambda>_. [''# comment'', [], ''a.example MX'', ''b.example XYZ'', ''c.example A'']),
     trim = (\<lambda>s. s), pcap_frames = (\<lambda>_. None)\<rparr>"

lemma demo_lib_ok: "mkquery_ok demo_lib"
  by (auto simp: mkquery_ok_def demo_lib_def split: if_splits)

lemma demo_messages:
  "List.map_filter (line_message demo_io demo_lib) (gets_lines demo_io c) =
   [replicate 12 0 @ [15], replicate 12 0 @ [1]]"
  by (simp add: demo_io_def demo_lib_def line_message_def query_message_def rr_type_code_def rr_types_def
      rr_code_def map_filter_simps)

theorem loadAndCompile_spec_witness:
  "loadAndCompile demo_io demo_lib [1] PayloadFile_new =
   Inr (PayloadFile_new\<lparr>querycache := [replicate 12 0 @ [15], replicate 12 0 @ [1]],
                        validLinesInQueryFile := 2\<rparr>)"
  using loadAndCompile_spec [OF demo_lib_ok demo_messages [symmetric]] by (simp add: PayloadFile_new_def)

subsection \<open>What is loaded from a capture file\<close>

text \<open>
  The checks of the loop as arithmetic on the bytes at their fixed offsets: at most 4096 bytes, type
  IPv4, IP version 4, 53 in the place of the UDP destination port, and the query bit and opcode 0.
\<close>

definition passes_checks :: "bytes \<Rightarrow> bool" where
  "passes_checks pkt \<longleftrightarrow>
     45 \<le> length pkt \<and> length pkt \<le> 4096 \<and> be16 12 pkt = 0x0800 \<and> unat (pkt ! 14) div 16 = 4 \<and>
     be16 36 pkt = 53 \<and> unat (pkt ! 44) div 8 = 0"

lemma qr_opcode_byte: "\<not> bit (b :: byte) 7 \<and> drop_bit 3 b AND 15 = 0 \<longleftrightarrow> unat b div 8 = 0"
proof -
  have "bit b 7 \<longleftrightarrow> bit (unat b) 7" by (simp add: bit_unsigned_iff)
  also have "\<dots> \<longleftrightarrow> odd (unat b div 128)" by (simp add: bit_iff_odd)
  finally have qr: "bit b 7 \<longleftrightarrow> odd (unat b div 128)" .
  have "drop_bit 3 b AND 15 = take_bit 4 (drop_bit 3 b)"
    by (simp add: take_bit_eq_mask mask_numeral)
  then have op: "unat (drop_bit 3 b AND 15) = unat b div 8 mod 16"
    by (simp only: unsigned_take_bit_eq unat_drop_bit_div) (simp add: take_bit_eq_mod)
  have "even (x div 128) \<and> x div 8 mod 16 = 0 \<longleftrightarrow> x div 8 = 0" if "x < 256" for x :: nat
  proof -
    define y where "y = x div 8"
    have "y div 16 < 2" and 128: "x div 128 = y div 16"
      using that by (simp_all add: y_def div_mult2_eq [symmetric])
    then have "even (y div 16) \<longleftrightarrow> y div 16 = 0" by (auto simp: less_2_cases_iff)
    moreover have "y div 16 = 0 \<and> y mod 16 = 0 \<longleftrightarrow> y = 0"
      using div_mult_mod_eq [of y 16] by auto
    ultimately show ?thesis by (simp only: 128 flip: y_def)
  qed
  then show ?thesis
    unfolding qr using op byte_lt [of b] by (simp add: word_unat_eq_iff)
qed

lemma pcap_accept_Inr:
  "pcap_accept pkt = Inr r \<Longrightarrow> r \<longleftrightarrow> passes_checks pkt"
  using qr_opcode_byte [of "load8 44 pkt"]
  by (auto simp: pcap_accept_def passes_checks_def load16_htons_iff drop_bit_4_byte dns_qr_def
      dns_opcode_def load8_def split: if_splits)

lemma pcap_accept_long: "45 \<le> length pkt \<Longrightarrow> pcap_accept pkt = Inr (passes_checks pkt)"
proof -
  assume "45 \<le> length pkt"
  then have "\<exists>r. pcap_accept pkt = Inr r" by (auto simp: pcap_accept_def)
  then show ?thesis using pcap_accept_Inr by blast
qed

lemma pcap_loop_Inr:
  "pcap_loop pkts pf = Inr pf' \<Longrightarrow>
   pf' = pf\<lparr>querycache := querycache pf @ filter passes_checks pkts,
            validLinesInQueryFile := validLinesInQueryFile pf + length (filter passes_checks pkts)\<rparr>"
proof (induction pkts arbitrary: pf)
  case (Cons pkt pkts)
  then obtain r where r: "pcap_accept pkt = Inr r" by (auto split: sum.splits)
  then have "r \<longleftrightarrow> passes_checks pkt" by (rule pcap_accept_Inr)
  with r Cons.prems Cons.IH [of pf] Cons.IH [of "pf\<lparr>querycache := querycache pf @ [pkt],
      validLinesInQueryFile := validLinesInQueryFile pf + 1\<rparr>"]
  show ?case by (cases r) auto
qed simp

text \<open>
  The reference: an Ethernet frame, of the size the program handles, with an IPv4 packet that carries a
  UDP datagram to port 53 with a DNS message that is a standard query. The UDP header is found by the
  header length of the IP packet.
\<close>

definition udp_offset :: "bytes \<Rightarrow> nat" where
  "udp_offset pkt = 14 + 4 * (unat (pkt ! 14) mod 16)"

definition ipv4_frame :: "bytes \<Rightarrow> bool" where
  "ipv4_frame pkt \<longleftrightarrow> 34 \<le> length pkt \<and> length pkt \<le> 4096 \<and> be16 12 pkt = 0x0800 \<and> unat (pkt ! 14) div 16 = 4"

definition dns_query_frame :: "bytes \<Rightarrow> bool" where
  "dns_query_frame pkt \<longleftrightarrow>
     ipv4_frame pkt \<and> pkt ! 23 = 17 \<and> udp_offset pkt + 11 \<le> length pkt \<and> be16 (udp_offset pkt + 2) pkt = 53 \<and>
     unat (pkt ! (udp_offset pkt + 10)) div 8 = 0"

text \<open>No options between the headers.\<close>

definition no_options :: "bytes \<Rightarrow> bool" where
  "no_options pkt \<longleftrightarrow> unat (pkt ! 14) mod 16 = 5"

lemma query_passes: "dns_query_frame pkt \<Longrightarrow> no_options pkt \<Longrightarrow> passes_checks pkt"
  by (simp add: dns_query_frame_def ipv4_frame_def no_options_def udp_offset_def passes_checks_def)

lemma passes_query: "passes_checks pkt \<Longrightarrow> no_options pkt \<Longrightarrow> pkt ! 23 = 17 \<Longrightarrow> dns_query_frame pkt"
  by (simp add: dns_query_frame_def ipv4_frame_def no_options_def udp_offset_def passes_checks_def)

lemma passes_ipv4: "passes_checks pkt \<Longrightarrow> ipv4_frame pkt"
  by (simp add: passes_checks_def ipv4_frame_def)

lemma query_ipv4: "dns_query_frame pkt \<Longrightarrow> ipv4_frame pkt"
  by (simp add: dns_query_frame_def)

text \<open>
  C27. A capture file that loads successfully yields, in order, exactly the frames that pass the checks
  of the loop, at least one. Among them is every UDP DNS query of the capture that has no IP options;
  and when all IPv4 frames of the capture carry UDP and have no options, the frames that are loaded
  are exactly the UDP DNS queries. (The checks do not look at the protocol: a TCP segment to port 53
  can pass them.)
\<close>

theorem loadAndCompilePcapFile_spec:
  assumes "loadAndCompilePcapFile io filename pf = Inr pf'" and "pcap_frames io filename = Some pkts"
  shows "pf' = pf\<lparr>querycache := querycache pf @ filter passes_checks pkts,
      validLinesInQueryFile := length (filter passes_checks pkts), payloadIsPcap := True\<rparr> \<and>
    filter passes_checks pkts \<noteq> [] \<and>
    (\<forall>pkt\<in>set pkts. dns_query_frame pkt \<and> no_options pkt \<longrightarrow> pkt \<in> set (querycache pf')) \<and>
    ((\<forall>pkt\<in>set pkts. ipv4_frame pkt \<longrightarrow> pkt ! 23 = 17 \<and> no_options pkt) \<longrightarrow>
      querycache pf' = querycache pf @ filter dns_query_frame pkts)"
proof -
  have l: "pf' = pf\<lparr>querycache := querycache pf @ filter passes_checks pkts,
      validLinesInQueryFile := length (filter passes_checks pkts), payloadIsPcap := True\<rparr>"
      "filter passes_checks pkts \<noteq> []"
    using assms by (auto simp: loadAndCompilePcapFile_def bindE_Inr_iff split: if_splits dest!: pcap_loop_Inr)
  moreover have "filter passes_checks pkts = filter dns_query_frame pkts"
    if "\<forall>pkt\<in>set pkts. ipv4_frame pkt \<longrightarrow> pkt ! 23 = 17 \<and> no_options pkt"
  proof (rule filter_cong [OF refl])
    fix pkt
    assume "pkt \<in> set pkts"
    then show "passes_checks pkt \<longleftrightarrow> dns_query_frame pkt"
      using that query_passes passes_query passes_ipv4 query_ipv4 by blast
  qed
  ultimately show ?thesis using query_passes by auto
qed

definition demo_frame :: bytes where
  "demo_frame = (replicate 60 0)[12 := 8, 14 := 0x45, 23 := 17, 37 := 53]"

theorem loadAndCompilePcapFile_spec_witness:
  "\<exists>pf'. loadAndCompilePcapFile (demo_io\<lparr>pcap_frames := (\<lambda>_. Some [replicate 60 0, demo_frame])\<rparr>) ''x'' PayloadFile_new = Inr pf' \<and>
     querycache pf' = filter dns_query_frame [replicate 60 0, demo_frame] \<and> querycache pf' = [demo_frame]"
proof -
  let ?io = "demo_io\<lparr>pcap_frames := (\<lambda>_. Some [replicate 60 0, demo_frame])\<rparr>"
  have f: "passes_checks demo_frame" "\<not> passes_checks (replicate 60 0)"
    by (simp_all add: passes_checks_def demo_frame_def be16_def)
  have "pcap_accept demo_frame = Inr True" "pcap_accept (replicate 60 0) = Inr False"
    using f by (simp_all add: pcap_accept_long demo_frame_def)
  then obtain pf' where l: "loadAndCompilePcapFile ?io ''x'' PayloadFile_new = Inr pf'"
    by (simp add: loadAndCompilePcapFile_def)
  have p: "pcap_frames ?io ''x'' = Some [replicate 60 0, demo_frame]" by simp
  have "\<not> ipv4_frame (replicate 60 0)" "demo_frame ! 23 = 17" "no_options demo_frame"
    by (simp_all add: ipv4_frame_def no_options_def demo_frame_def be16_def)
  then have "\<forall>pkt\<in>set [replicate 60 0, demo_frame]. ipv4_frame pkt \<longrightarrow> pkt ! 23 = 17 \<and> no_options pkt" by simp
  then have "querycache pf' = filter dns_query_frame [replicate 60 0, demo_frame]"
    using loadAndCompilePcapFile_spec [OF l p, THEN conjunct2, THEN conjunct2, THEN conjunct2]
    by (simp add: PayloadFile_new_def del: filter.simps)
  moreover have "querycache pf' = [demo_frame]"
    using loadAndCompilePcapFile_spec [OF l p, THEN conjunct1] f by (simp add: PayloadFile_new_def)
  ultimately show ?thesis using l by blast
qed

text \<open>
  The loop reports the number of \<open>valid UDP DNS queries\<close>, but a TCP segment to port 53 whose bytes look
  like a query header passes its checks and becomes part of the payload.
\<close>

theorem pcap_accepts_tcp:
  "pcap_accept (demo_frame[23 := 6]) = Inr True \<and> \<not> dns_query_frame (demo_frame[23 := 6])"
proof
  have "passes_checks (demo_frame[23 := 6])" by (simp add: passes_checks_def demo_frame_def be16_def)
  then show "pcap_accept (demo_frame[23 := 6]) = Inr True" by (simp add: pcap_accept_long demo_frame_def)
  show "\<not> dns_query_frame (demo_frame[23 := 6])" by (simp add: dns_query_frame_def demo_frame_def)
qed

text \<open>
  The length of a frame is never compared with the offsets that are read: the loader reads past
  the end of a frame exactly when an earlier test has not excluded it and the next field lies
  outside, so one short IPv4 frame in the capture file makes it read foreign memory.
\<close>

theorem pcap_accept_short_frame:
  "pcap_accept pkt = Inl UndefinedBehaviour \<longleftrightarrow>
     length pkt < 14 \<or>
     (be16 12 pkt = 0x0800 \<and>
        (length pkt < 15 \<or>
         (unat (pkt ! 14) div 16 = 4 \<and>
            (length pkt < 38 \<or> (be16 36 pkt = 53 \<and> length pkt < 45)))))"
  by (auto simp: pcap_accept_def load16_htons_iff drop_bit_4_byte load8_def)

subsection \<open>Drawing queries in turns\<close>

fun draws :: "('s \<Rightarrow> ('q \<times> 's) result) \<Rightarrow> nat \<Rightarrow> 's \<Rightarrow> ('q list \<times> 's) result" where
  "draws nxt 0 s = Inr ([], s)"
| "draws nxt (Suc k) s =
     bindE (nxt s) (\<lambda>(q, s'). bindE (draws nxt k s') (\<lambda>(qs, s''). Inr (q # qs, s'')))"

lemma map_cycle_concat:
  "map (\<lambda>i. xs ! (i mod length xs)) [0..<m * length xs] = concat (replicate m xs)"
proof (induction m)
  case (Suc m)
  let ?n = "length xs"
  have "[0..<Suc m * ?n] = [0..<m * ?n] @ map (\<lambda>i. i + m * ?n) [0..<?n]"
    by (metis add.commute map_add_upt mult_Suc upt_add_eq_append le0 add_0)
  moreover have "map (\<lambda>i. xs ! ((i + m * ?n) mod ?n)) [0..<?n] = xs"
    by (rule nth_equalityI) auto
  ultimately have "map (\<lambda>i. xs ! (i mod ?n)) [0..<Suc m * ?n] = concat (replicate m xs) @ xs"
    by (simp add: Suc.IH comp_def)
  also have "\<dots> = concat (replicate (Suc m) xs)"
    by (metis append.right_neutral append_Nil2 concat.simps(1,2) concat_append replicate_append_same replicate_Suc)
  finally show ?case .
qed simp

lemma mset_concat_replicate: "mset (concat (replicate m xs)) = repeat_mset m (mset xs)"
  by (induction m) auto

text \<open>
  What the sender threads rely on: as long as the source is \<open>ok\<close>, a draw succeeds and returns the head
  of a fixed cycle, which moves on by one.
\<close>

locale cyclic_source =
  fixes nxt :: "'s \<Rightarrow> ('q \<times> 's) result" and cyc :: "'s \<Rightarrow> 'q list" and ok :: "'s \<Rightarrow> bool"
  assumes cyc_nonempty: "ok s \<Longrightarrow> cyc s \<noteq> []"
    and nxt_step: "ok s \<Longrightarrow> \<exists>s'. nxt s = Inr (hd (cyc s), s') \<and> ok s' \<and> cyc s' = rotate1 (cyc s)"
begin

lemma draws_cycle:
  "ok s \<Longrightarrow> \<exists>s'. draws nxt k s = Inr (map (\<lambda>i. cyc s ! (i mod length (cyc s))) [0..<k], s') \<and>
     ok s' \<and> cyc s' = rotate k (cyc s)"
proof (induction k arbitrary: s)
  case (Suc k)
  obtain s1 where s1: "nxt s = Inr (hd (cyc s), s1)" "ok s1" "cyc s1 = rotate1 (cyc s)"
    using nxt_step [OF Suc.prems] by blast
  obtain s2 where s2: "draws nxt k s1 = Inr (map (\<lambda>i. cyc s1 ! (i mod length (cyc s1))) [0..<k], s2)"
      "ok s2" "cyc s2 = rotate k (cyc s1)"
    using Suc.IH [OF s1(2)] by blast
  have ne: "cyc s \<noteq> []" using Suc.prems by (rule cyc_nonempty)
  have "cyc s1 ! (i mod length (cyc s1)) = cyc s ! (Suc i mod length (cyc s))" for i
    using ne nth_rotate1 [of "i mod length (cyc s)" "cyc s"] by (simp add: s1 mod_Suc_eq)
  then have "hd (cyc s) # map (\<lambda>i. cyc s1 ! (i mod length (cyc s1))) [0..<k] =
      map (\<lambda>i. cyc s ! (i mod length (cyc s))) [0..<Suc k]"
    using ne by (simp add: upt_conv_Cons hd_conv_nth map_Suc_upt [symmetric] del: upt_Suc)
  then show ?case
    using s1 s2 by (simp add: rotate1_rotate_swap del: upt_Suc)
qed simp

lemma draws_fair:
  assumes "ok s"
  shows "\<exists>qs s'. draws nxt (m * length (cyc s)) s = Inr (qs, s') \<and> mset qs = repeat_mset m (mset (cyc s)) \<and>
    cyc s' = cyc s"
proof -
  obtain s' where "draws nxt (m * length (cyc s)) s =
      Inr (map (\<lambda>i. cyc s ! (i mod length (cyc s))) [0..<m * length (cyc s)], s')"
    "cyc s' = rotate (m * length (cyc s)) (cyc s)"
    using draws_cycle [OF assms] by blast
  moreover have "rotate (m * length (cyc s)) (cyc s) = cyc s"
    by (metis mod_mult_self2_is_0 rotate_conv_mod rotate0 id_apply)
  ultimately show ?thesis by (simp add: map_cycle_concat mset_concat_replicate)
qed

end

text \<open>The payload of the program is such a source: the cycle starts at the iterator.\<close>

definition payload_cycle :: "payload_file \<Rightarrow> bytes list" where
  "payload_cycle pf = rotate (it_pos pf) (querycache pf)"

definition payload_ready :: "payload_file \<Rightarrow> bool" where
  "payload_ready pf \<longleftrightarrow> it_pos pf < length (querycache pf)"

lemma getQuery_step:
  assumes "payload_ready pf"
  shows "\<exists>pf'. getQuery pf = Inr (hd (payload_cycle pf), pf') \<and> payload_ready pf' \<and>
    payload_cycle pf' = rotate1 (payload_cycle pf)"
proof -
  let ?xs = "querycache pf" and ?i = "it_pos pf"
  let ?j = "if ?i + 1 = length ?xs then 0 else ?i + 1"
  have i: "?i < length ?xs" using assms by (simp add: payload_ready_def)
  then have hd: "hd (payload_cycle pf) = ?xs ! ?i"
    by (auto simp: payload_cycle_def rotate_drop_take hd_append hd_drop_conv_nth)
  have "getQuery pf = Inr (hd (payload_cycle pf), pf\<lparr>it_pos := ?j\<rparr>)"
    using i by (simp add: getQuery_def Let_def hd)
  moreover have "payload_cycle (pf\<lparr>it_pos := ?j\<rparr>) = rotate1 (payload_cycle pf)"
    by (auto simp: payload_cycle_def simp flip: rotate_Suc)
  moreover have "payload_ready (pf\<lparr>it_pos := ?j\<rparr>)"
    using i by (auto simp: payload_ready_def)
  ultimately show ?thesis by blast
qed

lemma getQuery_frame:
  assumes "getQuery pf = Inr (q, pf')"
  shows "querycache pf' = querycache pf" and "payloadIsPcap pf' = payloadIsPcap pf" and "q \<in> set (querycache pf)"
  using assms by (auto simp: getQuery_def Let_def split: if_splits)

interpretation pl: cyclic_source getQuery payload_cycle payload_ready
  by unfold_locales (use getQuery_step in \<open>auto simp: payload_ready_def payload_cycle_def\<close>)

subsection \<open>A loaded payload\<close>

text \<open>
  What the sender may assume of the list it draws from: the captured frames hold at least a DNS
  header's first three bytes behind the 42 bytes of headers, the compiled messages are DNS messages.
\<close>

definition payload_wf :: "payload_file \<Rightarrow> bool" where
  "payload_wf pf \<longleftrightarrow>
     (\<forall>q\<in>set (querycache pf).
        if payloadIsPcap pf then 45 \<le> length q \<and> length q \<le> 4096
        else 12 \<le> length q \<and> length q \<le> 271)"

lemma line_message_bounds:
  "mkquery_ok ql \<Longrightarrow> line_message io ql line = Some msg \<Longrightarrow> 12 \<le> length msg \<and> length msg \<le> 271"
  using MakeQuery_message(3) [of ql "replicate 4096 0"]
  by (auto simp: line_message_def Let_def split: if_splits)

lemma openQueryFile_cases:
  assumes "mkquery_ok ql" and "openQueryFile io ql filename PayloadFile_new = Inr pf"
  obtains (plain) content where "fs_open io filename = Some content"
      and "pf = \<lparr>validLinesInQueryFile = length (List.map_filter (line_message io ql) (gets_lines io content)),
        querycache = List.map_filter (line_message io ql) (gets_lines io content), it_pos = 0, payloadIsPcap = False\<rparr>"
      and "List.map_filter (line_message io ql) (gets_lines io content) \<noteq> []"
    | (capture) pkts where "pcap_frames io filename = Some pkts"
      and "pf = \<lparr>validLinesInQueryFile = length (filter passes_checks pkts),
        querycache = filter passes_checks pkts, it_pos = 0, payloadIsPcap = True\<rparr>"
      and "filter passes_checks pkts \<noteq> []"
  using assms(2)
  by (auto simp: openQueryFile_def PayloadFile_new_def bindE_Inr_iff loadAndCompile_eq [OF assms(1)]
      loadAndCompilePcapFile_def Let_def split: if_splits option.splits dest!: pcap_loop_Inr)

lemma openQueryFile_ready:
  assumes "mkquery_ok ql" and "openQueryFile io ql filename PayloadFile_new = Inr pf"
  shows "payload_ready pf" and "payload_wf pf" and "it_pos pf = 0"
    and "validLinesInQueryFile pf = length (querycache pf)"
proof -
  from assms have "payload_ready pf \<and> payload_wf pf \<and> it_pos pf = 0 \<and>
      validLinesInQueryFile pf = length (querycache pf)"
  proof (cases rule: openQueryFile_cases)
    case (plain content)
    then show ?thesis
      using line_message_bounds [OF assms(1)]
      by (auto simp: payload_ready_def payload_wf_def map_filter_def)
  next
    case (capture pkts)
    then show ?thesis by (auto simp: payload_ready_def payload_wf_def passes_checks_def)
  qed
  then show "payload_ready pf" and "payload_wf pf" and "it_pos pf = 0"
    and "validLinesInQueryFile pf = length (querycache pf)" by simp_all
qed

text \<open>
  C9. A payload file that was opened successfully is drawn from round robin: draw \<open>i\<close> (counted over
  all threads, from zero) returns the query number \<open>i\<close> modulo the number of queries, no draw fails,
  and over \<open>m\<close> rounds every query is returned exactly \<open>m\<close> times.
\<close>

theorem getQuery_round_robin:
  assumes "mkquery_ok ql" and "openQueryFile io ql filename PayloadFile_new = Inr pf"
  shows "(\<exists>pf'. draws getQuery k pf =
      Inr (map (\<lambda>i. querycache pf ! (i mod length (querycache pf))) [0..<k], pf')) \<and>
    (\<exists>qs pf'. draws getQuery (m * length (querycache pf)) pf = Inr (qs, pf') \<and>
      mset qs = repeat_mset m (mset (querycache pf)))"
proof -
  have r: "payload_ready pf" and "payload_cycle pf = querycache pf"
    using openQueryFile_ready [OF assms] by (simp_all add: payload_cycle_def)
  then show ?thesis
    using pl.draws_cycle [OF r, of k] pl.draws_fair [OF r, of m] by auto
qed

theorem getQuery_round_robin_witness:
  "\<exists>pf pf'. openQueryFile demo_io demo_lib ''queries.txt'' PayloadFile_new = Inr pf \<and>
     draws getQuery 3 pf = Inr ([replicate 12 0 @ [15], replicate 12 0 @ [1], replicate 12 0 @ [15]], pf')"
proof -
  let ?m = "[replicate 12 0 @ [15], replicate 12 0 @ [1]] :: bytes list"
  let ?pf = "\<lparr>validLinesInQueryFile = 2, querycache = ?m, it_pos = 0, payloadIsPcap = False\<rparr>"
  have "fs_open demo_io ''queries.txt'' = Some [1]" "\<not> detectPcap demo_io [1]"
    by (simp_all add: demo_io_def detectPcap_def)
  then have o: "openQueryFile demo_io demo_lib ''queries.txt'' PayloadFile_new = Inr ?pf"
    by (simp add: openQueryFile_def loadAndCompile_eq [OF demo_lib_ok] demo_messages PayloadFile_new_def)
  show ?thesis
    using getQuery_round_robin [OF demo_lib_ok o, of 3] o by (auto simp: upt_rec numeral_eq_Suc)
qed

text \<open>The first four bytes of a capture file, for both formats in both byte orders.\<close>

definition pcap_magics :: "bytes set" where
  "pcap_magics = {[0xa1, 0xb2, 0xc3, 0xd4], [0xd4, 0xc3, 0xb2, 0xa1], [0xa1, 0xb2, 0x3c, 0x4d], [0x4d, 0x3c, 0xb2, 0xa1]}"

lemma load32_bytes: "load32 0 (a # b # c # d # r) = le32 (le16 a b) (le16 c d)"
  by (simp add: load32_def load16_def)

lemma le16_eq_iff: "le16 a b = w \<longleftrightarrow> a = lo8 w \<and> b = hi8 w"
  by (metis hi8_le16 le16_bytes lo8_le16)

lemma le32_eq_iff: "le32 a b = w \<longleftrightarrow> a = lo16 w \<and> b = hi16 w"
  by (metis hi16_le32 le32_halves lo16_le32)

lemma htonl_eq_iff: "htonl a = w \<longleftrightarrow> a = htonl w"
  by (metis htonl_htonl)

text \<open>
  The detection of capture files does not depend on the byte order of \<open>Peek32\<close>: reading the magic
  number in either order, it accepts exactly the files of at least eight bytes that start with one of
  the four magic numbers of the two capture formats.
\<close>

theorem detectPcap_endian:
  assumes "(\<forall>b. Peek32 io b = load32 0 b) \<or> (\<forall>b. Peek32 io b = htonl (load32 0 b))"
  shows "detectPcap io content \<longleftrightarrow> 8 \<le> length content \<and> take 4 content \<in> pcap_magics"
proof (cases "8 \<le> length content")
  case True
  then obtain a b c d e f g h r where c: "content = a # b # c # d # e # f # g # h # r"
    by (auto simp: numeral_eq_Suc Suc_le_length_iff)
  define w where "w = load32 0 (take 8 content)"
  have w: "w = le32 (le16 a b) (le16 c d)" by (simp add: w_def c load32_bytes)
  have n: "(0xb2a1 :: byte) = 0xa1" "(0xd4c3 :: byte) = 0xc3" "(0xc3d4 :: byte) = 0xd4"
    "(0xa1b2 :: byte) = 0xb2" "(0x4d3c :: byte) = 0x3c" "(0x3c4d :: byte) = 0x4d"
    by simp_all
  have m: "w = 0xd4c3b2a1 \<longleftrightarrow> [a, b, c, d] = [0xa1, 0xb2, 0xc3, 0xd4]"
    "w = 0xa1b2c3d4 \<longleftrightarrow> [a, b, c, d] = [0xd4, 0xc3, 0xb2, 0xa1]"
    "w = 0x4d3cb2a1 \<longleftrightarrow> [a, b, c, d] = [0xa1, 0xb2, 0x3c, 0x4d]"
    "w = 0xa1b23c4d \<longleftrightarrow> [a, b, c, d] = [0x4d, 0x3c, 0xb2, 0xa1]"
    by (simp_all add: w le32_eq_iff le16_eq_iff lo8_def hi8_def lo16_def hi16_def n)
  have h: "htonl 0xa1b2c3d4 = 0xd4c3b2a1" "htonl 0xa1b23c4d = 0x4d3cb2a1"
    "htonl 0xd4c3b2a1 = 0xa1b2c3d4" "htonl 0x4d3cb2a1 = 0xa1b23c4d"
    by (simp_all add: htonl_def le32_def htons_bytes le16_def hi8_def lo8_def hi16_def lo16_def)
  have "take 4 content \<in> pcap_magics \<longleftrightarrow>
      w = 0xa1b2c3d4 \<or> w = 0xa1b23c4d \<or> w = 0xd4c3b2a1 \<or> w = 0x4d3cb2a1"
    unfolding m by (simp add: pcap_magics_def c) blast
  moreover have "Peek32 io (take 8 content) = w \<or> Peek32 io (take 8 content) = htonl w"
    using assms by (auto simp: w_def)
  ultimately show ?thesis
    using True unfolding detectPcap_def Let_def
    by (elim disjE) (simp_all add: htonl_eq_iff h disj_ac)
next
  case False
  then show ?thesis by (simp add: detectPcap_def)
qed

theorem detectPcap_endian_witness: "detectPcap demo_io [0xd4, 0xc3, 0xb2, 0xa1, 2, 0, 4, 0]"
  using detectPcap_endian [of demo_io "[0xd4, 0xc3, 0xb2, 0xa1, 2, 0, 4, 0]"]
  by (simp add: demo_io_def pcap_magics_def)



end
