(* ===== verification/Raw_Socket_Sender.thy ===== *)
theory Raw_Socket_Sender
  imports Packet
begin

text \<open>
  \<open>src/src/raw_socket_sender.cpp\<close>: the raw socket a sender thread writes its datagrams to. The
  socket's state is the \<open>sockaddr_in\<close> it sends to; \<open>socket\<close>, \<open>setsockopt\<close>, \<open>sendto\<close> and
  \<open>select\<close> of the kernel are parameters.
\<close>

record raw_socket_sender =
  sin_addr :: u32
  sin_port :: u16

text \<open>\<open>sd\<close> and \<open>opt\<close> are the return values of \<open>socket\<close> and \<open>setsockopt\<close>.\<close>

definition RawSocketSender_new :: "int \<Rightarrow> int \<Rightarrow> raw_socket_sender result" where
  "RawSocketSender_new sd opt =
     (if sd = -1 then Inl Ppl7Exception
      else if opt < 0 then Inl Ppl7Exception
      else Inr \<lparr>sin_addr = -1, sin_port = 0\<rparr>)"

definition sock_setDestination :: "ip_address \<Rightarrow> int \<Rightarrow> raw_socket_sender \<Rightarrow> raw_socket_sender result" where
  "sock_setDestination ip_addr port s =
     (if family ip_addr \<noteq> IPv4 then Inl UnsupportedIPFamily
      else Inr (s\<lparr>sin_addr := addr ip_addr, sin_port := htons (word_of_int port)\<rparr>))"

text \<open>
  \<open>send\<close> hands the datagram to \<open>sendto\<close> and returns what \<open>sendto\<close> returned; \<open>pkt.ptr()\<close> may update
  the packet.
\<close>

definition sock_send ::
  "(bytes \<Rightarrow> u32 \<Rightarrow> u16 \<Rightarrow> int) \<Rightarrow> packet \<Rightarrow> raw_socket_sender \<Rightarrow> (int \<times> packet) result" where
  "sock_send sendto pkt s =
     (if sin_addr s = -1 then Inl UnknownDestination
      else
        let (ptr, pkt') = pkt_ptr pkt
        in Inr (sendto (take (pkt_size pkt') ptr) (sin_addr s) (sin_port s), pkt'))"

definition getSockAddr :: "raw_socket_sender \<Rightarrow> u32 \<times> u16" where
  "getSockAddr s = (sin_addr s, sin_port s)"

text \<open>\<open>ret\<close> and \<open>isset\<close>: the return value of \<open>select\<close> and the bit of the socket in its set.\<close>

definition sock_socketReady :: "int \<Rightarrow> bool \<Rightarrow> bool" where
  "sock_socketReady ret isset = (if ret < 0 then False else isset)"

text \<open>
  A socket refuses to send before it has a destination, and a packet that is sent to a
  destination is a valid datagram when it reaches \<open>sendto\<close>, with the address that was set. The value
  that marks a missing destination is the broadcast address, which can therefore never be a target.
\<close>

theorem sock_send_cases:
  assumes "packet_inv p" and "sock_setDestination ip port s = Inr s'"
  shows "sock_send sendto p \<lparr>sin_addr = -1, sin_port = 0\<rparr> = Inl UnknownDestination \<and>
    (if addr ip = 0xffffffff then sock_send sendto p s' = Inl UnknownDestination
     else \<exists>d p'. sock_send sendto p s' = Inr (sendto d (addr ip) (htons (word_of_int port)), p') \<and>
       valid_datagram d \<and> d = take (pkt_size p) (fst (pkt_ptr p)) \<and> packet_inv p')"
proof -
  have s': "s' = s\<lparr>sin_addr := addr ip, sin_port := htons (word_of_int port)\<rparr>"
    using assms(2) by (simp add: sock_setDestination_def split: if_splits)
  have "pkt_size (snd (pkt_ptr p)) = pkt_size p"
    using pkt_ptr_inv(3) [OF assms(1)] by (simp add: pkt_size_def)
  then show ?thesis
    using pkt_ptr_valid [OF assms(1)] pkt_ptr_inv(1) [OF assms(1)]
    by (auto simp: sock_send_def s' split: prod.splits)
qed

theorem sock_send_cases_witness:
  "\<exists>d p'. sock_send (\<lambda>d _ _. int (length d)) Packet_new
     \<lparr>sin_addr = 0x0100a8c0, sin_port = htons 53\<rparr> = Inr (int (length d), p') \<and> valid_datagram d"
proof -
  let ?ip = "\<lparr>family = IPv4, addr = 0x0100a8c0\<rparr>" and ?s = "\<lparr>sin_addr = -1, sin_port = 0\<rparr>"
  have "sock_setDestination ?ip 53 ?s = Inr \<lparr>sin_addr = 0x0100a8c0, sin_port = htons 53\<rparr>"
    by (simp add: sock_setDestination_def)
  from sock_send_cases [OF Packet_new_inv this, of "\<lambda>d _ _. int (length d)"]
  have "\<exists>d p'. sock_send (\<lambda>d _ _. int (length d)) Packet_new
      \<lparr>sin_addr = 0x0100a8c0, sin_port = htons 53\<rparr> = Inr (int (length d), p') \<and> valid_datagram d"
    by (simp del: length_take) blast
  then show ?thesis .
qed

end
