(* ===== verification/Sender_Thread.thy ===== *)
theory Sender_Thread
  imports Payload_File Raw_Socket_Sender
begin

text \<open>
  \<open>src/src/dns_sender_thread.cpp\<close>: the class \<open>DNSSenderThread\<close>. A thread draws queries from the
  shared payload, wraps them in a packet, and sends them at a given rate for a given time.
\<close>

subsection \<open>State\<close>

text \<open>
  \<open>th_payload\<close> tells whether the pointer \<open>payload\<close> is set; the payload object itself is shared
  between the threads and is passed to the operations that use it. \<open>Timeslice\<close> and \<open>duration\<close> are
  the values of \<open>double\<close>s.
\<close>

record sender_thread =
  Socket :: raw_socket_sender
  pkt :: packet
  sourceip :: ip_address
  sourcenet :: ip_network
  th_payload :: bool
  th_buffer :: bytes
  queryrate :: u64
  counter_packets_send :: u64
  errors :: u64
  counter_0bytes :: u64
  counter_bytes_send :: u64
  counter_errorcodes :: "u64 list"
  spoofing_net_start :: u32
  spoofing_net_size :: u32
  runtime :: int
  timeout :: int
  DnssecRate :: int
  dnsseccounter :: int
  Timeslice :: rat
  duration :: rat
  spoofingEnabled :: bool
  verbose :: bool
  th_payloadIsPcap :: bool
  spoofingFromPcap :: bool

text \<open>
  The constructor: \<open>sock\<close> is the freshly constructed socket and \<open>raw\<close> the uninitialised memory that
  \<open>malloc(4096)\<close> returned; \<open>noip\<close> and \<open>nonet\<close> are the default-constructed addresses.
\<close>

definition DNSSenderThread_new ::
  "raw_socket_sender \<Rightarrow> ip_address \<Rightarrow> ip_network \<Rightarrow> bytes \<Rightarrow> sender_thread" where
  "DNSSenderThread_new sock noip nonet raw =
     \<lparr>Socket = sock, pkt = Packet_new, sourceip = noip, sourcenet = nonet, th_payload = False,
      th_buffer = raw, queryrate = 0, counter_packets_send = 0, errors = 0, counter_0bytes = 0,
      counter_bytes_send = 0, counter_errorcodes = replicate 255 0,
      spoofing_net_start = 0, spoofing_net_size = 0, runtime = 10, timeout = 5, DnssecRate = 0,
      dnsseccounter = 0, Timeslice = 0, duration = 0, spoofingEnabled = False, verbose = False,
      th_payloadIsPcap = False, spoofingFromPcap = False\<rparr>"

subsection \<open>Configuration\<close>

definition th_setDestination :: "ip_address \<Rightarrow> int \<Rightarrow> sender_thread \<Rightarrow> sender_thread result" where
  "th_setDestination ip port th =
     bindE (sock_setDestination ip port (Socket th))
       (\<lambda>s. Inr (th\<lparr>Socket := s, pkt := setDestination ip port (pkt th)\<rparr>))"

definition th_setPayload :: "payload_file \<Rightarrow> sender_thread \<Rightarrow> sender_thread" where
  "th_setPayload pf th = th\<lparr>th_payload := True, th_payloadIsPcap := isPcap pf\<rparr>"

definition setRuntime :: "int \<Rightarrow> sender_thread \<Rightarrow> sender_thread" where
  "setRuntime secs th = th\<lparr>runtime := secs\<rparr>"

definition setTimeout :: "int \<Rightarrow> sender_thread \<Rightarrow> sender_thread" where
  "setTimeout secs th = th\<lparr>timeout := secs\<rparr>"

definition setDNSSECRate :: "int \<Rightarrow> sender_thread \<Rightarrow> sender_thread" where
  "setDNSSECRate rate th = th\<lparr>DnssecRate := rate\<rparr>"

definition setQueryRate :: "u64 \<Rightarrow> sender_thread \<Rightarrow> sender_thread" where
  "setQueryRate qps th = th\<lparr>queryrate := qps\<rparr>"

definition setTimeslice :: "rat \<Rightarrow> sender_thread \<Rightarrow> sender_thread result" where
  "setTimeslice ms th =
     (if ms = 0 \<or> ms > 1000 then Inl InvalidArgumentsException
      else Inr (th\<lparr>Timeslice := dbl (ms / 1000)\<rparr>))"

definition setSourceIP :: "ip_address \<Rightarrow> sender_thread \<Rightarrow> sender_thread" where
  "setSourceIP ip th = th\<lparr>sourceip := ip, spoofingEnabled := False\<rparr>"

text \<open>\<open>spoofing_net_size\<close> is an \<open>unsigned int\<close>: the conversion of a larger number is undefined.\<close>

definition setSourceNet :: "ip_network \<Rightarrow> sender_thread \<Rightarrow> sender_thread result" where
  "setSourceNet net th =
     (if powl2 (prefixlen net) < 2 ^ 32
      then Inr (th\<lparr>sourcenet := net, spoofingEnabled := True,
             spoofing_net_start := htonl (addr (net_first net)),
             spoofing_net_size := word_of_nat (powl2 (prefixlen net))\<rparr>)
      else Inl UndefinedBehaviour)"

definition setSourcePcap :: "sender_thread \<Rightarrow> sender_thread" where
  "setSourcePcap th = th\<lparr>spoofingEnabled := True, spoofingFromPcap := True\<rparr>"

definition setVerbose :: "bool \<Rightarrow> sender_thread \<Rightarrow> sender_thread" where
  "setVerbose v th = th\<lparr>verbose := v\<rparr>"

subsection \<open>Sending one packet\<close>

text \<open>
  What one attempt observes of its environment: the random numbers for address and port, the clock,
  what \<open>sendto\<close> returns for a datagram, and the \<open>errno\<close> it leaves.
\<close>

record send_env =
  rand_ip :: "u32 \<Rightarrow> u32 \<Rightarrow> u32"
  rand_port :: "u32 \<Rightarrow> u32 \<Rightarrow> u32"
  env_clock :: "timeval option"
  env_sendto :: "bytes \<Rightarrow> u32 \<Rightarrow> u16 \<Rightarrow> int"
  env_errno :: nat

text \<open>
  The query is copied into the thread's buffer: behind the headers of a captured frame, where
  \<open>query_size -= PCAP_HEADER_SIZE\<close> is \<open>size_t\<close> arithmetic, or whole, with DNSSEC added to the given
  percentage. A copy outside of its objects is undefined behaviour.
\<close>

definition prepare_query :: "bytes \<Rightarrow> sender_thread \<Rightarrow> (u64 \<times> sender_thread) result" where
  "prepare_query bap th =
     (if th_payloadIsPcap th then
        let query_size = word_of_nat (length bap) - word_of_nat (14 + 20 + 8)
        in if length bap < 42 + unat query_size \<or> length (th_buffer th) < unat query_size
           then Inl UndefinedBehaviour
           else Inr (query_size, th\<lparr>th_buffer := blit 0 (bytes_at 42 (unat query_size) bap) (th_buffer th)\<rparr>)
      else if length (th_buffer th) < length bap then Inl UndefinedBehaviour
      else
        let th = th\<lparr>th_buffer := blit 0 bap (th_buffer th), dnsseccounter := dnsseccounter th + DnssecRate th\<rparr>
        in if dnsseccounter th \<ge> 100 then
             bindE (AddDnssecToQuery (th_buffer th) 4096 (length bap) 4096)
               (\<lambda>(n, b). Inr (word_of_nat n, th\<lparr>th_buffer := b, dnsseccounter := dnsseccounter th - 100\<rparr>))
           else Inr (word_of_nat (length bap), th))"

definition choose_source :: "send_env \<Rightarrow> bytes \<Rightarrow> sender_thread \<Rightarrow> packet \<Rightarrow> packet result" where
  "choose_source env bap th p =
     (if spoofingEnabled th then
        if spoofingFromPcap th then useSourceFromPcap bap (length bap) p
        else
          Inr (randomSourcePort (rand_port env)
                (randomSourceIP (rand_ip env) (spoofing_net_start th) (spoofing_net_size th) p))
      else Inr (randomSourcePort (rand_port env) p))"

definition count_send :: "int \<Rightarrow> nat \<Rightarrow> nat \<Rightarrow> sender_thread \<Rightarrow> sender_thread" where
  "count_send n errno sz th =
     (if n > 0 \<and> nat n = sz then
        th\<lparr>counter_packets_send := counter_packets_send th + 1,
           counter_bytes_send := counter_bytes_send th + word_of_nat sz\<rparr>
      else if n < 0 then
        (let th = (if errno < 255
                   then th\<lparr>counter_errorcodes := (counter_errorcodes th)[errno := counter_errorcodes th ! errno + 1]\<rparr>
                   else th)
         in th\<lparr>errors := errors th + 1\<rparr>)
      else th\<lparr>counter_0bytes := counter_0bytes th + 1\<rparr>)"

text \<open>
  The body of the loop of \<open>sendPacket\<close>: the outcome, and the thread and payload as the attempt leaves
  them, also when it throws. After the draw of a query the attempt uses only members of the thread.
\<close>

definition send_query :: "send_env \<Rightarrow> bytes \<Rightarrow> sender_thread \<Rightarrow> unit result \<times> sender_thread" where
  "send_query env bap th =
     (case prepare_query bap th of
        Inl e \<Rightarrow> (Inl e, th)
      | Inr (query_size, th) \<Rightarrow>
     (case setPayload (th_buffer th) query_size (pkt th) of
        Inl e \<Rightarrow> (Inl e, th)
      | Inr p \<Rightarrow>
     (case choose_source env bap th p of
        Inl e \<Rightarrow> (Inl e, th\<lparr>pkt := p\<rparr>)
      | Inr p \<Rightarrow>
     (let p = setDnsId (getQueryTimestamp (env_clock env)) p
      in case sock_send (env_sendto env) p (Socket th) of
           Inl e \<Rightarrow> (Inl e, th\<lparr>pkt := p\<rparr>)
         | Inr (n, p) \<Rightarrow> (Inr (), count_send n (env_errno env) (pkt_size p) (th\<lparr>pkt := p\<rparr>))))))"

definition try_send ::
  "send_env \<Rightarrow> sender_thread \<Rightarrow> payload_file \<Rightarrow> unit result \<times> sender_thread \<times> payload_file" where
  "try_send env th pf =
     (case getQuery pf of
        Inl e \<Rightarrow> (Inl e, th, pf)
      | Inr (bap, pf) \<Rightarrow> (case send_query env bap th of (r, th) \<Rightarrow> (r, th, pf)))"

text \<open>
  The loop: an attempt that throws \<open>UnknownRRType\<close> or \<open>InvalidDNSQuery\<close> is repeated. The list holds
  the environments of the attempts; \<open>None\<close> when it is used up.
\<close>

fun sendPacket ::
  "send_env list \<Rightarrow> sender_thread \<Rightarrow> payload_file \<Rightarrow> (unit result \<times> sender_thread \<times> payload_file) option" where
  "sendPacket [] th pf = None"
| "sendPacket (env # envs) th pf =
     (case try_send env th pf of
        (Inl UnknownRRType, th', pf') \<Rightarrow> sendPacket envs th' pf'
      | (Inl InvalidDNSQuery, th', pf') \<Rightarrow> sendPacket envs th' pf'
      | r \<Rightarrow> Some r)"

subsection \<open>Counters\<close>

definition getPacketsSend :: "sender_thread \<Rightarrow> u64" where
  "getPacketsSend th = counter_packets_send th"

definition getBytesSend :: "sender_thread \<Rightarrow> u64" where
  "getBytesSend th = counter_bytes_send th"

definition getErrors :: "sender_thread \<Rightarrow> u64" where
  "getErrors th = errors th"

definition getCounter0Bytes :: "sender_thread \<Rightarrow> u64" where
  "getCounter0Bytes th = counter_0bytes th"

definition getCounterErrorCode :: "int \<Rightarrow> sender_thread \<Rightarrow> u64 result" where
  "getCounterErrorCode err th =
     (if err < 255 then if err < 0 then Inl UndefinedBehaviour else Inr (counter_errorcodes th ! nat err)
      else Inr 0)"

subsection \<open>What a thread sends\<close>

text \<open>
  The reference: the DNS message that query \<open>q\<close> of the payload is sent as, with or without DNSSEC,
  and with the time stamp as its identifier in network order.
\<close>

definition base_message :: "bool \<Rightarrow> bool \<Rightarrow> bytes \<Rightarrow> bytes" where
  "base_message pcap due q = (if pcap then drop 42 q else if due then dnssec_message 4096 q else q)"

definition stamped :: "u16 \<Rightarrow> bytes \<Rightarrow> bytes" where
  "stamped ts m = m[0 := hi8 ts, 1 := lo8 ts]"

definition dnssec_due :: "sender_thread \<Rightarrow> bool" where
  "dnssec_due th \<longleftrightarrow> \<not> th_payloadIsPcap th \<and> 100 \<le> dnsseccounter th + DnssecRate th"

definition next_counter :: "sender_thread \<Rightarrow> int" where
  "next_counter th =
     (if th_payloadIsPcap th then dnsseccounter th
      else dnsseccounter th + DnssecRate th - (if dnssec_due th then 100 else 0))"

text \<open>The datagram in the packet of a thread; after a call of \<open>Socket.send\<close> the one that was sent.\<close>

definition wire :: "sender_thread \<Rightarrow> bytes" where
  "wire th = take (pkt_size (pkt th)) (pkt_buffer (pkt th))"

text \<open>
  The invariant of a configured thread. The packet carries the destination of the socket; sources
  are taken from the payload only when it is a capture.
\<close>

definition query_wf :: "bool \<Rightarrow> bytes \<Rightarrow> bool" where
  "query_wf pcap q \<longleftrightarrow>
     (if pcap then 45 \<le> length q \<and> length q \<le> 4096 else 12 \<le> length q \<and> length q \<le> 271)"

definition thread_inv :: "sender_thread \<Rightarrow> bool" where
  "thread_inv th \<longleftrightarrow>
     packet_inv (pkt th) \<and> length (th_buffer th) = 4096 \<and> length (counter_errorcodes th) = 255 \<and>
     0 \<le> dnsseccounter th \<and> dnsseccounter th < 100 \<and> 0 \<le> DnssecRate th \<and> DnssecRate th \<le> 100 \<and>
     sin_addr (Socket th) \<noteq> -1 \<and> load32 16 (pkt_buffer (pkt th)) = sin_addr (Socket th) \<and>
     load16 22 (pkt_buffer (pkt th)) = sin_port (Socket th) \<and>
     (spoofingEnabled th \<and> spoofingFromPcap th \<longrightarrow> th_payloadIsPcap th)"

definition supplied :: "sender_thread \<Rightarrow> payload_file \<Rightarrow> bool" where
  "supplied th pf \<longleftrightarrow> payload_ready pf \<and> payload_wf pf \<and> th_payloadIsPcap th = payloadIsPcap pf"

lemma base_message_bounds:
  "query_wf pcap q \<Longrightarrow> 3 \<le> length (base_message pcap due q) \<and> length (base_message pcap due q) \<le> 4054"
  by (auto simp: query_wf_def base_message_def split: if_splits)

lemma prepare_query_ok:
  assumes "length (th_buffer th) = 4096" and "query_wf (th_payloadIsPcap th) q"
  shows "prepare_query q th =
    Inr (word_of_nat (length (base_message (th_payloadIsPcap th) (dnssec_due th) q)),
         th\<lparr>th_buffer := blit 0 (base_message (th_payloadIsPcap th) (dnssec_due th) q) (th_buffer th),
            dnsseccounter := next_counter th\<rparr>)"
proof (cases "th_payloadIsPcap th")
  case True
  then have q: "45 \<le> length q" "length q \<le> 4096" using assms by (simp_all add: query_wf_def)
  then have "(word_of_nat (length q) :: u64) - 42 = word_of_nat (length q - 42)"
    by (simp add: of_nat_diff)
  moreover have "unat (word_of_nat (length q - 42) :: u64) = length q - 42"
    by (rule unat_of_nat_u64) (use q in simp)
  ultimately show ?thesis
    using True q assms(1)
    by (simp add: prepare_query_def base_message_def bytes_at_def next_counter_def Let_def)
next
  case False
  then have q: "12 \<le> length q" "length q \<le> 271" using assms by (simp_all add: query_wf_def)
  then show ?thesis
    using False assms(1) AddDnssecToQuery_message [of q "th_buffer th" 4096 4096]
    by (simp add: prepare_query_def base_message_def Let_def next_counter_def dnssec_due_def)
qed

text \<open>The source address and port, in memory order, that the attempt writes into the packet.\<close>

definition sent_source :: "send_env \<Rightarrow> bytes \<Rightarrow> sender_thread \<Rightarrow> u32 \<times> u16" where
  "sent_source env q th =
     (if spoofingEnabled th \<and> spoofingFromPcap th then (load32 26 q, load16 34 q)
      else (if spoofingEnabled th
            then htonl (rand_ip env (spoofing_net_start th) (spoofing_net_start th + spoofing_net_size th - 1))
            else load32 12 (pkt_buffer (pkt th)),
            htons (ucast (rand_port env 1024 65535))))"

lemma choose_source_ok:
  assumes "packet_inv p" and "\<not> chksum_valid p" and "thread_inv th" and "query_wf (th_payloadIsPcap th) q"
    and "load32 12 (pkt_buffer p) = load32 12 (pkt_buffer (pkt th))"
  shows "\<exists>p'. choose_source env q th p = Inr p' \<and> packet_inv p' \<and> payload_size p' = payload_size p \<and>
    load32 16 (pkt_buffer p') = load32 16 (pkt_buffer p) \<and> load16 22 (pkt_buffer p') = load16 22 (pkt_buffer p) \<and>
    bytes_at 28 (payload_size p) (pkt_buffer p') = bytes_at 28 (payload_size p) (pkt_buffer p) \<and>
    (load32 12 (pkt_buffer p'), load16 20 (pkt_buffer p')) = sent_source env q th"
proof -
  have len: "length (pkt_buffer p) = 4096" "payload_size p \<le> 4068"
    using assms by (simp_all add: packet_inv_def headers_ok_def)
  consider "spoofingEnabled th" "spoofingFromPcap th" | "\<not> (spoofingEnabled th \<and> spoofingFromPcap th)" by blast
  then show ?thesis
  proof cases
    case 1
    then have "45 \<le> length q" using assms by (simp add: thread_inv_def query_wf_def split: if_splits)
    then obtain p' where "useSourceFromPcap q (length q) p = Inr p'"
      by (simp add: useSourceFromPcap_def)
    with 1 show ?thesis
      using useSourceFromPcap_inv [OF assms(1,2)] len \<open>45 \<le> length q\<close>
      by (auto simp: choose_source_def sent_source_def) (auto simp: useSourceFromPcap_def layout)
  next
    case 2
    then show ?thesis
      using setters_inv [OF assms(1)] setters_inv [OF setters_inv(3) [OF assms(1)]] len assms(5)
      by (auto simp: choose_source_def sent_source_def)
         (auto simp: randomSourcePort_def randomSourceIP_def layout)
  qed
qed

lemma setDnsId_stamps:
  assumes "packet_inv p" and "2 \<le> payload_size p"
  shows "bytes_at 28 (payload_size p) (pkt_buffer (setDnsId ts p)) =
    stamped ts (bytes_at 28 (payload_size p) (pkt_buffer p))"
  using assms
  by (simp add: setDnsId_def packet_inv_def headers_ok_def slice_store16) (simp add: stamped_def store16_def)

text \<open>What a successful attempt makes of the counters, by the return value of \<open>sendto\<close>.\<close>

definition counted :: "int \<Rightarrow> nat \<Rightarrow> bytes \<Rightarrow> sender_thread \<Rightarrow> sender_thread \<Rightarrow> bool" where
  "counted n err d th th' \<longleftrightarrow>
     (counter_packets_send th', counter_bytes_send th') =
       (if n = int (length d) then (counter_packets_send th + 1, counter_bytes_send th + word_of_nat (length d))
        else (counter_packets_send th, counter_bytes_send th)) \<and>
     errors th' = errors th + (if n < 0 then 1 else 0) \<and>
     counter_0bytes th' = counter_0bytes th + (if 0 \<le> n \<and> n \<noteq> int (length d) then 1 else 0) \<and>
     (\<forall>i<255. counter_errorcodes th' ! i = counter_errorcodes th ! i + (if n < 0 \<and> i = err then 1 else 0))"

lemma count_send_counted:
  assumes "length (counter_errorcodes th) = 255" and "0 < length d" and "sz = length d"
  shows "counted n err d th (count_send n err sz th)"
  using assms by (auto simp: counted_def count_send_def Let_def nth_list_update)

lemma count_send_frame [simp]:
  "pkt (count_send n err sz th) = pkt th" "Socket (count_send n err sz th) = Socket th"
  "th_buffer (count_send n err sz th) = th_buffer th" "dnsseccounter (count_send n err sz th) = dnsseccounter th"
  "DnssecRate (count_send n err sz th) = DnssecRate th"
  "th_payloadIsPcap (count_send n err sz th) = th_payloadIsPcap th"
  "spoofingEnabled (count_send n err sz th) = spoofingEnabled th"
  "spoofingFromPcap (count_send n err sz th) = spoofingFromPcap th"
  "spoofing_net_start (count_send n err sz th) = spoofing_net_start th"
  "spoofing_net_size (count_send n err sz th) = spoofing_net_size th"
  "queryrate (count_send n err sz th) = queryrate th" "runtime (count_send n err sz th) = runtime th"
  "timeout (count_send n err sz th) = timeout th" "Timeslice (count_send n err sz th) = Timeslice th"
  "th_payload (count_send n err sz th) = th_payload th" "sourceip (count_send n err sz th) = sourceip th"
  "length (counter_errorcodes (count_send n err sz th)) = length (counter_errorcodes th)"
  by (simp_all add: count_send_def Let_def)

text \<open>
  The contract of one attempt: query \<open>q\<close> left the thread as a valid datagram, from the chosen source
  to the destination of the socket, and was counted.
\<close>

definition sent :: "send_env \<Rightarrow> bytes \<Rightarrow> sender_thread \<Rightarrow> sender_thread \<Rightarrow> bool" where
  "sent env q th th' \<longleftrightarrow>
     valid_datagram (wire th') \<and>
     drop 28 (wire th') =
       stamped (getQueryTimestamp (env_clock env)) (base_message (th_payloadIsPcap th) (dnssec_due th) q) \<and>
     (load32 12 (wire th'), load16 20 (wire th')) = sent_source env q th \<and>
     (load32 16 (wire th'), load16 22 (wire th')) = getSockAddr (Socket th) \<and>
     counted (env_sendto env (wire th') (sin_addr (Socket th)) (sin_port (Socket th))) (env_errno env)
       (wire th') th th'"

definition same_config :: "sender_thread \<Rightarrow> sender_thread \<Rightarrow> bool" where
  "same_config th th' \<longleftrightarrow>
     Socket th' = Socket th \<and> queryrate th' = queryrate th \<and> runtime th' = runtime th \<and>
     timeout th' = timeout th \<and> DnssecRate th' = DnssecRate th \<and> Timeslice th' = Timeslice th \<and>
     th_payload th' = th_payload th \<and> sourceip th' = sourceip th \<and>
     th_payloadIsPcap th' = th_payloadIsPcap th \<and> spoofingEnabled th' = spoofingEnabled th \<and>
     spoofingFromPcap th' = spoofingFromPcap th \<and> spoofing_net_start th' = spoofing_net_start th \<and>
     spoofing_net_size th' = spoofing_net_size th"

lemma wire_fields:
  assumes "packet_inv p" and "off + 4 \<le> 28"
  shows "load32 off (take (pkt_size p) b) = load32 off b" and "off \<le> 24 \<Longrightarrow> load16 off (take (pkt_size p) b) = load16 off b"
  using assms by (simp_all add: load32_def load16_def pkt_size_def)

lemma pkt_ptr_fields:
  assumes "packet_inv p"
  shows "load32 12 (pkt_buffer (snd (pkt_ptr p))) = load32 12 (pkt_buffer p)"
    and "load32 16 (pkt_buffer (snd (pkt_ptr p))) = load32 16 (pkt_buffer p)"
    and "load16 20 (pkt_buffer (snd (pkt_ptr p))) = load16 20 (pkt_buffer p)"
    and "load16 22 (pkt_buffer (snd (pkt_ptr p))) = load16 22 (pkt_buffer p)"
  unfolding pkt_ptr_inv(4) [OF assms, symmetric]
  by (auto intro!: f32.get_local f16.get_local pkt_ptr_other_bytes [OF assms])

lemma next_counter_bounds: "thread_inv th \<Longrightarrow> 0 \<le> next_counter th \<and> next_counter th < 100"
  by (simp add: thread_inv_def next_counter_def dnssec_due_def)

lemma setPayload_fields:
  assumes "packet_inv p" and "setPayload b sz p = Inr q"
  shows "load32 12 (pkt_buffer q) = load32 12 (pkt_buffer p)" and "load32 16 (pkt_buffer q) = load32 16 (pkt_buffer p)"
    and "load16 22 (pkt_buffer q) = load16 22 (pkt_buffer p)"
  using assms by (auto simp: setPayload_def set_lengths_def not_less layout split: if_splits)

lemma try_send_packet:
  assumes inv: "thread_inv th" and q: "query_wf (th_payloadIsPcap th) q"
  defines "m \<equiv> base_message (th_payloadIsPcap th) (dnssec_due th) q"
  shows "\<exists>p p'. setPayload (blit 0 m (th_buffer th)) (word_of_nat (length m)) (pkt th) = Inr p \<and>
    choose_source env q (th\<lparr>th_buffer := blit 0 m (th_buffer th), dnsseccounter := next_counter th\<rparr>) p = Inr p' \<and>
    packet_inv p' \<and> payload_size p' = length m \<and> bytes_at 28 (length m) (pkt_buffer p') = m \<and>
    (load32 16 (pkt_buffer p'), load16 22 (pkt_buffer p')) = getSockAddr (Socket th) \<and>
    (load32 12 (pkt_buffer p'), load16 20 (pkt_buffer p')) = sent_source env q th"
proof -
  let ?th = "th\<lparr>th_buffer := blit 0 m (th_buffer th), dnsseccounter := next_counter th\<rparr>"
  have m: "3 \<le> length m" "length m \<le> 4054" using base_message_bounds [OF q] by (simp_all add: m_def)
  have um: "unat (word_of_nat (length m) :: u64) = length m" using m by (intro unat_of_nat_u64) simp
  have p0: "packet_inv (pkt th)" and buf: "length (th_buffer th) = 4096" using inv by (simp_all add: thread_inv_def)
  have b0: "take (length m) (blit 0 m (th_buffer th)) = m" by (simp add: blit_0)
  have "length (pkt_buffer (pkt th)) = 4096" using p0 by (simp add: packet_inv_def headers_ok_def)
  then obtain p where sp: "setPayload (blit 0 m (th_buffer th)) (word_of_nat (length m)) (pkt th) = Inr p"
    using setPayload_guard [of "word_of_nat (length m)"] m buf
    by (simp add: setPayload_def um length_blit)
  note p = setPayload_inv [OF p0 sp, unfolded um] setPayload_bytes [OF p0 sp, unfolded um b0] setPayload_fields [OF p0 sp]
  have "thread_inv ?th"
    using inv m buf next_counter_bounds [OF inv] by (simp add: thread_inv_def length_blit)
  with p q show ?thesis
    using choose_source_ok [of p ?th q env] sp inv
    by (auto simp: sent_source_def getSockAddr_def thread_inv_def)
qed

lemma sock_send_ok:
  assumes "packet_inv p" and "sin_addr s \<noteq> -1"
  shows "sock_send sendto p s = Inr (sendto (take (pkt_size p) (pkt_buffer (snd (pkt_ptr p)))) (sin_addr s) (sin_port s),
      snd (pkt_ptr p))"
    and "pkt_size (snd (pkt_ptr p)) = pkt_size p"
  using assms pkt_ptr_inv [OF assms(1)] by (auto simp: sock_send_def pkt_size_def split: prod.splits)

lemma stamped_packet:
  fixes ts :: u16
  assumes inv: "packet_inv p" and sz: "payload_size p = length m" "3 \<le> length m"
    and m: "bytes_at 28 (length m) (pkt_buffer p) = m"
  defines "p' \<equiv> snd (pkt_ptr (setDnsId ts p))"
  shows "packet_inv p'" and "valid_datagram (take (pkt_size p') (pkt_buffer p'))"
    and "drop 28 (take (pkt_size p') (pkt_buffer p')) = stamped ts m"
    and "load32 12 (pkt_buffer p') = load32 12 (pkt_buffer p)" "load32 16 (pkt_buffer p') = load32 16 (pkt_buffer p)"
      "load16 20 (pkt_buffer p') = load16 20 (pkt_buffer p)" "load16 22 (pkt_buffer p') = load16 22 (pkt_buffer p)"
proof -
  have i: "packet_inv (setDnsId ts p)" by (rule setters_inv [OF inv])
  note ptr = pkt_ptr_inv [OF i] pkt_ptr_valid [OF i] pkt_ptr_payload [OF i]
  have sz': "pkt_size p' = pkt_size (setDnsId ts p)" using ptr(3) by (simp add: p'_def pkt_size_def)
  show "packet_inv p'" using ptr by (simp add: p'_def)
  show "valid_datagram (take (pkt_size p') (pkt_buffer p'))"
    unfolding sz' using ptr by (simp add: p'_def)
  show "drop 28 (take (pkt_size p') (pkt_buffer p')) = stamped ts m"
    unfolding sz' using ptr setDnsId_stamps [OF inv, of ts] sz m by (simp add: p'_def)
  have "length (pkt_buffer p) = 4096" using inv by (simp add: packet_inv_def headers_ok_def)
  then show "load32 12 (pkt_buffer p') = load32 12 (pkt_buffer p)" "load32 16 (pkt_buffer p') = load32 16 (pkt_buffer p)"
      "load16 20 (pkt_buffer p') = load16 20 (pkt_buffer p)" "load16 22 (pkt_buffer p') = load16 22 (pkt_buffer p)"
    unfolding p'_def pkt_ptr_fields [OF i] by (simp_all add: setDnsId_def layout)
qed

lemma send_query_ok:
  assumes inv: "thread_inv th" and q: "query_wf (th_payloadIsPcap th) q"
  shows "\<exists>th'. send_query env q th = (Inr (), th') \<and> thread_inv th' \<and> same_config th th' \<and>
    dnsseccounter th' = next_counter th \<and> sent env q th th'"
proof -
  define m where "m = base_message (th_payloadIsPcap th) (dnssec_due th) q"
  define th1 where "th1 = th\<lparr>th_buffer := blit 0 m (th_buffer th), dnsseccounter := next_counter th\<rparr>"
  obtain p p1 where p: "setPayload (blit 0 m (th_buffer th)) (word_of_nat (length m)) (pkt th) = Inr p"
      "choose_source env q th1 p = Inr p1" "packet_inv p1" "payload_size p1 = length m"
      "bytes_at 28 (length m) (pkt_buffer p1) = m"
      "(load32 16 (pkt_buffer p1), load16 22 (pkt_buffer p1)) = getSockAddr (Socket th)"
      "(load32 12 (pkt_buffer p1), load16 20 (pkt_buffer p1)) = sent_source env q th"
    using try_send_packet [OF inv q] unfolding m_def th1_def by blast
  define p2 where "p2 = setDnsId (getQueryTimestamp (env_clock env)) p1"
  define p3 where "p3 = snd (pkt_ptr p2)"
  define d where "d = take (pkt_size p3) (pkt_buffer p3)"
  define n where "n = env_sendto env d (sin_addr (Socket th)) (sin_port (Socket th))"
  define th' where "th' = count_send n (env_errno env) (pkt_size p3) (th1\<lparr>pkt := p3\<rparr>)"
  have m: "3 \<le> length m" "length m \<le> 4054" using base_message_bounds [OF q] by (simp_all add: m_def)
  note st = stamped_packet [OF p(3,4) m(1) p(5), of "getQueryTimestamp (env_clock env)",
      folded p2_def, folded p3_def, folded d_def]
  have i2: "packet_inv p2" unfolding p2_def by (rule setters_inv [OF p(3)])
  have send: "sock_send (env_sendto env) p2 (Socket th) = Inr (n, p3)"
    using sock_send_ok [OF i2, of "Socket th"] inv
    by (simp add: thread_inv_def p3_def d_def n_def)
  have buf: "length (th_buffer th) = 4096" using inv by (simp add: thread_inv_def)
  then have "send_query env q th = (Inr (), th')"
    using prepare_query_ok [OF buf q, folded m_def, folded th1_def] p(1,2) send
    by (simp add: send_query_def th1_def th'_def p2_def)
  moreover have "thread_inv th'"
    using buf inv st(1,4-7) p(6) m next_counter_bounds [OF inv]
    by (simp add: thread_inv_def th'_def th1_def getSockAddr_def length_blit)
  moreover have "wire th' = d" by (simp add: wire_def th'_def d_def)
  moreover have "length d = pkt_size p3"
    using st(1) by (simp add: d_def pkt_size_def packet_inv_def headers_ok_def)
  then have "counted n (env_errno env) d (th1\<lparr>pkt := p3\<rparr>) th'"
    unfolding th'_def using inv
    by (intro count_send_counted) (auto simp: th1_def thread_inv_def pkt_size_def)
  then have "counted n (env_errno env) d th th'" by (simp add: counted_def th1_def)
  moreover have "load32 12 d = load32 12 (pkt_buffer p3)" "load32 16 d = load32 16 (pkt_buffer p3)"
      "load16 20 d = load16 20 (pkt_buffer p3)" "load16 22 d = load16 22 (pkt_buffer p3)"
    unfolding d_def using wire_fields [OF st(1)] by simp_all
  ultimately show ?thesis
    using st(2,3) p(6,7) st(4-7)
    by (intro exI [of _ th']) (simp add: sent_def same_config_def n_def flip: m_def, simp add: th'_def th1_def)
qed

lemma try_send_query:
  assumes "thread_inv th" and "query_wf (th_payloadIsPcap th) q" and "getQuery pf = Inr (q, pf')"
  shows "\<exists>th'. try_send env th pf = (Inr (), th', pf') \<and> thread_inv th' \<and> same_config th th' \<and>
    dnsseccounter th' = next_counter th \<and> sent env q th th'"
  using send_query_ok [OF assms(1,2), of env] assms(3) by (auto simp: try_send_def)

lemma getQuery_error: "getQuery pf = Inl e \<Longrightarrow> e = UndefinedBehaviour"
  by (simp add: getQuery_def Let_def split: if_splits)

lemma try_send_error:
  "try_send env th pf = (Inl e, th', pf') \<Longrightarrow> e \<in> {UndefinedBehaviour, BufferOverflow, UnknownDestination}"
  by (auto simp: try_send_def send_query_def prepare_query_def setPayload_def choose_source_def useSourceFromPcap_def
      sock_send_def AddDnssecToQuery_def Let_def dest: getQuery_error split: sum.splits if_splits prod.splits)

lemma sendPacket_once: "sendPacket (env # envs) th pf = Some (try_send env th pf)"
proof (cases "try_send env th pf")
  case (fields r th' pf')
  then show ?thesis using try_send_error [of env th pf _ th' pf'] by (cases r) auto
qed

lemma supplied_query:
  assumes "supplied th pf"
  obtains pf' where "getQuery pf = Inr (hd (payload_cycle pf), pf')"
    and "query_wf (th_payloadIsPcap th) (hd (payload_cycle pf))" and "supplied th pf'"
    and "payload_cycle pf' = rotate1 (payload_cycle pf)"
proof -
  obtain pf' where g: "getQuery pf = Inr (hd (payload_cycle pf), pf')" "payload_ready pf'"
      "payload_cycle pf' = rotate1 (payload_cycle pf)"
    using assms getQuery_step [of pf] by (auto simp: supplied_def)
  then show ?thesis
    using assms getQuery_frame [OF g(1)] that [of pf']
    by (auto simp: supplied_def payload_wf_def query_wf_def)
qed

lemma sendPacket_ok:
  assumes "thread_inv th" and "supplied th pf"
  obtains th' pf' where "sendPacket (env # envs) th pf = Some (Inr (), th', pf')"
    and "thread_inv th'" and "supplied th' pf'" and "same_config th th'"
    and "dnsseccounter th' = next_counter th" and "payload_cycle pf' = rotate1 (payload_cycle pf)"
    and "sent env (hd (payload_cycle pf)) th th'"
proof -
  obtain pf' where pf': "getQuery pf = Inr (hd (payload_cycle pf), pf')"
      "query_wf (th_payloadIsPcap th) (hd (payload_cycle pf))" "supplied th pf'"
      "payload_cycle pf' = rotate1 (payload_cycle pf)"
    using assms(2) by (rule supplied_query)
  obtain th' where th': "try_send env th pf = (Inr (), th', pf')" "thread_inv th'" "same_config th th'"
      "dnsseccounter th' = next_counter th" "sent env (hd (payload_cycle pf)) th th'"
    using try_send_query [OF assms(1) pf'(2,1)] by blast
  have "supplied th' pf'" using pf'(3) th'(3) by (simp add: supplied_def same_config_def)
  with pf' th' show ?thesis by (intro that) (simp_all add: sendPacket_once)
qed

text \<open>
  C2. Sending one packet: a configured thread with a loaded payload takes the next query of the
  payload, and after a single attempt a valid IPv4/UDP datagram was handed to the kernel whose
  payload is that query (without its captured headers, or with the DNSSEC option when it is due) under
  the current time stamp, from the chosen source to the configured destination; exactly the counters
  that belong to the return value of \<open>sendto\<close> were incremented, and the thread is ready for the next
  packet.
\<close>

theorem sendPacket_correct:
  assumes "thread_inv th" and "supplied th pf"
  shows "\<exists>th' pf'. sendPacket (env # envs) th pf = Some (Inr (), th', pf') \<and>
    sent env (hd (payload_cycle pf)) th th' \<and> payload_cycle pf' = rotate1 (payload_cycle pf) \<and>
    thread_inv th' \<and> supplied th' pf' \<and> same_config th th'"
  using assms by (rule sendPacket_ok) blast

text \<open>A thread that was constructed and configured the way \<open>DNSSender\<close> does it meets the invariant.\<close>

lemma setDestination_fields:
  assumes "packet_inv p"
  shows "load32 16 (pkt_buffer (setDestination ip port p)) = addr ip"
    and "load16 22 (pkt_buffer (setDestination ip port p)) = htons (word_of_int port)"
  using assms by (simp_all add: setDestination_def packet_inv_def headers_ok_def layout)

lemma configured_inv:
  assumes "th_setDestination ip port (DNSSenderThread_new sock noip nonet raw) = Inr th"
    and "length raw = 4096" and "addr ip \<noteq> -1" and "0 \<le> rate" and "rate \<le> 100"
  shows "thread_inv (th_setPayload pf (setDNSSECRate rate th))"
    and "payload_ready pf \<Longrightarrow> payload_wf pf \<Longrightarrow> supplied (th_setPayload pf (setDNSSECRate rate th)) pf"
proof -
  note inv = Packet_new_inv setters_inv(5) [OF Packet_new_inv] setDestination_fields [OF Packet_new_inv]
  have th: "th = (DNSSenderThread_new sock noip nonet raw)
      \<lparr>Socket := sock\<lparr>sin_addr := addr ip, sin_port := htons (word_of_int port)\<rparr>,
       pkt := setDestination ip port Packet_new\<rparr>"
    using assms(1)
    by (auto simp: th_setDestination_def sock_setDestination_def DNSSenderThread_new_def split: if_splits)
  show "thread_inv (th_setPayload pf (setDNSSECRate rate th))"
    using assms(2-5) inv
    by (simp add: th thread_inv_def th_setPayload_def setDNSSECRate_def DNSSenderThread_new_def)
  show "supplied (th_setPayload pf (setDNSSECRate rate th)) pf" if "payload_ready pf" "payload_wf pf"
    using that by (simp add: supplied_def th_setPayload_def isPcap_def)
qed

text \<open>A thread, a payload and an environment for the witnesses.\<close>

definition demo_thread :: sender_thread where
  "demo_thread =
     (DNSSenderThread_new \<lparr>sin_addr = 0x0100a8c0, sin_port = htons 53\<rparr> \<lparr>family = IPv4, addr = 0\<rparr>
        \<lparr>net_first = \<lparr>family = IPv4, addr = 0\<rparr>, prefixlen = 0\<rparr> (replicate 4096 0))
     \<lparr>pkt := setDestination \<lparr>family = IPv4, addr = 0x0100a8c0\<rparr> 53 Packet_new,
      DnssecRate := 30, th_payload := True\<rparr>"

definition demo_payload :: payload_file where
  "demo_payload = \<lparr>validLinesInQueryFile = 2,
     querycache = [replicate 12 0 @ [15], replicate 12 0 @ [1]], it_pos = 0, payloadIsPcap = False\<rparr>"

definition demo_env :: send_env where
  "demo_env = \<lparr>rand_ip = (\<lambda>lo hi. lo), rand_port = (\<lambda>lo hi. hi), env_clock = Some \<lparr>tv_sec = 1, tv_usec = 500\<rparr>,
     env_sendto = (\<lambda>d _ _. int (length d)), env_errno = 0\<rparr>"

lemma demo_thread_ok: "thread_inv demo_thread" "supplied demo_thread demo_payload"
proof -
  let ?ip = "\<lparr>family = IPv4, addr = 0x0100a8c0\<rparr>" and ?s = "\<lparr>sin_addr = -1, sin_port = 0\<rparr>"
  let ?new = "DNSSenderThread_new ?s \<lparr>family = IPv4, addr = 0\<rparr>
    \<lparr>net_first = \<lparr>family = IPv4, addr = 0\<rparr>, prefixlen = 0\<rparr> (replicate 4096 0)"
  obtain th where th: "th_setDestination ?ip 53 ?new = Inr th"
    by (simp add: th_setDestination_def sock_setDestination_def)
  have eq: "th_setPayload demo_payload (setDNSSECRate 30 th) = demo_thread"
    using th by (auto simp: th_setDestination_def sock_setDestination_def DNSSenderThread_new_def
        th_setPayload_def setDNSSECRate_def demo_thread_def isPcap_def demo_payload_def)
  show "thread_inv demo_thread" "supplied demo_thread demo_payload"
    using configured_inv [OF th, of 30 demo_payload]
    by (simp_all add: eq) (simp add: payload_ready_def payload_wf_def demo_payload_def)
qed

theorem sendPacket_correct_witness:
  "\<exists>th' pf'. sendPacket [demo_env] demo_thread demo_payload = Some (Inr (), th', pf') \<and>
     valid_datagram (wire th') \<and> drop 28 (wire th') = [0x27, 0x15] @ replicate 10 0 @ [15]"
proof -
  have "hd (payload_cycle demo_payload) = replicate 12 0 @ [15]"
    by (simp add: payload_cycle_def demo_payload_def)
  moreover have "getQueryTimestamp (env_clock demo_env) = 10005" "hi8 10005 = 0x27" "lo8 10005 = 0x15"
    by (simp_all add: demo_env_def getQueryTimestamp_def signed_modulo_int_def hi8_def lo8_def)
  then have "stamped (getQueryTimestamp (env_clock demo_env))
      (base_message (th_payloadIsPcap demo_thread) (dnssec_due demo_thread) (replicate 12 0 @ [15])) =
      [0x27, 0x15] @ replicate 10 0 @ [15]"
    by (simp add: base_message_def demo_thread_def DNSSenderThread_new_def dnssec_due_def stamped_def eval_nat_numeral)
  ultimately show ?thesis
    using sendPacket_correct [OF demo_thread_ok, of demo_env "[]"] by (auto simp: sent_def)
qed

subsection \<open>Spoofed sources\<close>

lemma powl2_less: "powl2 plen < 4294967296 \<longleftrightarrow> plen \<noteq> 0"
proof (cases "plen = 0")
  case False
  then have "(2 :: nat) ^ (32 - plen) < 2 ^ 32" by (intro power_strict_increasing) simp_all
  with False show ?thesis by (simp add: powl2_def)
qed (simp add: powl2_def)

text \<open>
  C20. Spoofing stays inside the network. A configured thread with a loaded payload that does not
  take its sources from the capture and is given a source network with a prefix of 1 to 32 bits,
  whose first address has zero host bits, sends its next packet with a source address that has the
  prefix of the network, whatever random number is drawn. For a prefix of 0 bits the setter is
  undefined: the number of addresses does not fit the member it is stored in.
\<close>

theorem spoofed_source_in_network:
  assumes "thread_inv th" and "supplied th pf" and "\<not> spoofingFromPcap th" and "rand_ok (rand_ip env)"
    and "prefixlen net \<le> 32" and "start = htonl (addr (net_first net))" and "2 ^ (32 - prefixlen net) dvd unat start"
  shows "if prefixlen net = 0 then setSourceNet net th = Inl UndefinedBehaviour
    else \<exists>th1 th2 pf2. setSourceNet net th = Inr th1 \<and> sendPacket (env # envs) th1 pf = Some (Inr (), th2, pf2) \<and>
      valid_datagram (wire th2) \<and>
      unat (htonl (load32 12 (wire th2))) div 2 ^ (32 - prefixlen net) = unat start div 2 ^ (32 - prefixlen net)"
proof (cases "prefixlen net = 0")
  case True
  then show ?thesis by (simp add: setSourceNet_def powl2_def)
next
  case False
  let ?th = "th\<lparr>sourcenet := net, spoofingEnabled := True, spoofing_net_start := start,
    spoofing_net_size := word_of_nat (powl2 (prefixlen net))\<rparr>"
  have s: "setSourceNet net th = Inr ?th" using False by (simp add: setSourceNet_def powl2_less assms(6))
  have "thread_inv ?th" "supplied ?th pf" using assms(1-3) by (simp_all add: thread_inv_def supplied_def)
  then obtain th' pf' where r: "sendPacket (env # envs) ?th pf = Some (Inr (), th', pf')"
      "sent env (hd (payload_cycle pf)) ?th th'"
    by (rule sendPacket_ok)
  then have "htonl (load32 12 (wire th')) = rand_ip env start (start + word_of_nat (powl2 (prefixlen net)) - 1)"
    using assms(3) by (simp add: sent_def sent_source_def)
  then show ?thesis
    using False s r randomSourceIP_in_network [OF assms(4,5,7)] by (auto simp: sent_def)
qed

text \<open>The network 10.0.0.0/8; the random number is the largest that the range allows.\<close>

theorem spoofed_source_in_network_witness:
  "\<exists>th1 th2 pf2. setSourceNet \<lparr>net_first = \<lparr>family = IPv4, addr = 0x0000000a\<rparr>, prefixlen = 8\<rparr> demo_thread = Inr th1 \<and>
     sendPacket [demo_env\<lparr>rand_ip := (\<lambda>lo hi. hi)\<rparr>] th1 demo_payload = Some (Inr (), th2, pf2) \<and>
     unat (htonl (load32 12 (wire th2))) div 2 ^ 24 = 10"
proof -
  let ?net = "\<lparr>net_first = \<lparr>family = IPv4, addr = 0x0000000a\<rparr>, prefixlen = 8\<rparr>"
  have h: "htonl (addr (net_first ?net)) = 0x0a000000" by (simp add: htonl_def) code_simp
  have "\<not> spoofingFromPcap demo_thread" by (simp add: demo_thread_def DNSSenderThread_new_def)
  moreover have "rand_ok (rand_ip (demo_env\<lparr>rand_ip := (\<lambda>lo hi. hi)\<rparr>))" by (simp add: rand_ok_def)
  ultimately show ?thesis
    using spoofed_source_in_network [OF demo_thread_ok, of "demo_env\<lparr>rand_ip := (\<lambda>lo hi. hi)\<rparr>" ?net _ "[]"] h
    by simp blast
qed

text \<open>
  Sources can be taken from the payload only if it is a capture, but nothing checks that: with
  \<open>-s pcap\<close> and a text file the thread reads the addresses of an Ethernet frame from a compiled
  query, and behind its end when the query has fewer than 36 bytes.
\<close>

theorem sendPacket_pcap_source_of_text:
  assumes inv: "thread_inv th" "supplied th pf" and short: "length (hd (payload_cycle pf)) < 36"
  shows "\<exists>th' pf'. sendPacket (env # envs) (setSourcePcap th) pf = Some (Inl UndefinedBehaviour, th', pf')"
proof -
  define q where "q = hd (payload_cycle pf)"
  define m where "m = base_message (th_payloadIsPcap th) (dnssec_due th) q"
  let ?th = "setSourcePcap th"
  obtain pf' where q: "getQuery pf = Inr (q, pf')" "query_wf (th_payloadIsPcap th) q"
    using supplied_query [OF inv(2)] q_def by metis
  obtain p where p: "setPayload (blit 0 m (th_buffer th)) (word_of_nat (length m)) (pkt th) = Inr p"
    using try_send_packet [OF inv(1) q(2)] m_def by blast
  have "prepare_query q ?th = Inr (word_of_nat (length m),
      ?th\<lparr>th_buffer := blit 0 m (th_buffer th), dnsseccounter := next_counter ?th\<rparr>)"
    using prepare_query_ok [of ?th q] inv(1) q(2)
    by (simp add: setSourcePcap_def thread_inv_def m_def dnssec_due_def)
  moreover have "choose_source env q th' p = Inl UndefinedBehaviour"
    if "spoofingEnabled th'" "spoofingFromPcap th'" for th'
    using that short by (simp add: choose_source_def useSourceFromPcap_def q_def)
  ultimately have "\<exists>th'. try_send env ?th pf = (Inl UndefinedBehaviour, th', pf')"
    using q(1) p by (simp add: try_send_def send_query_def setSourcePcap_def)
  then show ?thesis by (auto simp: sendPacket_once)
qed

theorem sendPacket_pcap_source_of_text_witness:
  "\<exists>th' pf'. sendPacket [demo_env] (setSourcePcap demo_thread) demo_payload = Some (Inl UndefinedBehaviour, th', pf')"
  using sendPacket_pcap_source_of_text [OF demo_thread_ok, of demo_env "[]"]
  by (simp add: demo_thread_def DNSSenderThread_new_def payload_cycle_def demo_payload_def)

end
