(* ===== verification/Sender_Run.thy ===== *)
theory Sender_Run
  imports Sender_Thread
begin

text \<open>
  \<open>src/src/dns_sender_thread.cpp\<close>, second part: the loops that call \<open>sendPacket\<close>, with and without
  a rate limit, the final wait, and the body \<open>run\<close> of a sender thread.
\<close>

subsection \<open>The sending loops\<close>

text \<open>
  A moment is what one call of \<open>sendPacket\<close> sees: the number of queries that other threads drew from
  the shared payload since this thread's last draw, and the environments of its attempts.
\<close>

record moment =
  others :: nat
  attempts :: "send_env list"

definition other_draw :: "payload_file \<Rightarrow> payload_file" where
  "other_draw pf = (case getQuery pf of Inl e \<Rightarrow> pf | Inr (q, pf') \<Rightarrow> pf')"

definition send_at :: "moment \<Rightarrow> sender_thread \<Rightarrow> payload_file \<Rightarrow> (unit result \<times> sender_thread \<times> payload_file) option" where
  "send_at m th pf = sendPacket (attempts m) th ((other_draw ^^ others m) pf)"

text \<open>The inner loop of a time slice: \<open>n\<close> packets. \<open>None\<close> when the moments are used up.\<close>

fun send_queries ::
  "nat \<Rightarrow> moment list \<Rightarrow> sender_thread \<Rightarrow> payload_file \<Rightarrow> (unit result \<times> sender_thread \<times> payload_file) option" where
  "send_queries 0 ms th pf = Some (Inr (), th, pf)"
| "send_queries (Suc n) [] th pf = None"
| "send_queries (Suc n) (m # ms) th pf =
     (case send_at m th pf of
        Some (Inr _, th', pf') \<Rightarrow> send_queries n ms th' pf'
      | r \<Rightarrow> r)"

text \<open>
  What a time slice sees: the moments of its packets, the readings of \<open>getNsec\<close> while it waits, and
  the stop request and the reading of \<open>GetMicrotime\<close> of its check.
\<close>

record slice_env =
  moments :: "moment list"
  nsec :: "rat list"
  stop_request :: bool
  microtime :: rat

text \<open>The wait for the next slice ends with the first reading that is not before it.\<close>

fun wait_until :: "rat \<Rightarrow> rat list \<Rightarrow> rat option" where
  "wait_until next_timeslice [] = None"
| "wait_until next_timeslice (now # ts) =
     (if now < next_timeslice then wait_until next_timeslice ts else Some now)"

text \<open>
  The loop over the slices. \<open>total_idle\<close> is left out: it is only added up. The pair of the loop
  counter and the number of slices bounds the recursion together with the list of slices.
\<close>

fun rate_loop ::
  "slice_env list \<Rightarrow> u64 \<Rightarrow> u64 \<Rightarrow> u64 \<Rightarrow> rat \<Rightarrow> rat \<Rightarrow> rat \<Rightarrow> sender_thread \<Rightarrow> payload_file \<Rightarrow>
   (unit result \<times> sender_thread \<times> payload_file) option" where
  "rate_loop ses total_timeslices z queries_rest next_timeslice next_checktime end_time th pf =
     (if \<not> z < total_timeslices then Some (Inr (), th, pf)
      else case ses of
        [] \<Rightarrow> None
      | se # ses' \<Rightarrow>
          (let next_timeslice = dbl (next_timeslice + Timeslice th);
               timeslices_rest = total_timeslices - z;
               queries_per_timeslice = queries_rest div timeslices_rest;
               queries_per_timeslice = (if timeslices_rest = 1 then queries_rest else queries_per_timeslice)
           in case send_queries (unat queries_per_timeslice) (moments se) th pf of
                Some (Inr _, th, pf) \<Rightarrow>
                  (let queries_rest = queries_rest - queries_per_timeslice
                   in case wait_until next_timeslice (nsec se) of
                        None \<Rightarrow> None
                      | Some now \<Rightarrow>
                          if now > next_checktime then
                            if stop_request se then Some (Inr (), th, pf)
                            else if microtime se \<ge> end_time then Some (Inr (), th, pf)
                            else rate_loop ses' total_timeslices (z + 1) queries_rest next_timeslice
                                   (dbl (now + dbl (1 / 10))) end_time th pf
                          else rate_loop ses' total_timeslices (z + 1) queries_rest next_timeslice
                                 next_checktime end_time th pf)
              | r \<Rightarrow> r))"

declare rate_loop.simps [simp del]

text \<open>
  Conversions of \<open>double\<close> to \<open>ppluint64\<close> are undefined outside of the range of the type, and so are
  the signed overflow of \<open>runtime * 1000\<close> and the division by \<open>total_timeslices\<close>, whose quotient is
  only printed, if that is zero. \<open>now0\<close> and \<open>start\<close> are the readings of \<open>getNsec\<close> and
  \<open>GetMicrotime\<close> before the loop.
\<close>

definition timeslices :: "int \<Rightarrow> rat \<Rightarrow> rat" where
  "timeslices secs len = dbl (dbl (of_int (secs * 1000)) / dbl (len * 1000))"

definition runWithRateLimit ::
  "slice_env list \<Rightarrow> rat \<Rightarrow> rat \<Rightarrow> sender_thread \<Rightarrow> payload_file \<Rightarrow>
   (unit result \<times> sender_thread \<times> payload_file) option" where
  "runWithRateLimit ses now0 start th pf =
     (if \<not> (-(2 ^ 31) \<le> runtime th * 1000 \<and> runtime th * 1000 < 2 ^ 31) \<or> Timeslice th = 0
         \<or> \<not> (-1 < timeslices (runtime th) (Timeslice th) \<and> timeslices (runtime th) (Timeslice th) < 2 ^ 64)
         \<or> timeslices (runtime th) (Timeslice th) < 1
      then Some (Inl UndefinedBehaviour, th, pf)
      else
        let total_timeslices = word_of_int \<lfloor>timeslices (runtime th) (Timeslice th)\<rfloor>;
            queries_rest = word_of_int (runtime th) * queryrate th;
            th = th\<lparr>verbose := True\<rparr>
        in rate_loop ses total_timeslices 0 queries_rest now0 (dbl (now0 + dbl (1 / 10)))
             (dbl (start + of_int (runtime th))) th pf)"

text \<open>
  Without a limit: after every 10001 packets the stop request and the clock are looked at. One
  element of the list per packet, with the request and the reading used after it.
\<close>

fun free_loop ::
  "(moment \<times> bool \<times> rat) list \<Rightarrow> int \<Rightarrow> rat \<Rightarrow> sender_thread \<Rightarrow> payload_file \<Rightarrow>
   (unit result \<times> sender_thread \<times> payload_file) option" where
  "free_loop [] pc end_time th pf = None"
| "free_loop ((m, stop, now) # es) pc end_time th pf =
     (case send_at m th pf of
        Some (Inr _, th, pf) \<Rightarrow>
          (let pc = pc + 1
           in if pc > 10000 then
                if stop then Some (Inr (), th, pf)
                else if now > end_time then Some (Inr (), th, pf)
                else free_loop es 0 end_time th pf
              else free_loop es pc end_time th pf)
      | r \<Rightarrow> r)"

definition runWithoutRateLimit ::
  "(moment \<times> bool \<times> rat) list \<Rightarrow> rat \<Rightarrow> sender_thread \<Rightarrow> payload_file \<Rightarrow>
   (unit result \<times> sender_thread \<times> payload_file) option" where
  "runWithoutRateLimit es start th pf = free_loop es 0 (dbl (start + of_int (runtime th))) th pf"

text \<open>The wait at the end: readings of \<open>GetMicrotime\<close>, each with the stop request after it.\<close>

fun timeout_loop :: "(rat \<times> bool) list \<Rightarrow> rat \<Rightarrow> rat \<Rightarrow> rat option" where
  "timeout_loop [] end_time next_checktime = None"
| "timeout_loop ((now, stop) # ts) end_time next_checktime =
     (if now < end_time then
        if now > next_checktime then
          if stop then Some now
          else timeout_loop ts end_time (dbl (now + dbl (1 / 10)))
        else timeout_loop ts end_time next_checktime
      else Some now)"

definition waitForTimeout :: "(rat \<times> bool) list \<Rightarrow> rat \<Rightarrow> sender_thread \<Rightarrow> rat option" where
  "waitForTimeout ts start th = timeout_loop ts (dbl (start + of_int (timeout th))) (dbl (start + dbl (1 / 10)))"

text \<open>What the body of a thread sees; \<open>None\<close>: one of its loops did not end on the given readings.\<close>

record run_env =
  run_start :: rat
  run_now0 :: rat
  run_start2 :: rat
  run_slices :: "slice_env list"
  run_free :: "(moment \<times> bool \<times> rat) list"
  run_end :: rat
  run_timeout_start :: rat
  run_waits :: "(rat \<times> bool) list"

definition reset_counters :: "sender_thread \<Rightarrow> sender_thread" where
  "reset_counters th =
     th\<lparr>dnsseccounter := 0, counter_packets_send := 0, counter_bytes_send := 0, counter_0bytes := 0,
        errors := 0, duration := 0, counter_errorcodes := replicate 255 0\<rparr>"

definition th_run ::
  "run_env \<Rightarrow> sender_thread \<Rightarrow> payload_file \<Rightarrow> (unit result \<times> sender_thread \<times> payload_file) option" where
  "th_run env th pf =
     (if \<not> th_payload th then Some (Inl NullPointerException, th, pf)
      else
        let th = (if spoofingEnabled th then th else th\<lparr>pkt := setSource (sourceip th) 0x4567 (pkt th)\<rparr>);
            th = reset_counters th
        in case (if queryrate th > 0 then runWithRateLimit (run_slices env) (run_now0 env) (run_start2 env) th pf
                 else runWithoutRateLimit (run_free env) (run_start2 env) th pf) of
             Some (Inr _, th, pf) \<Rightarrow>
               (let th = th\<lparr>duration := dbl (run_end env - run_start env)\<rparr>
                in case waitForTimeout (run_waits env) (run_timeout_start env) th of
                     None \<Rightarrow> None
                   | Some _ \<Rightarrow> Some (Inr (), th, pf))
           | r \<Rightarrow> r)"

subsection \<open>Sequences of packets\<close>

text \<open>The number of calls of \<open>sendPacket\<close> that were counted, in whichever counter.\<close>

definition attempted :: "sender_thread \<Rightarrow> u64" where
  "attempted th = counter_packets_send th + errors th + counter_0bytes th"

lemma sent_attempted: "sent env q th th' \<Longrightarrow> attempted th' = attempted th + 1"
  by (auto simp: sent_def counted_def attempted_def split: if_splits)

lemma other_draw_supplied:
  assumes "supplied th pf"
  shows "supplied th ((other_draw ^^ n) pf)" and "payload_cycle ((other_draw ^^ n) pf) = rotate n (payload_cycle pf)"
proof -
  have "supplied th ((other_draw ^^ n) pf) \<and> payload_cycle ((other_draw ^^ n) pf) = rotate n (payload_cycle pf)"
  proof (induction n)
    case (Suc n)
    then have s: "supplied th ((other_draw ^^ n) pf)"
      and c: "payload_cycle ((other_draw ^^ n) pf) = rotate n (payload_cycle pf)" by simp_all
    from s obtain pf' where "getQuery ((other_draw ^^ n) pf) = Inr (hd (payload_cycle ((other_draw ^^ n) pf)), pf')"
      "supplied th pf'" "payload_cycle pf' = rotate1 (payload_cycle ((other_draw ^^ n) pf))"
      by (rule supplied_query)
    moreover from this have "other_draw ((other_draw ^^ n) pf) = pf'" by (subst other_draw_def) simp
    ultimately show ?case using c by simp
  qed (use assms in simp)
  then show "supplied th ((other_draw ^^ n) pf)" "payload_cycle ((other_draw ^^ n) pf) = rotate n (payload_cycle pf)"
    by simp_all
qed

lemma send_at_ok:
  assumes "thread_inv th" and "supplied th pf" and "attempts m \<noteq> []"
  obtains th' pf' where "send_at m th pf = Some (Inr (), th', pf')" and "thread_inv th'" and "supplied th' pf'"
    and "same_config th th'" and "attempted th' = attempted th + 1" and "dnsseccounter th' = next_counter th"
    and "sent (hd (attempts m)) (hd (rotate (others m) (payload_cycle pf))) th th'"
    and "payload_cycle pf' = rotate (others m + 1) (payload_cycle pf)"
proof -
  note o = other_draw_supplied [OF assms(2), of "others m"]
  obtain env envs where e: "attempts m = env # envs" using assms(3) by (cases "attempts m") auto
  show ?thesis
    by (rule sendPacket_ok [OF assms(1) o(1), of env envs], rule that)
       (simp_all add: send_at_def e sent_attempted o(2))
qed

lemma same_config_trans: "same_config a b \<Longrightarrow> same_config b c \<Longrightarrow> same_config a c"
  by (simp add: same_config_def)

lemma same_config_refl [simp]: "same_config a a"
  by (simp add: same_config_def)

text \<open>Enough moments, each with an attempt.\<close>

definition enough :: "nat \<Rightarrow> moment list \<Rightarrow> bool" where
  "enough n ms \<longleftrightarrow> n \<le> length ms \<and> (\<forall>m\<in>set ms. attempts m \<noteq> [])"

lemma send_queries_ok:
  assumes "thread_inv th" and "supplied th pf" and "enough n ms"
  shows "\<exists>th' pf'. send_queries n ms th pf = Some (Inr (), th', pf') \<and> thread_inv th' \<and> supplied th' pf' \<and>
    same_config th th' \<and> attempted th' = attempted th + of_nat n"
  using assms
proof (induction n arbitrary: ms th pf)
  case (Suc n)
  obtain m ms' where ms: "ms = m # ms'" using Suc.prems(3) by (cases ms) (auto simp: enough_def)
  then have m: "attempts m \<noteq> []" and e: "enough n ms'" using Suc.prems(3) by (auto simp: enough_def)
  obtain th1 pf1 where s: "send_at m th pf = Some (Inr (), th1, pf1)" "thread_inv th1" "supplied th1 pf1"
      "same_config th th1" "attempted th1 = attempted th + 1"
    using send_at_ok [OF Suc.prems(1,2) m] by metis
  obtain th' pf' where "send_queries n ms' th1 pf1 = Some (Inr (), th', pf')" "thread_inv th'" "supplied th' pf'"
      "same_config th1 th'" "attempted th' = attempted th1 + of_nat n"
    using Suc.IH [OF s(2,3) e] by blast
  with s show ?case
    using same_config_trans [OF s(4), of th'] by (simp add: ms add.assoc)
qed simp

subsection \<open>The rate limit\<close>

text \<open>
  The reference for the distribution of \<open>Q\<close> queries over \<open>T\<close> slices: the number sent in the first
  \<open>k\<close> slices. Every slice sends the average rounded down, and the last \<open>Q mod T\<close> slices one more.
\<close>

definition sent_after :: "nat \<Rightarrow> nat \<Rightarrow> nat \<Rightarrow> nat" where
  "sent_after Q T k = k * (Q div T) + (k - (T - Q mod T))"

lemma sent_after_total: "0 < T \<Longrightarrow> sent_after Q T T = Q"
  by (simp add: sent_after_def)

lemma sent_after_0 [simp]: "0 < T \<Longrightarrow> sent_after Q T 0 = 0"
  by (simp add: sent_after_def)

lemma sent_after_Suc:
  assumes "k < T"
  shows "sent_after Q T k \<le> Q"
    and "sent_after Q T (Suc k) = sent_after Q T k + (Q - sent_after Q T k) div (T - k)"
proof -
  define a b where "a = Q div T" and "b = Q mod T"
  have Q: "Q = a * T + b" and b: "b < T" using assms by (simp_all add: a_def b_def)
  define r where "r = T - k"
  have T: "T = k + r" and r: "0 < r" using assms by (simp_all add: r_def)
  have Qk: "Q = k * a + a * r + b" by (simp add: Q T distrib_left mult.commute)
  have s: "sent_after Q T k = k * a + (k - (T - b))" "sent_after Q T (Suc k) = Suc k * a + (Suc k - (T - b))"
    by (simp_all add: sent_after_def a_def b_def)
  have "sent_after Q T k \<le> Q \<and> (Q - sent_after Q T k) div r = sent_after Q T (Suc k) - sent_after Q T k"
  proof (cases "b < r")
    case True
    then have "k - (T - b) = 0" using T by linarith
    then have "sent_after Q T k = k * a" by (simp add: s(1))
    then have "Q - sent_after Q T k = a * r + b" "sent_after Q T k \<le> Q"
      using Qk by linarith+
    moreover have "k - (T - b) = 0" "Suc k - (T - b) = 0" using T True by linarith+
    then have "sent_after Q T (Suc k) - sent_after Q T k = a" unfolding s by simp
    ultimately show ?thesis using True r by simp
  next
    case False
    then have k: "k - (T - b) = b - r" "Suc k - (T - b) = Suc (b - r)" using T b by linarith+
    then have "sent_after Q T k = k * a + (b - r)" by (simp add: s(1))
    then have "Q - sent_after Q T k = (a + 1) * r" "sent_after Q T k \<le> Q"
      using False Qk by (simp_all add: distrib_right)
    moreover have "sent_after Q T (Suc k) - sent_after Q T k = a + 1" unfolding s k by simp
    ultimately show ?thesis using r by simp
  qed
  moreover have "sent_after Q T k \<le> sent_after Q T (Suc k)" by (simp add: s)
  ultimately show "sent_after Q T k \<le> Q"
    and "sent_after Q T (Suc k) = sent_after Q T k + (Q - sent_after Q T k) div (T - k)"
    by (simp_all add: r_def)
qed

lemma sent_after_step: "k < T \<Longrightarrow> (Q - sent_after Q T k) div (T - k) \<le> Q div T + 1"
proof -
  assume k: "k < T"
  have "sent_after Q T (Suc k) \<le> sent_after Q T k + (Q div T + 1)"
    by (simp add: sent_after_def)
  then show ?thesis using sent_after_Suc(2) [OF k, of Q] by linarith
qed

text \<open>The end of slice number \<open>i\<close>, counted from one, as the code adds it up.\<close>

definition deadline :: "rat \<Rightarrow> rat \<Rightarrow> nat \<Rightarrow> rat" where
  "deadline now0 len i = ((\<lambda>t. dbl (t + len)) ^^ i) now0"

definition slices_ready :: "slice_env list \<Rightarrow> nat \<Rightarrow> nat \<Rightarrow> rat \<Rightarrow> rat \<Rightarrow> bool" where
  "slices_ready ses T n now0 len \<longleftrightarrow>
     T \<le> length ses \<and>
     (\<forall>i<T. enough n (moments (ses ! i)) \<and> (\<exists>t\<in>set (nsec (ses ! i)). deadline now0 len (Suc i) \<le> t))"

lemma wait_until_returns: "\<exists>t\<in>set ts. d \<le> t \<Longrightarrow> \<exists>now. wait_until d ts = Some now"
  by (induction ts) auto

definition broke :: "slice_env \<Rightarrow> rat \<Rightarrow> bool" where
  "broke se end_time \<longleftrightarrow> stop_request se \<or> end_time \<le> microtime se"


text \<open>One round of the loop in terms of the reference.\<close>

lemma rate_loop_round:
  fixes T :: u64
  assumes k: "k < unat T" and Q: "Q < 2 ^ 64"
    and z: "z = word_of_nat k" and rest: "rest = word_of_nat (Q - sent_after Q (unat T) k)"
  shows "z < T" and "unat (if T - z = 1 then rest else rest div (T - z)) = (Q - sent_after Q (unat T) k) div (unat T - k)"
    and "z + 1 = word_of_nat (Suc k)"
    and "rest - (if T - z = 1 then rest else rest div (T - z)) = word_of_nat (Q - sent_after Q (unat T) (Suc k))"
proof -
  let ?s = "sent_after Q (unat T)"
  have uz: "unat z = k" unfolding z using k u64_lt [of T] by (intro unat_of_nat_u64) linarith
  have ur: "unat rest = Q - ?s k" unfolding rest using Q by (intro unat_of_nat_u64) simp
  show zT: "z < T" using k uz by (simp add: word_less_nat_alt)
  then have sub: "unat (T - z) = unat T - k" using uz by (simp add: unat_sub_if' word_less_nat_alt)
  have "unat (if T - z = 1 then rest else rest div (T - z)) = unat rest div unat (T - z)"
    by (simp add: unat_div)
  then show q: "unat (if T - z = 1 then rest else rest div (T - z)) = (Q - ?s k) div (unat T - k)"
    by (simp only: ur sub)
  show "z + 1 = word_of_nat (Suc k)" by (simp add: z)
  define d where "d = (if T - z = 1 then rest else rest div (T - z))"
  have "d = word_of_nat ((Q - ?s k) div (unat T - k))" unfolding q [folded d_def, symmetric] by simp
  moreover have le: "(Q - ?s k) div (unat T - k) \<le> Q - ?s k" by simp
  then have e: "Q - ?s (Suc k) = Q - ?s k - (Q - ?s k) div (unat T - k)"
    using sent_after_Suc [OF k, of Q] by linarith
  ultimately show "rest - d = word_of_nat (Q - ?s (Suc k))"
    unfolding rest e by (simp only: of_nat_diff [OF le])
qed

lemma deadline_Suc: "deadline now0 len (Suc i) = dbl (deadline now0 len i + len)"
  by (simp add: deadline_def)

lemma rate_loop_step:
  fixes T :: u64
  assumes ready: "slices_ready ses (unat T) (Q div unat T + 1) now0 len" and Q: "Q < 2 ^ 64" and k: "k < unat T"
    and inv: "thread_inv th" "supplied th pf" and len: "Timeslice th = len"
  defines "s \<equiv> sent_after Q (unat T)"
  obtains th1 pf1 ct' stop where
    "rate_loop (drop k ses) T (word_of_nat k) (word_of_nat (Q - s k)) (deadline now0 len k) ct fin th pf =
      (if stop then Some (Inr (), th1, pf1)
       else rate_loop (drop (Suc k) ses) T (word_of_nat (Suc k)) (word_of_nat (Q - s (Suc k))) (deadline now0 len (Suc k)) ct' fin
         th1 pf1)"
    and "stop \<Longrightarrow> broke (ses ! k) fin" and "thread_inv th1" and "supplied th1 pf1" and "same_config th th1"
    and "attempted th1 + of_nat (s k) = attempted th + of_nat (s (Suc k))"
proof -
  note r = rate_loop_round [OF k Q refl refl, folded s_def]
  define se where "se = ses ! k"
  have se: "drop k ses = se # drop (Suc k) ses" "enough (Q div unat T + 1) (moments se)"
      "\<exists>t\<in>set (nsec se). deadline now0 len (Suc k) \<le> t"
    using ready k by (auto simp: slices_ready_def se_def Cons_nth_drop_Suc)
  define m where "m = (Q - s k) div (unat T - k)"
  have "m \<le> Q div unat T + 1" unfolding m_def s_def by (rule sent_after_step [OF k])
  then have "enough m (moments se)" using se(2) by (simp add: enough_def)
  then obtain th1 pf1 where q: "send_queries m (moments se) th pf = Some (Inr (), th1, pf1)" "thread_inv th1"
      "supplied th1 pf1" "same_config th th1" "attempted th1 = attempted th + of_nat m"
    using send_queries_ok [OF inv] by blast
  obtain now where w: "wait_until (deadline now0 len (Suc k)) (nsec se) = Some now"
    using wait_until_returns [OF se(3)] by blast
  let ?rec = "\<lambda>ct. rate_loop (drop (Suc k) ses) T (word_of_nat (Suc k)) (word_of_nat (Q - s (Suc k)))
    (deadline now0 len (Suc k)) ct fin th1 pf1"
  have step: "rate_loop (drop k ses) T (word_of_nat k) (word_of_nat (Q - s k)) (deadline now0 len k) ct fin th pf =
      (if now > ct then if broke se fin then Some (Inr (), th1, pf1) else ?rec (dbl (now + dbl (1 / 10)))
       else ?rec ct)"
    by (subst rate_loop.simps)
       (use r q(1) w len in \<open>simp add: se(1) Let_def broke_def add.commute [of "1 :: u64"] flip: deadline_Suc m_def\<close>)
  have "s (Suc k) = s k + m" unfolding s_def m_def by (rule sent_after_Suc [OF k])
  with q step show thesis
    by (intro that [where stop = "now > ct \<and> broke se fin" and ct' = "if now > ct then dbl (now + dbl (1 / 10)) else ct"])
      (auto simp: se_def add_ac)
qed

lemma add_chain:
  fixes a :: "'a :: ab_group_add"
  assumes "c + y = b + z" and "b + x = a + y"
  shows "c + x = a + z"
proof -
  have "c = b + z - y" "x = a + y - b" using assms by (simp_all add: eq_diff_eq add.commute)
  then show ?thesis by simp
qed

lemma rate_loop_ok:
  fixes T :: u64
  assumes ready: "slices_ready ses (unat T) (Q div unat T + 1) now0 len" and Q: "Q < 2 ^ 64"
  defines "s \<equiv> sent_after Q (unat T)"
  shows "k \<le> unat T \<Longrightarrow> thread_inv th \<Longrightarrow> supplied th pf \<Longrightarrow> Timeslice th = len \<Longrightarrow>
    \<exists>j th' pf'. rate_loop (drop k ses) T (word_of_nat k) (word_of_nat (Q - s k)) (deadline now0 len k) ct fin th pf =
        Some (Inr (), th', pf') \<and>
      j \<le> unat T \<and> (j < unat T \<longrightarrow> 0 < j \<and> broke (ses ! (j - 1)) fin) \<and>
      attempted th' + of_nat (s k) = attempted th + of_nat (s j) \<and>
      thread_inv th' \<and> supplied th' pf' \<and> same_config th th'"
proof (induction "unat T - k" arbitrary: k ct th pf)
  case 0
  then have "k = unat T" by simp
  then have "\<not> (word_of_nat k :: u64) < T" by simp
  with 0 show ?case by (intro exI [of _ k] exI [of _ th] exI [of _ pf]) (simp add: rate_loop.simps)
next
  case (Suc n)
  then have k: "k < unat T" and n: "n = unat T - Suc k" by simp_all
  obtain th1 pf1 ct' stop where st:
    "rate_loop (drop k ses) T (word_of_nat k) (word_of_nat (Q - s k)) (deadline now0 len k) ct fin th pf =
      (if stop then Some (Inr (), th1, pf1)
       else rate_loop (drop (Suc k) ses) T (word_of_nat (Suc k)) (word_of_nat (Q - s (Suc k))) (deadline now0 len (Suc k)) ct' fin
         th1 pf1)"
    "stop \<Longrightarrow> broke (ses ! k) fin" and q: "thread_inv th1" "supplied th1 pf1" "same_config th th1"
    "attempted th1 + of_nat (s k) = attempted th + of_nat (s (Suc k))"
    using rate_loop_step [OF ready Q k Suc.prems(2-4), folded s_def] by metis
  show ?case
  proof (cases stop)
    case True
    with k q st show ?thesis by (intro exI [of _ "Suc k"] exI [of _ th1] exI [of _ pf1]) simp
  next
    case False
    have "Timeslice th1 = len" using q(3) Suc.prems(4) by (simp add: same_config_def)
    then obtain j th' pf' where "rate_loop (drop k ses) T (word_of_nat k) (word_of_nat (Q - s k)) (deadline now0 len k) ct fin th pf =
          Some (Inr (), th', pf')" "j \<le> unat T"
        "j < unat T \<longrightarrow> 0 < j \<and> broke (ses ! (j - 1)) fin"
        "attempted th' + of_nat (s (Suc k)) = attempted th1 + of_nat (s j)"
        "thread_inv th'" "supplied th' pf'" "same_config th1 th'"
      using Suc.hyps(1) [OF n _ q(1,2), of ct'] k False st(1) by auto
    moreover from this(4) have "attempted th' + of_nat (s k) = attempted th + of_nat (s j)" by (rule add_chain [OF _ q(4)])
    ultimately show ?thesis
      using same_config_trans [OF q(3)] by (intro exI [of _ j] exI [of _ th'] exI [of _ pf']) simp
  qed
qed

text \<open>The number of slices is at least one and fits the type.\<close>

definition slice_ok :: "int \<Rightarrow> rat \<Rightarrow> bool" where
  "slice_ok secs len \<longleftrightarrow> 1 \<le> secs \<and> secs \<le> 2147483 \<and> 1 / 100000 \<le> len \<and> len \<le> 1"

lemma timeslices_bounds:
  assumes "slice_ok secs len"
  shows "of_int secs \<le> timeslices secs len" and "timeslices secs len < 2 ^ 64"
proof -
  define d where "d = dbl (len * 1000)"
  have secs: "1 \<le> secs" "secs \<le> 2147483" and len: "1 / 100000 \<le> len" "len \<le> 1"
    using assms by (simp_all add: slice_ok_def)
  have "d \<le> of_int 1000" unfolding d_def using len by (intro dbl.rnd_le_int) simp_all
  moreover have d0: "1 / 1000 \<le> d"
  proof -
    have "1 / 1000 \<le> (1 / 100 :: rat) * (1 - 1 / 2 ^ 53)" by simp
    also have "\<dots> \<le> (len * 1000) * (1 - 1 / 2 ^ 53)" using len by (intro mult_right_mono) simp_all
    also have "\<dots> \<le> d" unfolding d_def using len by (intro dbl.rnd_lower) simp
    finally show ?thesis .
  qed
  ultimately have lo: "of_int secs \<le> of_int (secs * 1000) / d" and hi: "of_int (secs * 1000) / d \<le> of_int (2 ^ 41)"
  proof -
    have d: "0 < d" "d \<le> 1000" using d0 \<open>d \<le> of_int 1000\<close> by simp_all
    have "of_int secs * d \<le> of_int (secs * 1000)"
      using d secs mult_left_mono [OF d(2), of "of_int secs"] by simp
    then show "of_int secs \<le> of_int (secs * 1000) / d" using d by (simp add: pos_le_divide_eq)
    have "(of_int (secs * 1000) :: rat) \<le> 2147483000" using secs by (simp flip: of_int_le_iff)
    also have "\<dots> \<le> of_int (2 ^ 41) * (1 / 1000)" by simp
    also have "\<dots> \<le> of_int (2 ^ 41) * d" using d0 by (intro mult_left_mono) simp_all
    finally show "of_int (secs * 1000) / d \<le> of_int (2 ^ 41)" using d by (simp add: pos_divide_le_eq)
  qed
  have "dbl (of_int (secs * 1000)) = of_int (secs * 1000)" using secs by (intro dbl.rnd_int) simp
  then have e: "timeslices secs len = dbl (of_int (secs * 1000) / d)" by (simp only: timeslices_def d_def)
  show "of_int secs \<le> timeslices secs len" unfolding e using secs lo by (intro dbl.int_le_rnd) simp_all
  have "timeslices secs len \<le> of_int (2 ^ 41)" unfolding e using hi by (intro dbl.rnd_le_int) simp_all
  then show "timeslices secs len < 2 ^ 64" by simp
qed

text \<open>What a thread with a rate limit is to do: so many queries in so many slices.\<close>

definition planned :: "sender_thread \<Rightarrow> nat" where
  "planned th = nat (runtime th) * unat (queryrate th)"

definition slice_count :: "sender_thread \<Rightarrow> nat" where
  "slice_count th = nat \<lfloor>timeslices (runtime th) (Timeslice th)\<rfloor>"

lemma slice_count_bounds:
  assumes "slice_ok (runtime th) (Timeslice th)"
  shows "nat (runtime th) \<le> slice_count th" and "0 < slice_count th" and "slice_count th < 2 ^ 64"
proof -
  note b = timeslices_bounds [OF assms]
  define f where "f = \<lfloor>timeslices (runtime th) (Timeslice th)\<rfloor>"
  have "runtime th \<le> f" unfolding f_def using b(1) by (simp add: le_floor_iff)
  moreover have "f < 2 ^ 64" unfolding f_def using b(2) by (simp add: floor_less_iff)
  moreover have "1 \<le> runtime th" using assms by (simp add: slice_ok_def)
  moreover have "slice_count th = nat f" by (simp add: slice_count_def f_def)
  ultimately show "nat (runtime th) \<le> slice_count th" and "0 < slice_count th" and "slice_count th < 2 ^ 64"
    by (simp_all add: nat_less_iff)
qed

lemma runWithRateLimit_ok:
  assumes inv: "thread_inv th" "supplied th pf" and ok: "slice_ok (runtime th) (Timeslice th)"
    and Q: "planned th < 2 ^ 64"
    and ready: "slices_ready ses (slice_count th) (planned th div slice_count th + 1) now0 (Timeslice th)"
  shows "\<exists>j th' pf'. runWithRateLimit ses now0 start th pf = Some (Inr (), th', pf') \<and> j \<le> slice_count th \<and>
    (j < slice_count th \<longrightarrow> 0 < j \<and> broke (ses ! (j - 1)) (dbl (start + of_int (runtime th)))) \<and>
    attempted th' = attempted th + of_nat (sent_after (planned th) (slice_count th) j) \<and>
    thread_inv th' \<and> supplied th' pf' \<and> same_config th th'"
proof -
  let ?th = "th\<lparr>verbose := True\<rparr>"
  define T :: u64 where "T = word_of_int \<lfloor>timeslices (runtime th) (Timeslice th)\<rfloor>"
  note sc = slice_count_bounds [OF ok]
  have "T = word_of_nat (slice_count th)"
    using sc by (simp add: T_def slice_count_def)
  then have T: "unat T = slice_count th" using sc(3) by (simp add: unat_of_nat_u64)
  have "unat (word_of_int (runtime th) * queryrate th) = planned th"
  proof -
    have "0 \<le> runtime th" using ok by (simp add: slice_ok_def)
    then have "(word_of_int (runtime th) :: u64) = word_of_nat (nat (runtime th))" by simp
    then have "word_of_int (runtime th) * queryrate th = (word_of_nat (planned th) :: u64)"
      by (simp add: planned_def)
    then show ?thesis using Q by (simp add: unat_of_nat_u64)
  qed
  then have q0: "word_of_int (runtime th) * queryrate th = word_of_nat (planned th - sent_after (planned th) (unat T) 0)"
    using sc(2) T by (metis diff_zero of_nat_unat sent_after_0 ucast_id)
  have "thread_inv ?th" "supplied ?th pf" using inv by (simp_all add: thread_inv_def supplied_def)
  from rate_loop_ok [OF ready [folded T] Q, of 0 ?th pf "dbl (now0 + dbl (1 / 10))" "dbl (start + of_int (runtime th))"] this
  obtain j th' pf' where r: "rate_loop ses T 0 (word_of_int (runtime th) * queryrate th) now0 (dbl (now0 + dbl (1 / 10)))
        (dbl (start + of_int (runtime th))) ?th pf = Some (Inr (), th', pf')"
      "j \<le> unat T" "j < unat T \<longrightarrow> 0 < j \<and> broke (ses ! (j - 1)) (dbl (start + of_int (runtime th)))"
      "attempted th' = attempted th + of_nat (sent_after (planned th) (unat T) j)"
      "thread_inv th'" "supplied th' pf'" "same_config th th'"
    using sc(2) T by (auto simp: deadline_def q0 attempted_def same_config_def)
  have "1 \<le> timeslices (runtime th) (Timeslice th)" "-(2 ^ 31) \<le> runtime th * 1000" "runtime th * 1000 < 2 ^ 31"
      "Timeslice th \<noteq> 0"
    using timeslices_bounds(1) [OF ok] ok by (auto simp: slice_ok_def)
  then have "runWithRateLimit ses now0 start th pf = Some (Inr (), th', pf')"
    using timeslices_bounds(2) [OF ok] r(1) by (simp add: runWithRateLimit_def Let_def flip: T_def)
  with r(2-) show ?thesis by (intro exI [of _ j] exI [of _ th'] exI [of _ pf']) (simp add: T)
qed

subsection \<open>A whole run\<close>

lemma timeout_loop_returns: "\<exists>w\<in>set ws. end_time \<le> fst w \<Longrightarrow> \<exists>now. timeout_loop ws end_time ct = Some now"
  by (induction ws end_time ct rule: timeout_loop.induct) auto

text \<open>The state in which the loops start.\<close>

definition started :: "sender_thread \<Rightarrow> sender_thread" where
  "started th = reset_counters (if spoofingEnabled th then th
     else th\<lparr>pkt := setSource (sourceip th) 0x4567 (pkt th)\<rparr>)"

lemma started_ok:
  assumes "thread_inv th" and "supplied th pf"
  shows "thread_inv (started th)" "supplied (started th) pf" "same_config th (started th)" "attempted (started th) = 0"
    "dnsseccounter (started th) = 0"
    "\<not> spoofingEnabled th \<Longrightarrow> load32 12 (pkt_buffer (pkt (started th))) = addr (sourceip th)"
proof -
  have p: "packet_inv (pkt th)" and len: "length (pkt_buffer (pkt th)) = 4096"
    using assms(1) by (simp_all add: thread_inv_def packet_inv_def headers_ok_def)
  then have "packet_inv (setSource (sourceip th) 0x4567 (pkt th))" by (intro setters_inv)
  then show "thread_inv (started th)"
    using assms(1) len by (simp add: started_def reset_counters_def thread_inv_def setSource_def layout)
  show "supplied (started th) pf" "same_config th (started th)" "attempted (started th) = 0" "dnsseccounter (started th) = 0"
    using assms(2) by (simp_all add: started_def reset_counters_def supplied_def same_config_def attempted_def)
  show "load32 12 (pkt_buffer (pkt (started th))) = addr (sourceip th)" if "\<not> spoofingEnabled th"
    using that len by (simp add: started_def reset_counters_def setSource_def layout)
qed

definition waits_end :: "run_env \<Rightarrow> sender_thread \<Rightarrow> bool" where
  "waits_end env th \<longleftrightarrow> (\<exists>w\<in>set (run_waits env). dbl (run_timeout_start env + of_int (timeout th)) \<le> fst w)"

lemma th_run_finish:
  assumes "th_payload th" and "waits_end env th"
    and "(if queryrate th > 0 then runWithRateLimit (run_slices env) (run_now0 env) (run_start2 env) (started th) pf
          else runWithoutRateLimit (run_free env) (run_start2 env) (started th) pf) = Some (Inr (), th', pf')"
    and "same_config th th'"
  shows "th_run env th pf = Some (Inr (), th'\<lparr>duration := dbl (run_end env - run_start env)\<rparr>, pf')"
proof -
  let ?th = "th'\<lparr>duration := dbl (run_end env - run_start env)\<rparr>"
  have "timeout ?th = timeout th" using assms(4) by (simp add: same_config_def)
  with assms(2) have "\<exists>w\<in>set (run_waits env). dbl (run_timeout_start env + of_int (timeout ?th)) \<le> fst w"
    by (simp only: waits_end_def)
  from timeout_loop_returns [OF this] obtain now where
    "waitForTimeout (run_waits env) (run_timeout_start env) ?th = Some now"
    by (auto simp: waitForTimeout_def)
  moreover have "queryrate (started th) = queryrate th" by (simp add: started_def reset_counters_def)
  ultimately show ?thesis
    using assms(1,3) by (cases "0 < queryrate th") (simp_all add: th_run_def Let_def flip: started_def)
qed

lemma th_run_limited:
  assumes "thread_inv th" and "supplied th pf" and "th_payload th" and "queryrate th > 0"
    and "slice_ok (runtime th) (Timeslice th)" and "planned th < 2 ^ 64"
    and "slices_ready (run_slices env) (slice_count th) (planned th div slice_count th + 1) (run_now0 env) (Timeslice th)"
    and "waits_end env th"
  shows "\<exists>j th' pf'. th_run env th pf = Some (Inr (), th', pf') \<and> thread_inv th' \<and> supplied th' pf' \<and> same_config th th' \<and>
    j \<le> slice_count th \<and> unat (attempted th') = sent_after (planned th) (slice_count th) j \<and>
    unat (attempted th') \<le> planned th \<and>
    (j = slice_count th \<longrightarrow> unat (attempted th') = planned th) \<and>
    (j < slice_count th \<longrightarrow>
      0 < j \<and> broke (run_slices env ! (j - 1)) (dbl (run_start2 env + of_int (runtime th))))"
proof -
  note st = started_ok [OF assms(1,2)]
  have c: "planned (started th) = planned th" "slice_count (started th) = slice_count th"
      "runtime (started th) = runtime th" "Timeslice (started th) = Timeslice th"
    using st(3) by (simp_all add: planned_def slice_count_def same_config_def)
  obtain j th' pf' where r: "runWithRateLimit (run_slices env) (run_now0 env) (run_start2 env) (started th) pf =
        Some (Inr (), th', pf')" "j \<le> slice_count th"
      "j < slice_count th \<longrightarrow> 0 < j \<and> broke (run_slices env ! (j - 1)) (dbl (run_start2 env + of_int (runtime th)))"
      "attempted th' = of_nat (sent_after (planned th) (slice_count th) j)"
      "thread_inv th'" "supplied th' pf'" "same_config (started th) th'"
    using runWithRateLimit_ok [OF st(1,2), of "run_slices env" "run_now0 env" "run_start2 env"] assms(5-7)
    by (auto simp: c st(4))
  note sc = slice_count_bounds [OF assms(5)]
  have le: "sent_after (planned th) (slice_count th) j \<le> planned th"
    using r(2) sc(2) sent_after_Suc(1) [of j] sent_after_total by (cases "j < slice_count th") auto
  then have "unat (attempted th') = sent_after (planned th) (slice_count th) j"
    using assms(6) by (simp only: r(4)) (intro unat_of_nat_u64, simp)
  moreover have "th_run env th pf = Some (Inr (), th'\<lparr>duration := dbl (run_end env - run_start env)\<rparr>, pf')"
    using assms(3,4,8) r(1) same_config_trans [OF st(3) r(7)] by (intro th_run_finish) simp_all
  ultimately show ?thesis
    using r(2,3,5,6) sc(2) le same_config_trans [OF st(3) r(7)]
    by (intro exI [of _ j] exI [of _ "th'\<lparr>duration := dbl (run_end env - run_start env)\<rparr>"] exI [of _ pf'])
       (auto simp: attempted_def thread_inv_def supplied_def sent_after_total same_config_def)
qed

text \<open>
  C4. The rate limit: a run of a thread for \<open>runtime\<close> seconds at \<open>queryrate\<close> queries per second
  ends, and sends exactly \<open>runtime * queryrate\<close> packets (each counted as sent, as an error or as
  empty), spread over the time slices so that after \<open>j\<close> of \<open>T\<close> slices \<open>j\<close> times the average were
  sent, rounded down, and the remainder in the last slices; a run that a stop request or the clock
  ends early has sent exactly the share of the slices that were begun, so never too much.
\<close>

theorem th_run_rate_limited:
  assumes "thread_inv th" and "supplied th pf" and "th_payload th" and "queryrate th > 0"
    and "slice_ok (runtime th) (Timeslice th)" and "planned th < 2 ^ 64"
    and "slices_ready (run_slices env) (slice_count th) (planned th div slice_count th + 1) (run_now0 env) (Timeslice th)"
    and "waits_end env th"
  shows "\<exists>j th' pf'. th_run env th pf = Some (Inr (), th', pf') \<and> thread_inv th' \<and> supplied th' pf' \<and>
    j \<le> slice_count th \<and>
    unat (attempted th') = sent_after (planned th) (slice_count th) j \<and>
    (j = slice_count th \<longrightarrow> unat (attempted th') = planned th) \<and>
    (j < slice_count th \<longrightarrow>
      0 < j \<and> broke (run_slices env ! (j - 1)) (dbl (run_start2 env + of_int (runtime th))))"
  using th_run_limited [OF assms] by blast

text \<open>Two queries in one slice of one second.\<close>

definition demo_limited :: sender_thread where
  "demo_limited = demo_thread\<lparr>queryrate := 2, runtime := 1, Timeslice := 1\<rparr>"

definition demo_run :: run_env where
  "demo_run = \<lparr>run_start = 0, run_now0 = 0, run_start2 = 0,
     run_slices = [\<lparr>moments = replicate 3 \<lparr>others = 1, attempts = [demo_env]\<rparr>, nsec = [1 / 2, 1],
       stop_request = False, microtime = 0\<rparr>],
     run_free = [], run_end = 1, run_timeout_start = 0, run_waits = [(5, False)]\<rparr>"

theorem th_run_rate_limited_witness:
  "\<exists>th' pf'. th_run demo_run demo_limited demo_payload = Some (Inr (), th', pf') \<and> attempted th' = 2"
proof -
  have i: "dbl 1000 = 1000" "dbl 5 = 5" using dbl.rnd_int [of 1000] dbl.rnd_int [of 5] by simp_all
  have f: "runtime demo_limited = 1" "Timeslice demo_limited = 1" "unat (queryrate demo_limited) = 2"
      "timeout demo_limited = 5" "queryrate demo_limited > 0" "th_payload demo_limited"
    by (simp_all add: demo_limited_def demo_thread_def DNSSenderThread_new_def)
  then have c: "planned demo_limited = 2" "slice_count demo_limited = 1"
    by (simp_all add: planned_def slice_count_def timeslices_def i)
  have "thread_inv demo_limited" "supplied demo_limited demo_payload"
    using demo_thread_ok by (simp_all add: demo_limited_def thread_inv_def supplied_def)
  moreover have "slice_ok (runtime demo_limited) (Timeslice demo_limited)" by (simp add: f slice_ok_def)
  moreover have "slices_ready (run_slices demo_run) (slice_count demo_limited)
      (planned demo_limited div slice_count demo_limited + 1) (run_now0 demo_run) (Timeslice demo_limited)"
    by (simp add: c f slices_ready_def demo_run_def enough_def deadline_def)
  moreover have "waits_end demo_run demo_limited" by (simp add: waits_end_def demo_run_def f i)
  ultimately obtain th' pf' where r: "th_run demo_run demo_limited demo_payload = Some (Inr (), th', pf')"
      "unat (attempted th') = 2"
    using th_run_rate_limited [of demo_limited demo_payload demo_run] f(5,6) by (auto simp: c)
  then have "attempted th' = 2" by (simp add: word_unat_eq_iff)
  with r(1) show ?thesis by blast
qed

subsection \<open>The share of DNSSEC queries\<close>

text \<open>
  The reference: of the packets numbered from zero, those with the DNSSEC option are the ones at
  which \<open>i * rate div 100\<close> grows.
\<close>

definition dnssec_at :: "nat \<Rightarrow> nat \<Rightarrow> bool" where
  "dnssec_at rate i \<longleftrightarrow> i * rate div 100 < Suc i * rate div 100"

lemma div_step:
  fixes a r :: nat
  assumes "r \<le> 100"
  shows "(a + r) div 100 = a div 100 + (if 100 \<le> a mod 100 + r then 1 else 0)"
    and "(a + r) mod 100 = a mod 100 + r - (if 100 \<le> a mod 100 + r then 100 else 0)"
proof -
  have a: "a = a div 100 * 100 + a mod 100" by simp
  define x y where "x = a div 100" and "y = a mod 100"
  have xy: "a = x * 100 + y" "y < 100" using a by (simp_all add: x_def y_def)
  have d: "(a + r) div 100 = x + (if 100 \<le> y + r then 1 else 0)"
    unfolding xy(1) using xy(2) assms by (cases "100 \<le> y + r") (auto intro!: div_nat_eqI)
  then show "(a + r) div 100 = a div 100 + (if 100 \<le> a mod 100 + r then 1 else 0)"
    by (simp only: x_def y_def)
  have "(a + r) mod 100 = a + r - (a + r) div 100 * 100" by (simp add: minus_div_mult_eq_mod)
  also have "\<dots> = y + r - (if 100 \<le> y + r then 100 else 0)" unfolding d using xy(1) by auto
  finally show "(a + r) mod 100 = a mod 100 + r - (if 100 \<le> a mod 100 + r then 100 else 0)"
    by (simp only: y_def)
qed

lemma dnssec_at_mod: "rate \<le> 100 \<Longrightarrow> dnssec_at rate i \<longleftrightarrow> 100 \<le> i * rate mod 100 + rate"
  using div_step(1) [of rate "i * rate"] by (simp add: dnssec_at_def add.commute)

lemma dnssec_share: "rate \<le> 100 \<Longrightarrow> card {i. i < k \<and> dnssec_at rate i} = k * rate div 100"
proof (induction k)
  case (Suc k)
  have "{i. i < Suc k \<and> dnssec_at rate i} = {i. i < k \<and> dnssec_at rate i} \<union> (if dnssec_at rate k then {k} else {})"
    by (auto simp: less_Suc_eq)
  then have "card {i. i < Suc k \<and> dnssec_at rate i} = k * rate div 100 + (if dnssec_at rate k then 1 else 0)"
    using Suc by simp
  then show ?case
    using div_step(1) [OF Suc.prems, of "k * rate"] dnssec_at_mod [OF Suc.prems, of k]
    by (simp add: add.commute)
qed simp

text \<open>The state after \<open>i\<close> packets of a text payload.\<close>

lemma dnssec_counter_step:
  assumes "thread_inv th" and "\<not> th_payloadIsPcap th" and "dnsseccounter th = int (i * nat (DnssecRate th) mod 100)"
  shows "dnssec_due th \<longleftrightarrow> dnssec_at (nat (DnssecRate th)) i"
    and "next_counter th = int (Suc i * nat (DnssecRate th) mod 100)"
proof -
  have r: "nat (DnssecRate th) \<le> 100" "0 \<le> DnssecRate th"
    using assms(1) by (simp_all add: thread_inv_def nat_le_iff)
  show due: "dnssec_due th \<longleftrightarrow> dnssec_at (nat (DnssecRate th)) i"
    unfolding dnssec_at_mod [OF r(1)] dnssec_due_def assms(3) using assms(2) r(2) by linarith
  have "Suc i * nat (DnssecRate th) mod 100 =
      i * nat (DnssecRate th) mod 100 + nat (DnssecRate th) - (if dnssec_at (nat (DnssecRate th)) i then 100 else 0)"
    using div_step(2) [OF r(1), of "i * nat (DnssecRate th)"] dnssec_at_mod [OF r(1), of i] by (simp add: add.commute)
  then show "next_counter th = int (Suc i * nat (DnssecRate th) mod 100)"
    unfolding next_counter_def due assms(3) using assms(2) r dnssec_at_mod [OF r(1), of i]
    by (auto simp: of_nat_diff)
qed

lemma send_queries_Suc:
  "i < length ms \<Longrightarrow> send_queries i ms th pf = Some (Inr (), th1, pf1) \<Longrightarrow>
   send_at (ms ! i) th1 pf1 = Some (Inr (), th2, pf2) \<Longrightarrow> send_queries (Suc i) ms th pf = Some (Inr (), th2, pf2)"
proof (induction i arbitrary: ms th pf)
  case 0
  then show ?case by (cases ms) auto
next
  case (Suc i)
  obtain m ms' where ms: "ms = m # ms'" using Suc.prems by (cases ms) auto
  then obtain th' pf' where m: "send_at m th pf = Some (Inr (), th', pf')" and
      "send_queries i ms' th' pf' = Some (Inr (), th1, pf1)"
    using Suc.prems(2) by (auto split: option.splits sum.splits)
  then have "send_queries (Suc i) ms' th' pf' = Some (Inr (), th2, pf2)"
    using Suc.IH Suc.prems by (simp add: ms)
  then show ?case using m by (simp add: ms del: send_queries.simps(3)) (simp add: send_queries.simps(3))
qed

lemma send_queries_step:
  assumes "thread_inv th1" and "supplied th1 pf1" and "enough k ms" and "i < k"
    and "send_queries i ms th pf = Some (Inr (), th1, pf1)"
  obtains th2 pf2 where "send_queries (Suc i) ms th pf = Some (Inr (), th2, pf2)" and "thread_inv th2"
    and "supplied th2 pf2" and "same_config th1 th2" and "dnsseccounter th2 = next_counter th1"
    and "sent (hd (attempts (ms ! i))) (hd (rotate (others (ms ! i)) (payload_cycle pf1))) th1 th2"
    and "payload_cycle pf2 = rotate (others (ms ! i) + 1) (payload_cycle pf1)"
proof -
  have i: "i < length ms" and a: "attempts (ms ! i) \<noteq> []" using assms(3,4) by (auto simp: enough_def)
  show ?thesis
    by (rule send_at_ok [OF assms(1,2) a]) (rule that [OF send_queries_Suc [OF i assms(5)]])
qed

lemma send_queries_counter:
  assumes "thread_inv th" and "supplied th pf" and "\<not> th_payloadIsPcap th" and "dnsseccounter th = 0"
    and "enough k ms"
  shows "i \<le> k \<Longrightarrow> \<exists>th1 pf1. send_queries i ms th pf = Some (Inr (), th1, pf1) \<and> thread_inv th1 \<and>
    supplied th1 pf1 \<and> same_config th th1 \<and> dnsseccounter th1 = int (i * nat (DnssecRate th) mod 100)"
proof (induction i)
  case 0
  then show ?case using assms by simp
next
  case (Suc i)
  then obtain th1 pf1 where s: "send_queries i ms th pf = Some (Inr (), th1, pf1)" "thread_inv th1" "supplied th1 pf1"
      "same_config th th1" "dnsseccounter th1 = int (i * nat (DnssecRate th) mod 100)"
    by auto
  then have c: "DnssecRate th1 = DnssecRate th" "\<not> th_payloadIsPcap th1"
    using assms(3) by (simp_all add: same_config_def)
  obtain th2 pf2 where "send_queries (Suc i) ms th pf = Some (Inr (), th2, pf2)" "thread_inv th2" "supplied th2 pf2"
      "same_config th1 th2" "dnsseccounter th2 = next_counter th1"
    using send_queries_step [OF s(2,3) assms(5) _ s(1)] Suc.prems by (metis Suc_le_eq)
  with s(2,4,5) show ?case
    using dnssec_counter_step(2) [of th1 i] c same_config_trans [OF s(4)] by auto
qed

text \<open>
  C10. The share of DNSSEC queries is exact: of the first \<open>k\<close> packets that a thread sends from a text
  payload, \<open>k * rate div 100\<close> carry the DNSSEC option, spread evenly: packet \<open>i\<close> carries it when
  \<open>i * rate div 100\<close> grows there, and every other packet is the query as it was compiled.
\<close>

theorem dnssec_rate_exact:
  assumes "thread_inv th" and "supplied th pf" and "\<not> th_payloadIsPcap th" and "dnsseccounter th = 0"
    and "enough k ms" and "rate = nat (DnssecRate th)"
  shows "(\<forall>i<k. \<exists>th1 pf1 th2 pf2 q ts.
      send_queries i ms th pf = Some (Inr (), th1, pf1) \<and> send_queries (Suc i) ms th pf = Some (Inr (), th2, pf2) \<and>
      q \<in> set (payload_cycle pf1) \<and>
      drop 28 (wire th2) = stamped ts (if dnssec_at rate i then dnssec_message 4096 q else q)) \<and>
    card {i. i < k \<and> dnssec_at rate i} = k * rate div 100"
proof (intro conjI allI impI)
  fix i assume i: "i < k"
  then obtain th1 pf1 where s: "send_queries i ms th pf = Some (Inr (), th1, pf1)" "thread_inv th1" "supplied th1 pf1"
      "same_config th th1" "dnsseccounter th1 = int (i * nat (DnssecRate th) mod 100)"
    using send_queries_counter [OF assms(1-5), of i] by auto
  then have c: "DnssecRate th1 = DnssecRate th" "\<not> th_payloadIsPcap th1"
    using assms(3) by (simp_all add: same_config_def)
  let ?q = "hd (rotate (others (ms ! i)) (payload_cycle pf1))"
  obtain th2 pf2 where t: "send_queries (Suc i) ms th pf = Some (Inr (), th2, pf2)"
      "sent (hd (attempts (ms ! i))) ?q th1 th2"
    using send_queries_step [OF s(2,3) assms(5) i s(1)] by blast
  have "payload_cycle pf1 \<noteq> []" using s(3) by (auto simp: supplied_def payload_ready_def payload_cycle_def)
  then have "?q \<in> set (payload_cycle pf1)" by (metis hd_in_set rotate_is_Nil_conv set_rotate)
  moreover have "dnssec_due th1 \<longleftrightarrow> dnssec_at rate i"
    using dnssec_counter_step(1) [OF s(2) c(2), of i] s(5) c(1) assms(6) by simp
  then have "drop 28 (wire th2) = stamped (getQueryTimestamp (env_clock (hd (attempts (ms ! i)))))
      (if dnssec_at rate i then dnssec_message 4096 ?q else ?q)"
    using t(2) c(2) by (simp add: sent_def base_message_def)
  ultimately show "\<exists>th1 pf1 th2 pf2 q ts.
      send_queries i ms th pf = Some (Inr (), th1, pf1) \<and> send_queries (Suc i) ms th pf = Some (Inr (), th2, pf2) \<and>
      q \<in> set (payload_cycle pf1) \<and>
      drop 28 (wire th2) = stamped ts (if dnssec_at rate i then dnssec_message 4096 q else q)"
    using s(1) t(1) by blast
next
  show "card {i. i < k \<and> dnssec_at rate i} = k * rate div 100"
    by (rule dnssec_share) (use assms(1,6) in \<open>simp add: thread_inv_def nat_le_iff\<close>)
qed

theorem dnssec_rate_exact_witness:
  "\<exists>th2 pf2 q ts. send_queries 4 (replicate 4 \<lparr>others = 0, attempts = [demo_env]\<rparr>) demo_thread demo_payload =
     Some (Inr (), th2, pf2) \<and> drop 28 (wire th2) = stamped ts (dnssec_message 4096 q)"
proof -
  have d: "\<not> th_payloadIsPcap demo_thread" "dnsseccounter demo_thread = 0" "30 = nat (DnssecRate demo_thread)"
    by (simp_all add: demo_thread_def DNSSenderThread_new_def)
  have e: "enough 4 (replicate 4 \<lparr>others = 0, attempts = [demo_env]\<rparr>)" by (simp add: enough_def)
  have "\<forall>i<4. \<exists>th1 pf1 th2 pf2 q ts.
      send_queries i (replicate 4 \<lparr>others = 0, attempts = [demo_env]\<rparr>) demo_thread demo_payload = Some (Inr (), th1, pf1) \<and>
      send_queries (Suc i) (replicate 4 \<lparr>others = 0, attempts = [demo_env]\<rparr>) demo_thread demo_payload = Some (Inr (), th2, pf2) \<and>
      q \<in> set (payload_cycle pf1) \<and>
      drop 28 (wire th2) = stamped ts (if dnssec_at 30 i then dnssec_message 4096 q else q)"
    by (rule conjunct1 [OF dnssec_rate_exact [OF demo_thread_ok d(1,2) e d(3)]])
  then have "\<exists>th1 pf1 th2 pf2 q ts.
      send_queries 3 (replicate 4 \<lparr>others = 0, attempts = [demo_env]\<rparr>) demo_thread demo_payload = Some (Inr (), th1, pf1) \<and>
      send_queries (Suc 3) (replicate 4 \<lparr>others = 0, attempts = [demo_env]\<rparr>) demo_thread demo_payload = Some (Inr (), th2, pf2) \<and>
      q \<in> set (payload_cycle pf1) \<and>
      drop 28 (wire th2) = stamped ts (if dnssec_at 30 3 then dnssec_message 4096 q else q)"
    by (rule allE [of _ 3]) (erule mp, simp)
  moreover have "dnssec_at 30 3" "Suc 3 = 4" by (simp_all add: dnssec_at_def)
  ultimately show ?thesis by (simp only: if_True) blast
qed

subsection \<open>Runs without a limit\<close>

definition stopping :: "rat \<Rightarrow> moment \<times> bool \<times> rat \<Rightarrow> bool" where
  "stopping end_time e \<longleftrightarrow> fst (snd e) \<or> snd (snd e) > end_time"

lemma free_loop_block:
  assumes "thread_inv th" and "supplied th pf" and "\<forall>e\<in>set es. attempts (fst e) \<noteq> []"
    and "n < length es" and "pc + int (Suc n) = 10001"
  shows "\<exists>th1 pf1. thread_inv th1 \<and> supplied th1 pf1 \<and> same_config th th1 \<and>
    attempted th1 = attempted th + of_nat (Suc n) \<and>
    free_loop es pc fin th pf =
      (if stopping fin (es ! n) then Some (Inr (), th1, pf1) else free_loop (drop (Suc n) es) 0 fin th1 pf1)"
  using assms
proof (induction n arbitrary: es pc th pf)
  case 0
  then obtain m stop now es' where es: "es = (m, stop, now) # es'" by (cases es) auto
  then have m: "attempts m \<noteq> []" using 0(3) by auto
  obtain th1 pf1 where "send_at m th pf = Some (Inr (), th1, pf1)" "thread_inv th1" "supplied th1 pf1"
      "same_config th th1" "attempted th1 = attempted th + 1"
    using send_at_ok [OF 0(1,2) m] by metis
  with 0(5) show ?case
    by (intro exI [of _ th1] exI [of _ pf1]) (simp add: es stopping_def)
next
  case (Suc n)
  then obtain m stop now es' where es: "es = (m, stop, now) # es'" by (cases es) auto
  then have m: "attempts m \<noteq> []" using Suc.prems(3) by auto
  obtain th1 pf1 where s: "send_at m th pf = Some (Inr (), th1, pf1)" "thread_inv th1" "supplied th1 pf1"
      "same_config th th1" "attempted th1 = attempted th + 1"
    using send_at_ok [OF Suc.prems(1,2) m] by metis
  have p: "\<forall>e\<in>set es'. attempts (fst e) \<noteq> []" "n < length es'" "pc + 1 + int (Suc n) = 10001"
    using Suc.prems(3-5) es by auto
  obtain th2 pf2 where t: "thread_inv th2" "supplied th2 pf2" "same_config th1 th2"
      "attempted th2 = attempted th1 + of_nat (Suc n)"
      "free_loop es' (pc + 1) fin th1 pf1 =
        (if stopping fin (es' ! n) then Some (Inr (), th2, pf2) else free_loop (drop (Suc n) es') 0 fin th2 pf2)"
    using Suc.IH [OF s(2,3) p] by blast
  have "free_loop es pc fin th pf = free_loop es' (pc + 1) fin th1 pf1"
    using s(1) p(3) by (simp add: es)
  with t s(5) same_config_trans [OF s(4) t(3)] show ?case
    by (intro exI [of _ th2] exI [of _ pf2]) (simp add: es add_ac)
qed

lemma free_loop_ok:
  assumes "\<forall>e\<in>set es. attempts (fst e) \<noteq> []" and "(c + 1) * 10001 \<le> length es"
    and "stopping fin (es ! (c * 10001 + 10000))"
    and "\<forall>i<c. \<not> stopping fin (es ! (i * 10001 + 10000))"
    and "thread_inv th" and "supplied th pf"
  shows "\<exists>th' pf'. free_loop es 0 fin th pf = Some (Inr (), th', pf') \<and> thread_inv th' \<and> supplied th' pf' \<and>
    same_config th th' \<and> attempted th' = attempted th + of_nat ((c + 1) * 10001)"
  using assms
proof (induction c arbitrary: es th pf)
  case 0
  obtain th1 pf1 where t: "thread_inv th1" "supplied th1 pf1" "same_config th th1"
      "attempted th1 = attempted th + of_nat (Suc 10000)"
      "free_loop es 0 fin th pf =
        (if stopping fin (es ! 10000) then Some (Inr (), th1, pf1) else free_loop (drop (Suc 10000) es) 0 fin th1 pf1)"
    using free_loop_block [OF 0(5,6,1), of 10000 0 fin] 0(2) by auto
  with 0(3) show ?case by (intro exI [of _ th1] exI [of _ pf1]) simp
next
  case (Suc c)
  let ?es = "drop 10001 es"
  obtain th1 pf1 where t: "thread_inv th1" "supplied th1 pf1" "same_config th th1"
      "attempted th1 = attempted th + of_nat (Suc 10000)"
      "free_loop es 0 fin th pf =
        (if stopping fin (es ! 10000) then Some (Inr (), th1, pf1) else free_loop (drop (Suc 10000) es) 0 fin th1 pf1)"
    using free_loop_block [OF Suc.prems(5,6,1), of 10000 0 fin] Suc.prems(2) by auto
  have "\<not> stopping fin (es ! 10000)" using Suc.prems(4) by (metis add_0 mult_0 zero_less_Suc)
  then have e: "free_loop es 0 fin th pf = free_loop ?es 0 fin th1 pf1" using t(5) by simp
  have nth: "?es ! (i * 10001 + 10000) = es ! (Suc i * 10001 + 10000)" for i
    using Suc.prems(2) by (simp add: add_ac)
  have len: "(c + 1) * 10001 \<le> length ?es" using Suc.prems(2) by simp
  have at: "\<forall>e\<in>set ?es. attempts (fst e) \<noteq> []" using Suc.prems(1) by (auto dest: in_set_dropD)
  obtain th2 pf2 where "free_loop ?es 0 fin th1 pf1 = Some (Inr (), th2, pf2)" "thread_inv th2" "supplied th2 pf2"
      "same_config th1 th2" "attempted th2 = attempted th1 + of_nat ((c + 1) * 10001)"
    using Suc.IH [OF at len _ _ t(1,2)] Suc.prems(3,4) unfolding nth by blast
  with t(4) same_config_trans [OF t(3)] show ?case
    by (intro exI [of _ th2] exI [of _ pf2]) (simp add: e algebra_simps)
qed

text \<open>
  C35. Without a rate limit a run looks at the stop request and at the clock after every 10001
  packets only: it ends at the first of these checks that sees a request or the end of the runtime,
  and has then sent exactly 10001 packets per check.
\<close>

theorem th_run_unlimited:
  assumes "thread_inv th" and "supplied th pf" and "th_payload th" and "queryrate th = 0"
    and "\<forall>e\<in>set (run_free env). attempts (fst e) \<noteq> []" and "(c + 1) * 10001 \<le> length (run_free env)"
    and "fin = dbl (run_start2 env + of_int (runtime th))"
    and "stopping fin (run_free env ! (c * 10001 + 10000))"
    and "\<forall>i<c. \<not> stopping fin (run_free env ! (i * 10001 + 10000))"
    and "waits_end env th"
  shows "\<exists>th' pf'. th_run env th pf = Some (Inr (), th', pf') \<and> attempted th' = of_nat ((c + 1) * 10001) \<and>
    thread_inv th' \<and> supplied th' pf'"
proof -
  note st = started_ok [OF assms(1,2)]
  obtain th' pf' where f: "free_loop (run_free env) 0 fin (started th) pf = Some (Inr (), th', pf')"
      "thread_inv th'" "supplied th' pf'" "same_config (started th) th'"
      "attempted th' = attempted (started th) + of_nat ((c + 1) * 10001)"
    using free_loop_ok [OF assms(5,6,8,9) st(1,2)] by blast
  let ?th = "th'\<lparr>duration := dbl (run_end env - run_start env)\<rparr>"
  have "runtime (started th) = runtime th" using st(3) by (simp add: same_config_def)
  then have "th_run env th pf = Some (Inr (), ?th, pf')"
    using assms(3,4,7,10) f(1) same_config_trans [OF st(3) f(4)]
    by (intro th_run_finish) (simp_all add: runWithoutRateLimit_def)
  moreover have "attempted ?th = attempted th'" by (simp add: attempted_def)
  ultimately show ?thesis
    using f(2,3,5)
    by (intro exI [of _ ?th] exI [of _ pf']) (simp add: st(4) thread_inv_def supplied_def)
qed

definition demo_flood :: run_env where
  "demo_flood = demo_run\<lparr>run_free := replicate 10001 (\<lparr>others = 0, attempts = [demo_env]\<rparr>, True, 0)\<rparr>"

theorem th_run_unlimited_witness:
  "\<exists>th' pf'. th_run demo_flood demo_thread demo_payload = Some (Inr (), th', pf') \<and> attempted th' = 10001"
proof -
  have i: "dbl 5 = 5" using dbl.rnd_int [of 5] by simp
  have f: "timeout demo_thread = 5" "queryrate demo_thread = 0" "th_payload demo_thread"
    by (simp_all add: demo_thread_def DNSSenderThread_new_def)
  have r: "run_free demo_flood = replicate 10001 (\<lparr>others = 0, attempts = [demo_env]\<rparr>, True, 0)"
    by (simp add: demo_flood_def)
  have "waits_end demo_flood demo_thread" by (simp add: waits_end_def demo_flood_def demo_run_def f i)
  moreover have "stopping fin (run_free demo_flood ! (0 * 10001 + 10000))" for fin
    unfolding r by (subst nth_replicate) (simp_all add: stopping_def)
  ultimately show ?thesis
    using th_run_unlimited [OF demo_thread_ok f(3,2), of demo_flood 0] by (auto simp: r)
qed

subsection \<open>The clock of the slices\<close>

text \<open>
  The readings that the loop with a limit compares with its deadlines, as \<open>getNsec\<close> computes them from
  \<open>clock_gettime\<close>, and the number of nanoseconds it then asks \<open>nanosleep\<close> for. Until 2106 a reading is
  less than a microsecond off, and an earlier time never has a later reading.
\<close>

record timespec =
  ts_sec :: int
  ts_nsec :: int

definition getNsec :: "timespec \<Rightarrow> rat" where
  "getNsec ts = dbl (dbl (of_int (ts_sec ts)) + dbl (dbl (of_int (ts_nsec ts)) / 10 ^ 9))"

definition sleep_nsec :: "rat \<Rightarrow> rat \<Rightarrow> int" where
  "sleep_nsec next_timeslice now = \<lfloor>dbl (dbl (next_timeslice - now) * 10 ^ 9)\<rfloor>"

definition valid_timespec :: "timespec \<Rightarrow> bool" where
  "valid_timespec ts \<longleftrightarrow> 0 \<le> ts_sec ts \<and> ts_sec ts < 2 ^ 32 \<and> 0 \<le> ts_nsec ts \<and> ts_nsec ts < 10 ^ 9"

definition clock_time :: "timespec \<Rightarrow> rat" where
  "clock_time ts = of_int (ts_sec ts) + of_int (ts_nsec ts) / 10 ^ 9"

lemma getNsec_eq:
  assumes "valid_timespec ts"
  shows "getNsec ts = dbl (of_int (ts_sec ts) + dbl (of_int (ts_nsec ts) / 10 ^ 9))"
    and "0 \<le> dbl (of_int (ts_nsec ts) / 10 ^ 9)" and "dbl (of_int (ts_nsec ts) / 10 ^ 9) \<le> 1"
proof -
  have "dbl (of_int (ts_sec ts)) = of_int (ts_sec ts)" "dbl (of_int (ts_nsec ts)) = of_int (ts_nsec ts)"
    using assms by (intro dbl.rnd_int; simp add: valid_timespec_def)+
  then show "getNsec ts = dbl (of_int (ts_sec ts) + dbl (of_int (ts_nsec ts) / 10 ^ 9))" by (simp add: getNsec_def)
  show "0 \<le> dbl (of_int (ts_nsec ts) / 10 ^ 9)" using assms by (intro dbl.rnd_nonneg) (simp add: valid_timespec_def)
  have "(of_int (ts_nsec ts) :: rat) \<le> of_int (10 ^ 9)"
    using assms unfolding of_int_le_iff by (simp add: valid_timespec_def)
  then show "dbl (of_int (ts_nsec ts) / 10 ^ 9) \<le> 1" using dbl.rnd_le_int [of _ 1] by simp
qed

lemma of_int_Suc_le: "m < n \<Longrightarrow> (of_int m :: rat) + 1 \<le> of_int n"
  using of_int_le_iff [of "m + 1" n] by simp

lemma getNsec_mono:
  assumes "valid_timespec t" and "valid_timespec u" and "clock_time t \<le> clock_time u"
  shows "getNsec t \<le> getNsec u"
proof -
  note t = getNsec_eq [OF assms(1)] and u = getNsec_eq [OF assms(2)]
  have "of_int (ts_sec t) + dbl (of_int (ts_nsec t) / 10 ^ 9) \<le> of_int (ts_sec u) + dbl (of_int (ts_nsec u) / 10 ^ 9)"
  proof (cases "ts_sec t < ts_sec u")
    case True
    then have "(of_int (ts_sec t) :: rat) + 1 \<le> of_int (ts_sec u)" by (rule of_int_Suc_le)
    then show ?thesis using t(3) u(2) by linarith
  next
    case False
    have n: "(of_int (ts_nsec t) :: rat) \<ge> 0" "(of_int (ts_nsec u) :: rat) < 10 ^ 9"
      using assms(1,2) of_int_less_iff [of "ts_nsec u" "10 ^ 9"] by (simp_all add: valid_timespec_def)
    have "ts_sec u = ts_sec t"
    proof (rule ccontr)
      assume "ts_sec u \<noteq> ts_sec t"
      then have "(of_int (ts_sec u) :: rat) + 1 \<le> of_int (ts_sec t)" using False by (intro of_int_Suc_le) simp
      then show False using assms(3) n by (simp add: clock_time_def)
    qed
    then show ?thesis using assms(3) by (simp add: clock_time_def dbl.rnd_mono)
  qed
  then show ?thesis unfolding t(1) u(1) by (rule dbl.rnd_mono)
qed

lemma getNsec_accurate:
  assumes "valid_timespec ts"
  shows "\<bar>getNsec ts - clock_time ts\<bar> < 1 / 10 ^ 6"
proof -
  let ?n = "of_int (ts_nsec ts) / 10 ^ 9 :: rat" and ?s = "of_int (ts_sec ts) :: rat"
  note e = getNsec_eq [OF assms]
  have s: "0 \<le> ?s" "?s \<le> 2 ^ 32" and n: "0 \<le> ?n" "?n \<le> 1"
    using assms of_int_less_iff [of "ts_sec ts" "2 ^ 32"] of_int_less_iff [of "ts_nsec ts" "10 ^ 9"]
    by (simp_all add: valid_timespec_def)
  have "\<bar>dbl ?n - ?n\<bar> \<le> 1 / 2 ^ 53" using dbl.rnd_error [of ?n] n by (simp add: field_simps)
  moreover have "\<bar>getNsec ts - (?s + dbl ?n)\<bar> \<le> (2 ^ 32 + 1) / 2 ^ 53"
    using dbl.rnd_error [of "?s + dbl ?n"] s e(2,3) unfolding e(1) by (simp add: field_simps)
  ultimately have "\<bar>getNsec ts - (?s + ?n)\<bar> \<le> 1 / 2 ^ 53 + (2 ^ 32 + 1) / 2 ^ 53" by linarith
  also have "\<dots> < 1 / 10 ^ 6" by simp
  finally show ?thesis by (simp add: clock_time_def)
qed

text \<open>As long as less than a second is left, \<open>nanosleep\<close> gets a valid request.\<close>

lemma sleep_nsec_valid:
  assumes "now < next_timeslice" and "next_timeslice - now \<le> 1 - 1 / 10 ^ 9"
  shows "0 \<le> sleep_nsec next_timeslice now" and "sleep_nsec next_timeslice now < 10 ^ 9"
proof -
  let ?d = "next_timeslice - now"
  have d: "0 \<le> dbl ?d" "dbl ?d \<le> ?d * (1 + 1 / 2 ^ 53)"
    using assms(1) dbl.rnd_nonneg [of ?d] dbl.rnd_upper [of ?d] by simp_all
  have "?d * (1 + 1 / 2 ^ 53) \<le> (1 - 1 / 10 ^ 9) * (1 + 1 / 2 ^ 53)" using assms(2) by (intro mult_right_mono) simp_all
  with d(2) have "dbl ?d * 10 ^ 9 \<le> (1 - 1 / 10 ^ 9) * (1 + 1 / 2 ^ 53) * 10 ^ 9" by simp
  then have "dbl (dbl ?d * 10 ^ 9) \<le> (1 - 1 / 10 ^ 9) * (1 + 1 / 2 ^ 53) * 10 ^ 9 * (1 + 1 / 2 ^ 53)"
    using dbl.rnd_upper [of "dbl ?d * 10 ^ 9"] d(1) by (simp add: field_simps)
  also have "\<dots> < 10 ^ 9" by simp
  finally show "sleep_nsec next_timeslice now < 10 ^ 9" by (simp add: sleep_nsec_def floor_less_iff)
  show "0 \<le> sleep_nsec next_timeslice now" using d(1) dbl.rnd_nonneg by (simp add: sleep_nsec_def)
qed

end
