(* ===== verification/Raw_Socket_Receiver.thy ===== *)
theory Raw_Socket_Receiver
  imports Packet
begin

text \<open>
  \<open>src/src/raw_socket_receiver.cpp\<close>: the receiver of the answers. On Linux a packet socket delivers
  Ethernet frames that the program filters itself; on FreeBSD a filter program runs in the kernel and
  the device delivers buffers of captured frames. \<open>recvfrom\<close>, \<open>read\<close>, \<open>select\<close>, \<open>ioctl\<close> and the
  machine that runs the filter are parameters.
\<close>

subsection \<open>Counters\<close>

record counter =
  num_pkgs :: u64
  bytes_rcv :: u64
  rcodes :: "u64 list"
  truncated :: u64
  rtt_total :: rat
  rtt_min :: rat
  rtt_max :: rat

text \<open>\<open>Counter::clear\<close>; the loop runs over 15 of the 16 elements of \<open>rcodes\<close>.\<close>

definition Counter_clear :: "counter \<Rightarrow> counter" where
  "Counter_clear c =
     c\<lparr>num_pkgs := 0, bytes_rcv := 0, truncated := 0, rcodes := replicate 15 0 @ drop 15 (rcodes c),
       rtt_total := 0, rtt_min := 0, rtt_max := 0\<rparr>"

text \<open>The constructor does the same on uninitialised memory, of which \<open>raw\<close> is the array.\<close>

definition Counter_new :: "u64 list \<Rightarrow> counter" where
  "Counter_new raw =
     \<lparr>num_pkgs = 0, bytes_rcv = 0, rcodes = replicate 15 0 @ drop 15 raw, truncated = 0,
      rtt_total = 0, rtt_min = 0, rtt_max = 0\<rparr>"

text \<open>
  \<open>count_packet\<close>: \<open>buffer\<close> is the object from the frame on; the DNS header lies behind 42 bytes of
  headers whatever the length of the IP header. \<open>rcode\<close> has four bits.
\<close>

definition count_packet :: "timeval option \<Rightarrow> counter \<Rightarrow> bytes \<Rightarrow> u64 \<Rightarrow> counter result" where
  "count_packet now c buffer sz =
     (if length buffer < 46 then Inl UndefinedBehaviour
      else
        let c = c\<lparr>num_pkgs := num_pkgs c + 1, bytes_rcv := bytes_rcv c + sz\<rparr>;
            rd = getQueryRTT now (htons (dns_id 42 buffer));
            c = c\<lparr>rtt_total := dbl (rtt_total c + rd)\<rparr>;
            c = (if rd < rtt_min c \<or> rtt_min c = 0 then c\<lparr>rtt_min := rd\<rparr> else c);
            c = (if rd > rtt_max c then c\<lparr>rtt_max := rd\<rparr> else c);
            rc = unat (dns_rcode 42 buffer);
            c = (if rc < 16 then c\<lparr>rcodes := (rcodes c)[rc := rcodes c ! rc + 1]\<rparr> else c);
            c = (if dns_tc 42 buffer then c\<lparr>truncated := truncated c + 1\<rparr> else c)
        in Inr c)"

subsection \<open>The receiver\<close>

record receiver =
  SourceIP :: ip_address
  SourcePort :: u16
  rbuffer :: bytes

text \<open>The constructor on Linux; \<open>raw\<close> is the allocated buffer, \<open>sd\<close> and \<open>ret\<close> what the system calls return.\<close>

definition RawSocketReceiver_new :: "bytes \<Rightarrow> int \<Rightarrow> int \<Rightarrow> receiver result" where
  "RawSocketReceiver_new raw sd ret =
     (if sd = -1 then Inl Ppl7Exception
      else if ret < 0 then Inl Ppl7Exception
      else Inr \<lparr>SourceIP = \<lparr>family = IPv4, addr = 0\<rparr>, SourcePort = 0, rbuffer = raw\<rparr>)"

definition rcv_setSource :: "ip_address \<Rightarrow> int \<Rightarrow> receiver \<Rightarrow> receiver" where
  "rcv_setSource ip port r = r\<lparr>SourceIP := ip, SourcePort := htons (word_of_int port)\<rparr>"

definition socketReady :: "int \<Rightarrow> bool \<Rightarrow> bool" where
  "socketReady ret isset = (if ret < 0 then False else isset)"

text \<open>
  \<open>receive\<close> on Linux. \<open>recvfrom\<close> fails (\<open>None\<close>) or delivers a frame, of which at most 4096 bytes are
  written to the buffer; the rest of the buffer keeps what earlier frames left there.
\<close>

definition receive ::
  "timeval option \<Rightarrow> bytes option \<Rightarrow> receiver \<Rightarrow> counter \<Rightarrow> receiver \<times> counter result" where
  "receive now frame r c =
     (case frame of
        None \<Rightarrow> (r, Inr c)
      | Some f \<Rightarrow>
          let d = take 4096 f;
              bufused = length d;
              ptr = blit 0 d (rbuffer r);
              r = r\<lparr>rbuffer := ptr\<rparr>
          in if bufused < 34 then (r, Inr c)
             else if load16 12 ptr \<noteq> htons 0x0800 then (r, Inr c)
             else if drop_bit 4 (load8 14 ptr) \<noteq> 4 then (r, Inr c)
             else if load32 26 ptr \<noteq> addr (SourceIP r) then (r, Inr c)
             else if load16 34 ptr \<noteq> SourcePort r then (r, Inr c)
             else (r, count_packet now c ptr (word_of_nat bufused)))"

subsection \<open>The receiver thread\<close>

text \<open>\<open>src/src/dns_receiver_thread.cpp\<close>.\<close>

record receiver_thread =
  rt_socket :: receiver
  rt_counter :: counter

definition rt_setSource :: "ip_address \<Rightarrow> int \<Rightarrow> receiver_thread \<Rightarrow> receiver_thread" where
  "rt_setSource ip port t = t\<lparr>rt_socket := rcv_setSource ip port (rt_socket t)\<rparr>"

text \<open>
  One element per round of the loop: whether the socket is ready, the time, what \<open>recvfrom\<close>
  delivers, and the stop request after it. \<open>None\<close>: no request in the whole list.
\<close>

record rcv_env =
  rcv_ready :: bool
  rcv_now :: "timeval option"
  rcv_frame :: "bytes option"
  rcv_stop :: bool

fun rcv_loop :: "rcv_env list \<Rightarrow> receiver_thread \<Rightarrow> (unit result \<times> receiver_thread) option" where
  "rcv_loop [] t = None"
| "rcv_loop (e # es) t =
     (case (if rcv_ready e then receive (rcv_now e) (rcv_frame e) (rt_socket t) (rt_counter t)
            else (rt_socket t, Inr (rt_counter t))) of
        (s, Inl x) \<Rightarrow> Some (Inl x, t\<lparr>rt_socket := s\<rparr>)
      | (s, Inr c) \<Rightarrow>
          let t = t\<lparr>rt_socket := s, rt_counter := c\<rparr>
          in if rcv_stop e then Some (Inr (), t) else rcv_loop es t)"

definition rt_run :: "rcv_env list \<Rightarrow> receiver_thread \<Rightarrow> (unit result \<times> receiver_thread) option" where
  "rt_run es t = rcv_loop es (t\<lparr>rt_counter := Counter_clear (rt_counter t)\<rparr>)"

definition getPacketsReceived :: "receiver_thread \<Rightarrow> u64" where
  "getPacketsReceived t = num_pkgs (rt_counter t)"

definition getBytesReceived :: "receiver_thread \<Rightarrow> u64" where
  "getBytesReceived t = bytes_rcv (rt_counter t)"

definition getDuration :: "receiver_thread \<Rightarrow> rat" where
  "getDuration t = rtt_total (rt_counter t)"

definition getRoundTripTimeAverage :: "receiver_thread \<Rightarrow> rat" where
  "getRoundTripTimeAverage t =
     (if num_pkgs (rt_counter t) \<noteq> 0
      then dbl (rtt_total (rt_counter t) / dbl (of_nat (unat (num_pkgs (rt_counter t))))) else 0)"

definition getRoundTripTimeMin :: "receiver_thread \<Rightarrow> rat" where
  "getRoundTripTimeMin t = rtt_min (rt_counter t)"

definition getRoundTripTimeMax :: "receiver_thread \<Rightarrow> rat" where
  "getRoundTripTimeMax t = rtt_max (rt_counter t)"

definition getCounter :: "receiver_thread \<Rightarrow> counter" where
  "getCounter t = rt_counter t"

subsection \<open>Which frames are counted\<close>

text \<open>
  The reference: a frame carries an IPv4 packet from address \<open>src\<close> (as in memory) with source port
  \<open>port\<close>. The protocol is not looked at.
\<close>

definition frame_from :: "u32 \<Rightarrow> nat \<Rightarrow> bytes \<Rightarrow> bool" where
  "frame_from src port f \<longleftrightarrow>
     be16 12 f = 0x0800 \<and> unat (f ! 14) div 16 = 4 \<and> load32 26 f = src \<and> be16 34 f = port"

text \<open>What an answer adds to the counters, and the round-trip time it stands for.\<close>

definition frame_rtt :: "timeval option \<times> bytes \<Rightarrow> rat" where
  "frame_rtt a = getQueryRTT (fst a) (word_of_nat (be16 42 (snd a)))"

definition frame_rcode :: "bytes \<Rightarrow> nat" where
  "frame_rcode f = unat (f ! 45) mod 16"

definition observe :: "timeval option \<times> bytes \<Rightarrow> counter \<Rightarrow> counter" where
  "observe a c =
     \<lparr>num_pkgs = num_pkgs c + 1, bytes_rcv = bytes_rcv c + word_of_nat (length (snd a)),
      rcodes = (rcodes c)[frame_rcode (snd a) := rcodes c ! frame_rcode (snd a) + 1],
      truncated = truncated c + (if bit (snd a ! 44) 1 then 1 else 0),
      rtt_total = dbl (rtt_total c + frame_rtt a),
      rtt_min = (if frame_rtt a < rtt_min c \<or> rtt_min c = 0 then frame_rtt a else rtt_min c),
      rtt_max = max (rtt_max c) (frame_rtt a)\<rparr>"

lemma unat_and_15: "unat (b AND 15 :: byte) = unat b mod 16"
proof -
  have "b AND 15 = take_bit 4 b" by (simp add: take_bit_eq_mask mask_numeral)
  then show ?thesis by (simp only: unsigned_take_bit_eq) (simp add: take_bit_eq_mod)
qed

lemma blit_prefix:
  assumes "length f \<le> length b"
  shows "i < length f \<Longrightarrow> blit 0 f b ! i = f ! i"
    and "i + 1 < length f \<Longrightarrow> load16 i (blit 0 f b) = load16 i f"
    and "i + 3 < length f \<Longrightarrow> load32 i (blit 0 f b) = load32 i f"
  by (simp_all add: blit_0 nth_append load16_def load32_def)

lemma count_packet_append:
  assumes "46 \<le> length f"
  shows "count_packet now c (f @ b) sz = Inr ((observe (now, f) c)\<lparr>bytes_rcv := bytes_rcv c + sz\<rparr>)"
proof -
  have len: "\<not> length (f @ b) < 46" using assms by simp
  have id: "htons (dns_id 42 (f @ b)) = word_of_nat (be16 42 f)"
    using assms by (simp add: dns_id_def be16_load16 load16_def nth_append)
  have rc: "unat (dns_rcode 42 (f @ b)) = frame_rcode f" and tc: "dns_tc 42 (f @ b) = bit (f ! 44) 1"
    using assms by (simp_all add: dns_rcode_def dns_tc_def load8_def nth_append unat_and_15 frame_rcode_def)
  have "frame_rcode f < 16" by (simp add: frame_rcode_def)
  then show ?thesis
    using len by (simp add: count_packet_def Let_def id rc tc observe_def frame_rtt_def max_def)
qed

lemma count_packet_observe:
  "46 \<le> length f \<Longrightarrow> sz = word_of_nat (length f) \<Longrightarrow> count_packet now c (blit 0 f b) sz = Inr (observe (now, f) c)"
  by (simp add: blit_0 count_packet_append) (simp add: observe_def)

text \<open>A receiver that listens to port \<open>port\<close> of \<open>src\<close>.\<close>

definition listens :: "u32 \<Rightarrow> nat \<Rightarrow> receiver \<Rightarrow> bool" where
  "listens src port r \<longleftrightarrow>
     length (rbuffer r) = 4096 \<and> addr (SourceIP r) = src \<and> port < 65536 \<and> SourcePort r = htons (word_of_nat port)"

lemma receive_eq:
  assumes "listens src port r" and "46 \<le> length f" and "length f \<le> 4096"
  shows "receive now (Some f) r c =
    (r\<lparr>rbuffer := blit 0 f (rbuffer r)\<rparr>, Inr (if frame_from src port f then observe (now, f) c else c))"
    and "listens src port (r\<lparr>rbuffer := blit 0 f (rbuffer r)\<rparr>)"
proof -
  have b: "length f \<le> length (rbuffer r)" "addr (SourceIP r) = src" using assms by (simp_all add: listens_def)
  have "unat (word_of_nat port :: u16) = port" using assms(1) by (simp add: listens_def unat_of_nat)
  then have p: "load16 34 f = SourcePort r \<longleftrightarrow> be16 34 f = port"
    using assms(1) load16_htons_iff [of 34 f "word_of_nat port"] by (simp add: listens_def)
  have t: "load16 12 f = htons 0x0800 \<longleftrightarrow> be16 12 f = 0x0800" by (simp add: load16_htons_iff)
  show "receive now (Some f) r c =
      (r\<lparr>rbuffer := blit 0 f (rbuffer r)\<rparr>, Inr (if frame_from src port f then observe (now, f) c else c))"
    using assms(2,3) b
    by (simp add: receive_def Let_def blit_prefix count_packet_observe frame_from_def p t load8_def drop_bit_4_byte)
  show "listens src port (r\<lparr>rbuffer := blit 0 f (rbuffer r)\<rparr>)"
    using assms by (simp add: listens_def length_blit)
qed

subsection \<open>What a run of the receiver counts\<close>

text \<open>The answers among the frames of a list of rounds.\<close>

definition round_answers :: "u32 \<Rightarrow> nat \<Rightarrow> rcv_env \<Rightarrow> (timeval option \<times> bytes) list" where
  "round_answers src port e =
     (case rcv_frame e of
        Some f \<Rightarrow> if rcv_ready e \<and> frame_from src port f then [(rcv_now e, f)] else []
      | None \<Rightarrow> [])"

definition answers :: "u32 \<Rightarrow> nat \<Rightarrow> rcv_env list \<Rightarrow> (timeval option \<times> bytes) list" where
  "answers src port es = concat (map (round_answers src port) es)"

definition full_frames :: "rcv_env list \<Rightarrow> bool" where
  "full_frames es \<longleftrightarrow> (\<forall>e\<in>set es. \<forall>f. rcv_frame e = Some f \<longrightarrow> 46 \<le> length f \<and> length f \<le> 4096)"

lemma rcv_round:
  assumes l: "listens src port (rt_socket t)" and f: "\<And>f. rcv_frame e = Some f \<Longrightarrow> 46 \<le> length f \<and> length f \<le> 4096"
  obtains s where "listens src port s"
    and "rcv_loop (e # es) t =
      (let t' = t\<lparr>rt_socket := s, rt_counter := fold observe (round_answers src port e) (rt_counter t)\<rparr>
       in if rcv_stop e then Some (Inr (), t') else rcv_loop es t')"
proof (cases "rcv_ready e \<and> (\<exists>f. rcv_frame e = Some f)")
  case True
  then obtain f' where e: "rcv_ready e" "rcv_frame e = Some f'" by blast
  then have len: "46 \<le> length f'" "length f' \<le> 4096" using f by auto
  show ?thesis
    by (rule that [OF receive_eq(2) [OF l len]]) (simp add: e receive_eq(1) [OF l len] round_answers_def)
next
  case False
  then have "(if rcv_ready e then receive (rcv_now e) (rcv_frame e) (rt_socket t) (rt_counter t)
      else (rt_socket t, Inr (rt_counter t))) = (rt_socket t, Inr (rt_counter t))"
    and "round_answers src port e = []"
    by (auto simp: receive_def round_answers_def split: option.splits)
  then show ?thesis by (intro that [OF l]) simp
qed

lemma rcv_loop_eq:
  assumes "listens src port (rt_socket t)" and "full_frames (es @ [e])"
    and "\<forall>x\<in>set es. \<not> rcv_stop x" and "rcv_stop e"
  shows "\<exists>s. rcv_loop (es @ e # rest) t =
    Some (Inr (), t\<lparr>rt_socket := s, rt_counter := fold observe (answers src port (es @ [e])) (rt_counter t)\<rparr>) \<and>
    listens src port s"
  using assms
proof (induction es arbitrary: t)
  case Nil
  have "\<And>f. rcv_frame e = Some f \<Longrightarrow> 46 \<le> length f \<and> length f \<le> 4096"
    using Nil(2) by (simp add: full_frames_def)
  with Nil(1) obtain s where "listens src port s" "rcv_loop (e # rest) t =
      (let t' = t\<lparr>rt_socket := s, rt_counter := fold observe (round_answers src port e) (rt_counter t)\<rparr>
       in if rcv_stop e then Some (Inr (), t') else rcv_loop rest t')"
    by (rule rcv_round)
  with Nil(4) show ?case by (auto simp: answers_def Let_def)
next
  case (Cons x xs)
  have "\<And>f. rcv_frame x = Some f \<Longrightarrow> 46 \<le> length f \<and> length f \<le> 4096"
    using Cons.prems(2) by (simp add: full_frames_def)
  with Cons.prems(1) obtain s where s: "listens src port s" "rcv_loop (x # (xs @ e # rest)) t =
      (let t' = t\<lparr>rt_socket := s, rt_counter := fold observe (round_answers src port x) (rt_counter t)\<rparr>
       in if rcv_stop x then Some (Inr (), t') else rcv_loop (xs @ e # rest) t')"
    by (rule rcv_round)
  let ?t = "t\<lparr>rt_socket := s, rt_counter := fold observe (round_answers src port x) (rt_counter t)\<rparr>"
  have "rcv_loop ((x # xs) @ e # rest) t = rcv_loop (xs @ e # rest) ?t"
    using s(2) Cons.prems(3) by (simp add: Let_def)
  moreover have "full_frames (xs @ [e])" "\<forall>x\<in>set xs. \<not> rcv_stop x"
    using Cons.prems(2,3) by (auto simp: full_frames_def)
  ultimately show ?case
    using Cons.IH [of ?t] Cons.prems(4) s(1) by (simp add: answers_def)
qed

lemma fold_observe_all:
  assumes "length (rcodes c) = 16"
  shows "num_pkgs (fold observe as c) = num_pkgs c + of_nat (length as) \<and>
    bytes_rcv (fold observe as c) = bytes_rcv c + of_nat (sum_list (map (length \<circ> snd) as)) \<and>
    truncated (fold observe as c) = truncated c + of_nat (length (filter (\<lambda>a. bit (snd a ! 44) 1) as)) \<and>
    (\<forall>i<16. rcodes (fold observe as c) ! i =
      rcodes c ! i + of_nat (length (filter (\<lambda>a. frame_rcode (snd a) = i) as))) \<and>
    rtt_max (fold observe as c) = fold max (map frame_rtt as) (rtt_max c) \<and>
    length (rcodes (fold observe as c)) = 16"
  using assms
proof (induction as arbitrary: c)
  case (Cons a as)
  have l: "length (rcodes (observe a c)) = 16" using Cons.prems by (simp add: observe_def)
  have "frame_rcode (snd a) < 16" by (simp add: frame_rcode_def)
  then show ?case
    using Cons.IH [OF l] Cons.prems
    by (auto simp: observe_def nth_list_update max.commute algebra_simps)
qed simp

lemmas fold_observe_counts =
  fold_observe_all [THEN conjunct1]
  fold_observe_all [THEN conjunct2, THEN conjunct1]
  fold_observe_all [THEN conjunct2, THEN conjunct2, THEN conjunct1]
  fold_observe_all [THEN conjunct2, THEN conjunct2, THEN conjunct2, THEN conjunct1, rule_format]
  fold_observe_all [THEN conjunct2, THEN conjunct2, THEN conjunct2, THEN conjunct2, THEN conjunct1]

lemma fold_observe_min:
  assumes "\<forall>a\<in>set as. 0 < frame_rtt a" and "0 < rtt_min c"
  shows "rtt_min (fold observe as c) = fold min (map frame_rtt as) (rtt_min c)"
  using assms
proof (induction as arbitrary: c)
  case (Cons a as)
  have m: "rtt_min (observe a c) = min (frame_rtt a) (rtt_min c)"
    using Cons.prems by (auto simp: observe_def)
  then have "0 < rtt_min (observe a c)" using Cons.prems by simp
  then show ?case using Cons by (simp add: m)
qed simp

lemma fold_max_rat: "fold max xs (m :: rat) = Max (insert m (set xs))"
proof (induction xs arbitrary: m)
  case (Cons x xs)
  have "fold max (x # xs) m = Max (insert (max x m) (set xs))" by (simp add: Cons)
  also have "\<dots> = Max (insert m (set (x # xs)))"
    by (cases "xs = []") (simp_all add: max.assoc max.left_commute max.commute)
  finally show ?case .
qed simp

lemma fold_min_rat: "fold min xs (m :: rat) = Min (insert m (set xs))"
proof (induction xs arbitrary: m)
  case (Cons x xs)
  have "fold min (x # xs) m = Min (insert (min x m) (set xs))" by (simp add: Cons)
  also have "\<dots> = Min (insert m (set (x # xs)))"
    by (cases "xs = []") (simp_all add: min.assoc min.left_commute min.commute)
  finally show ?case .
qed simp

lemma observe_clear_min:
  assumes "as \<noteq> []" and "\<forall>a\<in>set as. 0 < frame_rtt a" and "rtt_min c = 0"
  shows "rtt_min (fold observe as c) = Min (frame_rtt ` set as)"
proof -
  obtain a as' where as: "as = a # as'" using assms(1) by (cases as) auto
  have m: "rtt_min (observe a c) = frame_rtt a" using assms(3) by (simp add: observe_def)
  then have "rtt_min (fold observe as c) = fold min (map frame_rtt as') (frame_rtt a)"
    using fold_observe_min [of as' "observe a c"] assms(2) by (simp add: as)
  then show ?thesis by (simp add: fold_min_rat as)
qed

text \<open>
  C11. The statistics of a run: when the receiver listens until it is stopped and every frame that the
  kernel delivers has between 46 and 4096 bytes (a shorter one would be read together with what is left
  of the frame before it), the packet counter, the
  byte counter, the truncation counter and the counters of the response codes 0 to 14 are exactly
  those of the frames that came from the server's address and port; the maximum of the round-trip
  times is exact, and so is the minimum if no time is zero. The counter of code 15 alone is not
  reset: it starts from what it was before the run.
\<close>

theorem rt_run_counts:
  assumes "listens src port (rt_socket t)" and "length (rcodes (rt_counter t)) = 16" and "full_frames (es @ [e])"
    and "\<forall>x\<in>set es. \<not> rcv_stop x" and "rcv_stop e" and "as = answers src port (es @ [e])"
  shows "\<exists>t'. rt_run (es @ e # rest) t = Some (Inr (), t') \<and>
    getPacketsReceived t' = of_nat (length as) \<and>
    getBytesReceived t' = of_nat (sum_list (map (length \<circ> snd) as)) \<and>
    truncated (getCounter t') = of_nat (length (filter (\<lambda>a. bit (snd a ! 44) 1) as)) \<and>
    (\<forall>i<15. rcodes (getCounter t') ! i = of_nat (length (filter (\<lambda>a. frame_rcode (snd a) = i) as))) \<and>
    rcodes (getCounter t') ! 15 =
      rcodes (rt_counter t) ! 15 + of_nat (length (filter (\<lambda>a. frame_rcode (snd a) = 15) as)) \<and>
    getRoundTripTimeMax t' = Max (insert 0 (frame_rtt ` set as)) \<and>
    (as \<noteq> [] \<and> (\<forall>a\<in>set as. 0 < frame_rtt a) \<longrightarrow> getRoundTripTimeMin t' = Min (frame_rtt ` set as))"
proof -
  let ?c = "Counter_clear (rt_counter t)"
  have l: "listens src port (rt_socket (t\<lparr>rt_counter := ?c\<rparr>))" using assms(1) by simp
  obtain s where r: "rt_run (es @ e # rest) t = Some (Inr (), t\<lparr>rt_socket := s, rt_counter := fold observe as ?c\<rparr>)"
    using rcv_loop_eq [OF l assms(3-5), of rest] assms(6) by (auto simp: rt_run_def)
  have c: "length (rcodes ?c) = 16" "num_pkgs ?c = 0" "bytes_rcv ?c = 0" "truncated ?c = 0" "rtt_max ?c = 0" "rtt_min ?c = 0"
      "\<And>i. i < 15 \<Longrightarrow> rcodes ?c ! i = 0" "rcodes ?c ! 15 = rcodes (rt_counter t) ! 15"
    using assms(2) by (simp_all add: Counter_clear_def nth_append)
  note f = fold_observe_counts [OF c(1)]
  show ?thesis
    by (rule exI [of _ "t\<lparr>rt_socket := s, rt_counter := fold observe as ?c\<rparr>"])
       (use f(1-3,5) f(4) c(2-) observe_clear_min [of as ?c] in
         \<open>simp add: r getPacketsReceived_def getBytesReceived_def getCounter_def getRoundTripTimeMax_def
           getRoundTripTimeMin_def fold_max_rat\<close>)
qed

text \<open>An answer for the witnesses: identifier \<open>i\<close>, protocol \<open>p\<close>, from 192.168.0.1, port 53.\<close>

definition demo_answer :: "byte \<Rightarrow> byte \<Rightarrow> byte \<Rightarrow> bytes" where
  "demo_answer p hi lo =
     (replicate 60 0)[12 := 8, 14 := 0x45, 23 := p, 26 := 0xc0, 27 := 0xa8, 29 := 1, 35 := 53, 42 := hi, 43 := lo]"

definition demo_receiver :: receiver_thread where
  "demo_receiver = rt_setSource \<lparr>family = IPv4, addr = 0x0100a8c0\<rparr> 53
     \<lparr>rt_socket = \<lparr>SourceIP = \<lparr>family = IPv4, addr = 0\<rparr>, SourcePort = 0, rbuffer = replicate 4096 0\<rparr>,
      rt_counter = Counter_new (replicate 16 7)\<rparr>"

definition demo_round :: "bytes \<Rightarrow> bool \<Rightarrow> rcv_env" where
  "demo_round f stop = \<lparr>rcv_ready = True, rcv_now = Some \<lparr>tv_sec = 1, tv_usec = 500\<rparr>, rcv_frame = Some f, rcv_stop = stop\<rparr>"

lemma demo_receiver_ok: "listens 0x0100a8c0 53 (rt_socket demo_receiver)" "length (rcodes (rt_counter demo_receiver)) = 16"
    "rcodes (rt_counter demo_receiver) ! 15 = 7"
  by (simp_all add: demo_receiver_def rt_setSource_def rcv_setSource_def listens_def Counter_new_def nth_append)

lemma demo_answer_ok: "length (demo_answer p hi lo) = 60" "frame_from 0x0100a8c0 53 (demo_answer p hi lo)"
    "frame_rcode (demo_answer p hi lo) = 0" "be16 42 (demo_answer p hi lo) = 256 * unat hi + unat lo"
    "demo_answer p hi lo ! 23 = p"
  by (simp_all add: demo_answer_def frame_from_def frame_rcode_def be16_def load32_def load16_def le16_def le32_def)

theorem rt_run_counts_witness:
  "\<exists>t'. rt_run [demo_round (demo_answer 17 0 1) True] demo_receiver = Some (Inr (), t') \<and>
     getPacketsReceived t' = 1 \<and> rcodes (getCounter t') ! 0 = 1 \<and> rcodes (getCounter t') ! 15 = 7"
proof -
  let ?e = "demo_round (demo_answer 17 0 1) True"
  have a: "answers 0x0100a8c0 53 ([] @ [?e]) = [(Some \<lparr>tv_sec = 1, tv_usec = 500\<rparr>, demo_answer 17 0 1)]"
    by (simp add: answers_def round_answers_def demo_round_def demo_answer_ok)
  have "full_frames ([] @ [?e])" "rcv_stop ?e" "\<forall>x\<in>set []. \<not> rcv_stop x"
    by (simp_all add: full_frames_def demo_round_def demo_answer_ok)
  from rt_run_counts [OF demo_receiver_ok(1,2) this(1,3,2) a [symmetric], of "[]"] show ?thesis
    by (auto simp: demo_answer_ok demo_receiver_ok)
qed

subsection \<open>Two defects\<close>

text \<open>
  The minimum of the round-trip times treats the value zero as \<open>not yet set\<close>: an answer within
  the same 100 microseconds as its query is forgotten by the next answer, so that the minimum of a
  run is not the smallest time that was measured.
\<close>

theorem rtt_min_forgets_zero:
  "\<exists>as t'. as = answers 0x0100a8c0 53
       [demo_round (demo_answer 17 0x27 0x15) False, demo_round (demo_answer 17 0x27 0x14) True] \<and>
     rt_run [demo_round (demo_answer 17 0x27 0x15) False, demo_round (demo_answer 17 0x27 0x14) True] demo_receiver =
       Some (Inr (), t') \<and>
     Min (frame_rtt ` set as) = 0 \<and> getRoundTripTimeMin t' > 0"
proof -
  let ?e1 = "demo_round (demo_answer 17 0x27 0x15) False" and ?e2 = "demo_round (demo_answer 17 0x27 0x14) True"
  let ?now = "Some \<lparr>tv_sec = 1, tv_usec = 500\<rparr>"
  let ?a1 = "(?now, demo_answer 17 0x27 0x15)" and ?a2 = "(?now, demo_answer 17 0x27 0x14)"
  have a: "answers 0x0100a8c0 53 [?e1, ?e2] = [?a1, ?a2]"
    by (simp add: answers_def round_answers_def demo_round_def demo_answer_ok)
  have ts: "getQueryTimestamp ?now = 10005" by (simp add: getQueryTimestamp_def signed_modulo_int_def)
  have "frame_rtt ?a1 = 0" and r2: "frame_rtt ?a2 = dbl (1 / 10000)"
    unfolding frame_rtt_def getQueryRTT_def Let_def
    by (simp_all add: ts demo_answer_ok rtt_ticks_def Let_def)
  moreover have pos: "0 < dbl (1 / 10000)" by (rule fl_pos) simp_all
  ultimately have m: "Min (frame_rtt ` set [?a1, ?a2]) = 0" by simp
  have l: "listens 0x0100a8c0 53 (rt_socket (demo_receiver\<lparr>rt_counter := Counter_clear (rt_counter demo_receiver)\<rparr>))"
    using demo_receiver_ok(1) by simp
  have "full_frames ([?e1] @ [?e2])" "\<forall>x\<in>set [?e1]. \<not> rcv_stop x" "rcv_stop ?e2"
    by (simp_all add: full_frames_def demo_round_def demo_answer_ok)
  from rcv_loop_eq [OF l this, of "[]"] obtain s where
    r: "rt_run [?e1, ?e2] demo_receiver = Some (Inr (), demo_receiver
        \<lparr>rt_socket := s, rt_counter := observe ?a2 (observe ?a1 (Counter_clear (rt_counter demo_receiver)))\<rparr>)"
    by (auto simp: rt_run_def a)
  have "rtt_min (observe ?a1 (Counter_clear (rt_counter demo_receiver))) = 0"
    using \<open>frame_rtt ?a1 = 0\<close> by (simp add: observe_def Counter_clear_def)
  then have "rtt_min (observe ?a2 (observe ?a1 (Counter_clear (rt_counter demo_receiver)))) = frame_rtt ?a2"
    by (subst observe_def) simp
  with r pos r2 obtain t' where "rt_run [?e1, ?e2] demo_receiver = Some (Inr (), t')" "0 < getRoundTripTimeMin t'"
    by (auto simp: getRoundTripTimeMin_def)
  with m a show ?thesis by auto
qed

text \<open>
  \<open>receive\<close> accepts frames from 34 bytes on but evaluates bytes up to number 45: for a shorter
  frame the counters depend on what an earlier frame left in the buffer.
\<close>

theorem receive_reads_stale_bytes:
  "\<exists>f r1 r2 c c1 c2. length f = 36 \<and> listens 0x0100a8c0 53 r1 \<and> listens 0x0100a8c0 53 r2 \<and>
     snd (receive None (Some f) r1 c) = Inr c1 \<and> snd (receive None (Some f) r2 c) = Inr c2 \<and>
     rcodes c1 \<noteq> rcodes c2"
proof -
  define f where "f = take 36 (demo_answer 17 0 0)"
  define r where "r b = \<lparr>SourceIP = \<lparr>family = IPv4, addr = 0x0100a8c0\<rparr>, SourcePort = htons 53,
    rbuffer = (replicate 4096 0)[45 := b]\<rparr>" for b
  define ptr where "ptr b = blit 0 f ((replicate 4096 0)[45 := b])" for b
  let ?c = "Counter_new (replicate 16 0)"
  have f: "length f = 36" "load16 12 f = htons 0x0800" "drop_bit 4 (f ! 14) = 4" "load32 26 f = 0x0100a8c0"
      "load16 34 f = htons 53"
    by (simp_all add: f_def demo_answer_def load32_def load16_def le16_def le32_def htons_bytes hi8_def lo8_def)
  have "snd (receive None (Some f) (r b) ?c) = count_packet None ?c (ptr b) 36" for b
    using f by (simp add: receive_def Let_def r_def ptr_def blit_prefix load8_def)
  moreover have "length (ptr b) = 4096" "ptr b ! 45 = b" for b
    by (simp_all add: ptr_def blit_0 f(1) nth_append)
  then have "\<exists>c'. count_packet None ?c (ptr b) 36 = Inr c' \<and>
      rcodes c' = (rcodes ?c)[unat b mod 16 := rcodes ?c ! (unat b mod 16) + 1]" for b
    by (simp add: count_packet_def Let_def dns_rcode_def load8_def unat_and_15)
  ultimately have res: "\<exists>c'. snd (receive None (Some f) (r b) ?c) = Inr c' \<and>
      rcodes c' = (rcodes ?c)[unat b mod 16 := rcodes ?c ! (unat b mod 16) + 1]" for b by simp
  obtain c1 c2 where c: "snd (receive None (Some f) (r 0) ?c) = Inr c1" "rcodes c1 = (rcodes ?c)[0 := rcodes ?c ! 0 + 1]"
      "snd (receive None (Some f) (r 3) ?c) = Inr c2" "rcodes c2 = (rcodes ?c)[3 := rcodes ?c ! 3 + 1]"
    using res [of 0] res [of 3] by auto
  have "rcodes c1 ! 0 = 1" "rcodes c2 ! 0 = 0" by (simp_all add: c(2,4) Counter_new_def nth_append)
  then have "rcodes c1 \<noteq> rcodes c2" by auto
  moreover have "listens 0x0100a8c0 53 (r b)" for b by (simp add: listens_def r_def)
  ultimately show ?thesis using c(1,3) f(1) by blast
qed

end
