(* ===== verification/System_Stat.thy ===== *)
theory System_Stat
  imports Dns_Prelude Floating
begin

text \<open>
  \<open>src/src/system_stat.cpp\<close>: samples of the network, processor and memory counters of the machine,
  taken before and after a run, and their differences (the Linux side).
\<close>

subsection \<open>State\<close>

record network =
  net_bytes :: u64
  net_packets :: u64
  net_errs :: u64
  net_drop :: u64

definition Network_clear :: network where
  "Network_clear = \<lparr>net_bytes = 0, net_packets = 0, net_errs = 0, net_drop = 0\<rparr>"

text \<open>\<open>user\<close> and the others are of type \<open>int\<close>.\<close>

record cpu =
  user :: int
  nice :: int
  system :: int
  idle :: int
  iowait :: int

record sysinfo =
  uptime :: int
  freeswap :: int
  totalswap :: int
  freeram :: int
  bufferram :: int
  totalram :: int
  sharedram :: int
  procs :: int

record nif =
  nif_name :: string
  nif_receive :: network
  nif_transmit :: network

record system_stat =
  sampleTime :: rat
  stat_cpu :: cpu
  stat_sysinfo :: sysinfo
  net_total :: nif
  interfaces :: "string \<rightharpoonup> nif"

subsection \<open>Differences\<close>

definition delta_with_overflow :: "u64 \<Rightarrow> u64 \<Rightarrow> u64" where
  "delta_with_overflow sample1 sample2 =
     (if sample2 \<ge> sample1 then sample2 - sample1 else -1 - sample1 + sample2)"

definition getDelta :: "network \<Rightarrow> network \<Rightarrow> network" where
  "getDelta sample1 sample2 =
     \<lparr>net_bytes = delta_with_overflow (net_bytes sample1) (net_bytes sample2),
      net_packets = delta_with_overflow (net_packets sample1) (net_packets sample2),
      net_errs = delta_with_overflow (net_errs sample1) (net_errs sample2),
      net_drop = delta_with_overflow (net_drop sample1) (net_drop sample2)\<rparr>"

text \<open>
  \<open>getUsage\<close>: the sums are of type \<open>int\<close>, where an overflow is undefined; \<open>None\<close>: a division by
  zero, whose result is not a number or infinite.
\<close>

definition int_ok :: "int \<Rightarrow> bool" where
  "int_ok n \<longleftrightarrow> -(2 ^ 31) \<le> n \<and> n < 2 ^ 31"

definition getUsage :: "cpu \<Rightarrow> cpu \<Rightarrow> rat option result" where
  "getUsage s1 s2 =
     (let b1 = user s1 + nice s1 + system s1; b2 = user s2 + nice s2 + system s2;
          t1 = b1 + idle s1; t2 = b2 + idle s2
      in if \<not> (int_ok (user s1 + nice s1) \<and> int_ok b1 \<and> int_ok (user s2 + nice s2) \<and> int_ok b2 \<and>
                int_ok t1 \<and> int_ok t2 \<and> int_ok (b2 - b1) \<and> int_ok (t2 - t1))
         then Inl UndefinedBehaviour
         else if t2 - t1 = 0 then Inr None
         else Inr (Some (dbl (dbl (100 * dbl (of_int (b2 - b1))) / dbl (of_int (t2 - t1))))))"

subsection \<open>Sampling\<close>

text \<open>
  Code outside the repository: the lines of \<open>/proc/net/dev\<close> as \<open>gets(buffer, 2048)\<close> reads them
  (\<open>None\<close>: the file cannot be opened), \<open>String::trim\<close>, \<open>String::instr(":")\<close> (negative: not found),
  the tokens of a line whose tabs were replaced by blanks, the element access of an array, and
  \<open>toUnsignedLong\<close>.
\<close>

record net_lib =
  proc_net_dev :: "string list option"
  net_trim :: "string \<Rightarrow> string"
  instr_colon :: "string \<Rightarrow> int"
  replace_tabs :: "string \<Rightarrow> string"
  strtok_blank :: "string \<Rightarrow> string list"
  tok_at :: "string list \<Rightarrow> nat \<Rightarrow> string result"
  toUnsignedLong :: "string \<Rightarrow> u64"

definition net_add :: "network \<Rightarrow> network \<Rightarrow> network" where
  "net_add t n =
     \<lparr>net_bytes = net_bytes t + net_bytes n, net_packets = net_packets t + net_packets n,
      net_errs = net_errs t + net_errs n, net_drop = net_drop t + net_drop n\<rparr>"

definition tok_network :: "net_lib \<Rightarrow> string list \<Rightarrow> nat \<Rightarrow> network result" where
  "tok_network lib tok i =
     bindE (tok_at lib tok i) (\<lambda>b. bindE (tok_at lib tok (i + 1)) (\<lambda>p.
     bindE (tok_at lib tok (i + 2)) (\<lambda>e. bindE (tok_at lib tok (i + 3)) (\<lambda>d.
       Inr \<lparr>net_bytes = toUnsignedLong lib b, net_packets = toUnsignedLong lib p,
            net_errs = toUnsignedLong lib e, net_drop = toUnsignedLong lib d\<rparr>))))"

text \<open>\<open>std::map::insert\<close> does nothing if the key is present.\<close>

definition map_insert :: "'k \<Rightarrow> 'v \<Rightarrow> ('k \<rightharpoonup> 'v) \<Rightarrow> ('k \<rightharpoonup> 'v)" where
  "map_insert k v m = (case m k of None \<Rightarrow> m(k \<mapsto> v) | Some _ \<Rightarrow> m)"

fun net_lines ::
  "net_lib \<Rightarrow> string list \<Rightarrow> (string \<rightharpoonup> nif) \<Rightarrow> nif \<Rightarrow> ((string \<rightharpoonup> nif) \<times> nif) result" where
  "net_lines lib [] ifs tot = Inr (ifs, tot)"
| "net_lines lib (line # lines) ifs tot =
     (let buffer = net_trim lib line; t = instr_colon lib buffer
      in if t > 1 then
           let name = take (nat t) buffer; tok = strtok_blank lib (replace_tabs lib buffer)
           in bindE (tok_network lib tok 1) (\<lambda>rcv. bindE (tok_network lib tok 9) (\<lambda>snd.
                let n = \<lparr>nif_name = name, nif_receive = rcv, nif_transmit = snd\<rparr>
                in net_lines lib lines (map_insert name n ifs)
                     (tot\<lparr>nif_receive := net_add (nif_receive tot) rcv,
                          nif_transmit := net_add (nif_transmit tot) snd\<rparr>)))
         else net_lines lib lines ifs tot)"

definition sampleNetwork :: "net_lib \<Rightarrow> (string \<rightharpoonup> nif) \<Rightarrow> nif \<Rightarrow> ((string \<rightharpoonup> nif) \<times> nif) result" where
  "sampleNetwork lib ifs tot =
     (let tot = tot\<lparr>nif_receive := Network_clear, nif_transmit := Network_clear\<rparr>
      in case proc_net_dev lib of
           None \<Rightarrow> Inl Ppl7Exception
         | Some lines \<Rightarrow> net_lines lib lines ifs tot)"

text \<open>
  \<open>sampleCpuUsage\<close>: \<open>None\<close> if \<open>/proc/stat\<close> cannot be opened, which the code does not check, or the
  numbers that \<open>fscanf\<close> converted, in order, up to five; the fields of the
  others keep their values. \<open>sampleSysinfo\<close>: the values of the system call, each times \<open>mem_unit\<close>;
  \<open>None\<close>: it failed.
\<close>

definition sampleCpuUsage :: "int list option \<Rightarrow> cpu \<Rightarrow> cpu result" where
  "sampleCpuUsage fp c =
     (case fp of
        None \<Rightarrow> Inl UndefinedBehaviour
      | Some vs \<Rightarrow>
          let get = (\<lambda>i old. if i < length vs then vs ! i else old)
          in Inr \<lparr>user = get 0 (user c), nice = get 1 (nice c), system = get 2 (system c), idle = get 3 (idle c),
              iowait = get 4 (iowait c)\<rparr>)"

definition sampleSysinfo :: "(sysinfo \<times> int) option \<Rightarrow> sysinfo \<Rightarrow> sysinfo" where
  "sampleSysinfo info s =
     (case info of
        None \<Rightarrow> s
      | Some (i, mem_unit) \<Rightarrow>
          \<lparr>uptime = uptime i, freeswap = freeswap i * mem_unit, totalswap = totalswap i * mem_unit,
           freeram = freeram i * mem_unit, bufferram = bufferram i * mem_unit, totalram = totalram i * mem_unit,
           sharedram = sharedram i * mem_unit, procs = procs i\<rparr>)"

definition sampleSensorData ::
  "rat \<Rightarrow> int list option \<Rightarrow> (sysinfo \<times> int) option \<Rightarrow> net_lib \<Rightarrow> system_stat \<Rightarrow> system_stat result" where
  "sampleSensorData now vs info lib st =
     bindE (sampleCpuUsage vs (stat_cpu st)) (\<lambda>c.
       let st = st\<lparr>sampleTime := now, stat_cpu := c, stat_sysinfo := sampleSysinfo info (stat_sysinfo st)\<rparr>
       in bindE (sampleNetwork lib (interfaces st) (net_total st))
            (\<lambda>(ifs, tot). Inr (st\<lparr>interfaces := ifs, net_total := tot\<rparr>)))"

subsection \<open>Properties\<close>

text \<open>
  The difference of two samples of a counter is exact as long as the counter did not wrap around
  between them; when it did, the result is one less than the number of counted events.
\<close>

theorem delta_with_overflow_spec:
  "unat (delta_with_overflow s1 s2) =
     (if unat s1 \<le> unat s2 then unat s2 - unat s1 else 2 ^ 64 + unat s2 - unat s1 - 1)"
proof (cases "s1 \<le> s2")
  case True
  then show ?thesis
    by (simp add: delta_with_overflow_def word_le_nat_alt unat_sub_if')
next
  case False
  then have lt: "unat s2 < unat s1" by (simp add: word_le_nat_alt)
  have "-1 - s1 + s2 = word_of_nat (2 ^ 64 + unat s2 - unat s1 - 1)"
  proof -
    define n where "n = 2 ^ 64 + unat s2 - unat s1 - 1"
    have "n + unat s1 + 1 = 2 ^ 64 + unat s2" unfolding n_def using lt u64_lt [of s1] by (simp del: u64_lt)
    then have "(word_of_nat (n + unat s1 + 1) :: u64) = word_of_nat (2 ^ 64 + unat s2)" by simp
    then have "word_of_nat n + s1 + 1 = s2" by simp
    then have "-1 - s1 + s2 = word_of_nat n" by (simp add: algebra_simps)
    then show ?thesis by (simp add: n_def)
  qed
  moreover have "2 ^ 64 + unat s2 - unat s1 - 1 < (18446744073709551616 :: nat)" using lt by simp
  ultimately show ?thesis
    using False lt by (simp add: delta_with_overflow_def unat_of_nat_u64)
qed

text \<open>
  The processor usage between two samples is a percentage: between 0 and 100 whenever the busy
  and the idle counter did not run backwards and at least one of them advanced.
\<close>

lemma getUsage_percentage:
  assumes "getUsage s1 s2 = Inr u"
    and "user s1 + nice s1 + system s1 \<le> user s2 + nice s2 + system s2" and "idle s1 \<le> idle s2"
    and "user s1 + nice s1 + system s1 < user s2 + nice s2 + system s2 \<or> idle s1 < idle s2"
  shows "\<exists>p. u = Some p \<and> 0 \<le> p \<and> p \<le> 100"
proof -
  define a where "a = user s2 + nice s2 + system s2 - (user s1 + nice s1 + system s1)"
  define b where "b = user s2 + nice s2 + system s2 + idle s2 - (user s1 + nice s1 + system s1 + idle s1)"
  have ab: "0 \<le> a" "a \<le> b" "0 < b" using assms(2-4) by (auto simp: a_def b_def)
  have ok: "int_ok a" "int_ok b" and u: "u = Some (dbl (dbl (100 * dbl (of_int a)) / dbl (of_int b)))"
    using assms(1) ab(3) by (auto simp: getUsage_def Let_def a_def b_def split: if_splits)
  have "dbl (of_int a) = of_int a" "dbl (of_int b) = of_int b" "dbl (of_int (100 * a)) = of_int (100 * a)"
    using ok ab by (intro dbl.rnd_int; simp add: int_ok_def)+
  then have e: "u = Some (dbl (100 * of_int a / of_int b))" by (simp add: u)
  have "0 \<le> 100 * (of_int a :: rat) / of_int b" and "100 * (of_int a :: rat) / of_int b \<le> of_int 100"
    using ab by (simp_all add: pos_divide_le_eq)
  then show ?thesis
    unfolding e using dbl.rnd_nonneg dbl.rnd_le_int [of _ 100] by simp
qed

text \<open>The reference for the network sample: the entries of the lines with a name, in order.\<close>

definition net_entry :: "net_lib \<Rightarrow> string \<Rightarrow> nif option result" where
  "net_entry lib line =
     (let l = net_trim lib line; tok = strtok_blank lib (replace_tabs lib l)
      in if instr_colon lib l > 1
         then bindE (tok_network lib tok 1) (\<lambda>r. bindE (tok_network lib tok 9) (\<lambda>s.
                Inr (Some \<lparr>nif_name = take (nat (instr_colon lib l)) l, nif_receive = r, nif_transmit = s\<rparr>)))
         else Inr None)"

fun net_entries :: "net_lib \<Rightarrow> string list \<Rightarrow> nif list result" where
  "net_entries lib [] = Inr []"
| "net_entries lib (line # lines) =
     bindE (net_entry lib line) (\<lambda>e. bindE (net_entries lib lines) (\<lambda>es.
       Inr (case e of None \<Rightarrow> es | Some n \<Rightarrow> n # es)))"

definition entry_map :: "nif list \<Rightarrow> string \<rightharpoonup> nif" where
  "entry_map es = map_of (map (\<lambda>n. (nif_name n, n)) es)"

lemma entry_map_insert: "entry_map es ++ map_insert (nif_name n) n ifs = entry_map (n # es) ++ ifs"
  by (rule ext) (auto simp: entry_map_def map_insert_def map_add_def split: option.splits)

text \<open>What a sample with the interfaces \<open>es\<close> leaves: the new ones are added to the table, all to the totals.\<close>

definition add_entries :: "nif list \<Rightarrow> (string \<rightharpoonup> nif) \<Rightarrow> nif \<Rightarrow> (string \<rightharpoonup> nif) \<times> nif" where
  "add_entries es ifs tot =
     (entry_map es ++ ifs,
      tot\<lparr>nif_receive := foldl net_add (nif_receive tot) (map nif_receive es),
          nif_transmit := foldl net_add (nif_transmit tot) (map nif_transmit es)\<rparr>)"

lemma net_lines_eq:
  "net_lines lib lines ifs tot = bindE (net_entries lib lines) (\<lambda>es. Inr (add_entries es ifs tot))"
  unfolding add_entries_def
proof (induction lines arbitrary: ifs tot)
  case Nil
  then show ?case by (simp add: entry_map_def)
next
  case (Cons line lines)
  let ?l = "net_trim lib line" and ?tok = "strtok_blank lib (replace_tabs lib (net_trim lib line))"
  show ?case
  proof (cases "instr_colon lib ?l > 1")
    case False
    then show ?thesis using Cons by (simp add: net_entry_def bindE_def split: sum.splits)
  next
    case True
    let ?n = "\<lambda>r s. \<lparr>nif_name = take (nat (instr_colon lib ?l)) ?l, nif_receive = r, nif_transmit = s\<rparr>"
    show ?thesis
    proof (cases "tok_network lib ?tok 1")
      case (Inr r)
      show ?thesis
      proof (cases "tok_network lib ?tok 9")
        case (Inr s)
        with True \<open>tok_network lib ?tok 1 = Inr r\<close> show ?thesis
          using Cons entry_map_insert [of _ "?n r s"]
          by (simp add: net_entry_def Let_def bindE_def split: sum.splits)
      qed (use True Inr in \<open>simp add: net_entry_def Let_def\<close>)
    qed (use True in \<open>simp add: net_entry_def Let_def\<close>)
  qed
qed

text \<open>
  A network sample: the totals are the sums over all interfaces of the file; the table of the
  interfaces gets the interfaces that were not in it, and keeps the old values of the ones that
  were, because \<open>std::map::insert\<close> does not overwrite. A second sample into the same object
  therefore does not update any interface.
\<close>

theorem sampleNetwork_spec:
  "sampleNetwork lib ifs tot =
     (case proc_net_dev lib of
        None \<Rightarrow> Inl Ppl7Exception
      | Some lines \<Rightarrow>
          bindE (net_entries lib lines) (\<lambda>es. Inr (\<lambda>name. case ifs name of Some old \<Rightarrow> Some old | None \<Rightarrow> entry_map es name,
            tot\<lparr>nif_receive := foldl net_add Network_clear (map nif_receive es),
                nif_transmit := foldl net_add Network_clear (map nif_transmit es)\<rparr>)))"
  by (simp add: sampleNetwork_def net_lines_eq add_entries_def map_add_def split: option.splits)

end
