(* ===== verification/Printf.thy ===== *)
theory Printf
  imports Dns_Prelude Floating
begin

text \<open>
  The conversions of \<open>printf\<close> that the program writes its reports and its CSV file with: \<open>%llu\<close>, \<open>%d\<close>,
  field widths, and \<open>%0.nf\<close>, which prints the exact decimal value of a \<open>double\<close> rounded to \<open>n\<close> digits,
  ties to even. The locale \<open>column\<close> states what a value needs to be a column of a separated line.
\<close>

subsection \<open>Conversions\<close>

fun decimal :: "nat \<Rightarrow> string" where
  "decimal n =
     (if n < 10 then [char_of (48 + n)] else decimal (n div 10) @ [char_of (48 + n mod 10)])"

declare decimal.simps [simp del]

definition signed_decimal :: "int \<Rightarrow> string" where
  "signed_decimal n = (if n < 0 then ''-'' @ decimal (nat (- n)) else decimal (nat n))"

definition lpad :: "char \<Rightarrow> nat \<Rightarrow> string \<Rightarrow> string" where
  "lpad c w s = replicate (w - length s) c @ s"

definition fixed :: "nat \<Rightarrow> rat \<Rightarrow> string" where
  "fixed n x =
     (let m = nat (rne (\<bar>x\<bar> * 10 ^ n))
      in (if x < 0 then ''-'' else []) @ decimal (m div 10 ^ n) @ ''.'' @ lpad (CHR ''0'') n (decimal (m mod 10 ^ n)))"

subsection \<open>Reading numbers back\<close>

definition number :: "string \<Rightarrow> nat" where
  "number s = foldl (\<lambda>n c. 10 * n + (of_char c - 48)) 0 s"

definition is_digit :: "char \<Rightarrow> bool" where
  "is_digit c \<longleftrightarrow> 48 \<le> (of_char c :: nat) \<and> (of_char c :: nat) \<le> 57"

lemma number_acc: "foldl (\<lambda>n c. 10 * n + (of_char c - 48)) a s = a * 10 ^ length s + number s"
proof (induction s arbitrary: a)
  case (Cons c s)
  show ?case using Cons [of "10 * a + (of_char c - 48)"] Cons [of "of_char c - 48"]
    by (simp add: number_def algebra_simps)
qed (simp add: number_def)

lemma number_append: "number (s @ t) = number s * 10 ^ length t + number t"
  by (simp add: number_def number_acc [of "foldl _ 0 s", unfolded number_def])

lemma number_Nil [simp]: "number [] = 0"
  by (simp add: number_def)

lemma number_digit [simp]: "n < 10 \<Longrightarrow> number [char_of (48 + n)] = n"
  by (simp add: number_def)

lemma number_decimal [simp]: "number (decimal n) = n"
proof (induction n rule: decimal.induct)
  case (1 n)
  then show ?case by (cases "n < 10") (simp_all add: decimal.simps [of n] number_append)
qed

lemma decimal_digits: "c \<in> set (decimal n) \<Longrightarrow> is_digit c"
proof (induction n rule: decimal.induct)
  case (1 n)
  have "is_digit (char_of (48 + d))" if "d < 10" for d :: nat using that by (simp add: is_digit_def)
  then show ?case using 1 by (cases "n < 10") (auto simp: decimal.simps [of n])
qed

lemma length_decimal: "n < 10 ^ k \<Longrightarrow> 0 < k \<Longrightarrow> length (decimal n) \<le> k"
proof (induction n arbitrary: k rule: decimal.induct)
  case (1 n)
  show ?case
  proof (cases "n < 10")
    case False
    then obtain j where j: "k = Suc j" "0 < j" using 1(2,3) by (cases k; cases "k - 1") auto
    have "n div 10 < 10 ^ j" using 1(2) by (simp add: j less_mult_imp_div_less)
    then show ?thesis using 1(1) [OF False _ j(2)] False by (simp add: decimal.simps [of n] j)
  qed (use 1 in \<open>simp add: decimal.simps\<close>)
qed

lemma number_zeros: "number (replicate k (CHR ''0'')) = 0"
  by (induction k) (simp_all add: number_def)

lemma number_lpad [simp]: "number (lpad (CHR ''0'') w s) = number s"
  by (simp add: lpad_def number_append number_zeros)

lemma fixed_chars: "c \<in> set (fixed n x) \<Longrightarrow> is_digit c \<or> c = CHR ''.'' \<or> c = CHR ''-''"
  by (auto simp: fixed_def lpad_def Let_def is_digit_def dest: decimal_digits split: if_splits)

text \<open>A non-negative value printed with \<open>n\<close> decimals is off by at most half a unit of the last one.\<close>

lemma fixed_digits:
  assumes "0 \<le> x" and "0 < n"
  shows "number (filter is_digit (fixed n x)) = nat (rne (x * 10 ^ n))"
proof -
  let ?m = "nat (rne (x * 10 ^ n))"
  have d: "filter is_digit (decimal k) = decimal k" for k
    by (rule filter_True) (simp add: decimal_digits)
  have z: "filter is_digit (lpad (CHR ''0'') n (decimal k)) = lpad (CHR ''0'') n (decimal k)" for k
    by (rule filter_True) (auto simp: lpad_def is_digit_def dest: decimal_digits)
  have "?m mod 10 ^ n < 10 ^ n" by simp
  from length_decimal [OF this assms(2)] have "length (lpad (CHR ''0'') n (decimal (?m mod 10 ^ n))) = n"
    by (simp add: lpad_def)
  then have "number (filter is_digit (fixed n x)) = ?m div 10 ^ n * 10 ^ n + ?m mod 10 ^ n"
    using assms(1) by (simp add: fixed_def Let_def d z number_append) (simp add: is_digit_def)
  then show ?thesis by (simp only: div_mult_mod_eq)
qed

lemma fixed_accurate:
  assumes "0 \<le> x" and "0 < n"
  shows "\<bar>of_nat (number (filter is_digit (fixed n x))) / 10 ^ n - x\<bar> \<le> 1 / (2 * 10 ^ n)"
proof -
  have "0 \<le> rne (x * 10 ^ n)" using rne_mono [of 0 "x * 10 ^ n"] assms(1) rne_int [of 0] by simp
  then have "of_nat (number (filter is_digit (fixed n x))) = (of_int (rne (x * 10 ^ n)) :: rat)"
    by (simp add: fixed_digits [OF assms])
  moreover have "\<bar>of_int (rne (x * 10 ^ n)) / 10 ^ n - x\<bar> = \<bar>of_int (rne (x * 10 ^ n)) - x * 10 ^ n\<bar> / 10 ^ n"
    by (simp add: field_simps abs_divide flip: abs_mult)
  moreover have "\<dots> \<le> 1 / 2 / 10 ^ n" by (intro divide_right_mono rne_error) simp
  ultimately show ?thesis by simp
qed

subsection \<open>Separated columns\<close>

fun split_on :: "char \<Rightarrow> string \<Rightarrow> string list" where
  "split_on c [] = [[]]"
| "split_on c (x # xs) =
     (if x = c then [] # split_on c xs
      else case split_on c xs of [] \<Rightarrow> [[x]] | y # ys \<Rightarrow> (x # y) # ys)"

lemma split_on_column: "c \<notin> set s \<Longrightarrow> split_on c (s @ c # rest) = s # split_on c rest"
  by (induction s) auto

lemma split_on_none: "c \<notin> set s \<Longrightarrow> split_on c s = [s]"
  by (induction s) auto

locale column =
  fixes put :: "'a \<Rightarrow> string" and sep :: char
  assumes put_clean: "sep \<notin> set (put x)"
begin

lemma split_put: "split_on sep (put x @ sep # rest) = put x # split_on sep rest"
  by (rule split_on_column) (rule put_clean)

end

interpretation dec: column decimal "CHR '';''"
  by unfold_locales (auto simp: is_digit_def dest: decimal_digits)

interpretation fix3: column "fixed 3" "CHR '';''"
  by unfold_locales (auto simp: is_digit_def dest: fixed_chars)

interpretation fix4: column "fixed 4" "CHR '';''"
  by unfold_locales (auto simp: is_digit_def dest: fixed_chars)

end
