(* ===== verification/Dns_Sender.thy ===== *)
theory Dns_Sender
  imports Sender_Run Raw_Socket_Receiver System_Stat Printf
begin

text \<open>
  \<open>src/src/dns_sender.cpp\<close>: the class \<open>DNSSender\<close>, the program itself. It reads the command line,
  opens the payload and the CSV file, configures the sender threads, runs one session per query
  rate, and adds up, prints and saves the results.
\<close>

subsection \<open>Results\<close>

record results =
  r_queryrate :: int
  r_counter_send :: u64
  r_counter_received :: u64
  r_bytes_send :: u64
  r_bytes_received :: u64
  r_counter_errors :: u64
  r_packages_lost :: u64
  r_counter_0bytes :: u64
  r_counter_errorcodes :: "u64 list"
  r_rcodes :: "u64 list"
  r_truncated :: u64
  r_rtt_total :: rat
  r_rtt_avg :: rat
  r_rtt_min :: rat
  r_rtt_max :: rat

text \<open>The constructor and \<open>clear\<close> set every member.\<close>

definition Results_clear :: results where
  "Results_clear =
     \<lparr>r_queryrate = 0, r_counter_send = 0, r_counter_received = 0, r_bytes_send = 0, r_bytes_received = 0,
      r_counter_errors = 0, r_packages_lost = 0, r_counter_0bytes = 0, r_counter_errorcodes = replicate 255 0,
      r_rcodes = replicate 16 0, r_truncated = 0, r_rtt_total = 0, r_rtt_avg = 0, r_rtt_min = 0, r_rtt_max = 0\<rparr>"

text \<open>An average of \<open>double\<close>s over a 64-bit count.\<close>

definition average :: "rat \<Rightarrow> u64 \<Rightarrow> rat" where
  "average tot n = (if n \<noteq> 0 then dbl (tot / dbl (of_nat (unat n))) else 0)"

definition Results_minus :: "results \<Rightarrow> results \<Rightarrow> results" where
  "Results_minus second first =
     (let received = r_counter_received second - r_counter_received first;
          tot = dbl (r_rtt_total second - r_rtt_total first)
      in \<lparr>r_queryrate = r_queryrate second - r_queryrate first,
          r_counter_send = r_counter_send second - r_counter_send first,
          r_counter_received = received,
          r_bytes_send = r_bytes_send second - r_bytes_send first,
          r_bytes_received = r_bytes_received second - r_bytes_received first,
          r_counter_errors = r_counter_errors second - r_counter_errors first,
          r_packages_lost = r_packages_lost second - r_packages_lost first,
          r_counter_0bytes = r_counter_0bytes second - r_counter_0bytes first,
          r_counter_errorcodes = map2 (-) (r_counter_errorcodes second) (r_counter_errorcodes first),
          r_rcodes = map2 (-) (r_rcodes second) (r_rcodes first),
          r_truncated = r_truncated second - r_truncated first,
          r_rtt_total = tot,
          r_rtt_avg = average tot received,
          r_rtt_min = dbl (r_rtt_min second - r_rtt_min first),
          r_rtt_max = dbl (r_rtt_max second - r_rtt_max first)\<rparr>)"

subsection \<open>Output\<close>

text \<open>
  What the program prints, in order: lines of text, what an exception's \<open>print\<close> writes, a progress
  line, and the report of a session with the results it was made from.
\<close>

datatype printed =
    Lines "string list"
  | Exception exn
  | Progress "int \<times> int \<times> int \<times> results"
  | Report results "string list"

text \<open>\<open>help\<close>; \<open>version\<close> is the \<open>PACKAGE_VERSION\<close> of the build.\<close>

definition ds_help :: "string \<Rightarrow> printed" where
  "ds_help version =
     (let name = ''dnsmeter '' @ version
      in Lines
        [name,
         replicate (length name) (CHR ''=''),
         [],
         ''Usage:'',
         ''  -h            shows this help'',
         ''  -q HOST       hostname or IP address of sender if you don'' @ [CHR 0x27] @ ''t want to spoof'',
         ''                (see -s)'',
         ''  -s NET|pcap   spoof sender address. Use random IP from the given network'',
         ''                (example: 192.168.0.0/16). Only works when running as root!'',
         ''                If payload is a pcap file, you can use '' @ [CHR 0x22] @ ''-s pcap'' @ [CHR 0x22] @ '' to use the'',
         ''                source addresses and ports from the pcap file.'',
         ''  -e ETH        interface on which the packet receiver should listen'',
         ''                (FreeBSD only)'',
         ''  -z HOST:PORT  hostname or IP address and port of the target nameserver'',
         ''  -p FILE       file with queries/payload or pcap file'',
         ''  -l #          runtime in seconds (default=10 seconds)'',
         ''  -t #          timeout in seconds (default=2 seconds)'',
         ''  -n #          number of worker threads (default=1)'',
         ''  -r #          queryrate (Default=as much as possible)'',
         ''                can be a single value, a comma separated list (rate,rate,...)'',
         ''                or a range and a step value (start - end, step)'',
         ''  -d #          amount of queries in percent on which the DNSSEC-flags are set'',
         ''                (default=0)'',
         ''  -c FILE       CSV-file for results'',
         ''  --ignore      answers are ignored and therefor not counted. In this mode'',
         ''                the tool only generates traffic.''])"

subsection \<open>State\<close>

record dns_sender =
  threadpool :: "sender_thread list"
  ds_TargetIP :: ip_address
  ds_SourceIP :: ip_address
  ds_SourceNet :: ip_network
  CSVFileName :: string
  QueryFilename :: string
  CSVFile :: "string option"
  rates :: "string list"
  InterfaceName :: string
  payload :: payload_file
  Receiver :: "receiver_thread option"
  vis_prev_results :: results
  sys1 :: system_stat
  sys2 :: system_stat
  TargetPort :: int
  Runtime :: int
  Timeout :: int
  ThreadCount :: int
  ds_DnssecRate :: int
  Timeslices :: rat
  ignoreResponses :: bool
  ds_spoofingEnabled :: bool
  spoofFromPcap :: bool

text \<open>
  \<open>CSVFile\<close> is the content of the open file, \<open>None\<close> if it is not open. The constructor: \<open>noip\<close>,
  \<open>nonet\<close> and \<open>st\<close> are default-constructed objects.
\<close>

definition DNSSender_new :: "ip_address \<Rightarrow> ip_network \<Rightarrow> system_stat \<Rightarrow> dns_sender" where
  "DNSSender_new noip nonet st =
     \<lparr>threadpool = [], ds_TargetIP = noip, ds_SourceIP = noip, ds_SourceNet = nonet, CSVFileName = [],
      QueryFilename = [], CSVFile = None, rates = [], InterfaceName = [], payload = PayloadFile_new,
      Receiver = None, vis_prev_results = Results_clear, sys1 = st, sys2 = st, TargetPort = 53, Runtime = 10,
      Timeout = 2, ThreadCount = 1, ds_DnssecRate = 0, Timeslices = 1, ignoreResponses = False,
      ds_spoofingEnabled = False, spoofFromPcap = False\<rparr>"

subsection \<open>The command line\<close>

text \<open>
  Code outside the repository: \<open>HaveArgv\<close> and \<open>GetArgv\<close> (the empty string for a missing option),
  the splitting of strings, the conversions, the regular expression of rate ranges with its three
  groups, name resolution, and the parsing of a network; and the version that the build sets.
\<close>

record arg_lib =
  HaveArgv :: "string \<Rightarrow> bool"
  GetArgv :: "string \<Rightarrow> string"
  split_colon :: "string \<Rightarrow> string list"
  split_comma :: "string \<Rightarrow> string list"
  toInt :: "string \<Rightarrow> int"
  toUnsignedInt64 :: "string \<Rightarrow> u64"
  toLowerCase :: "string \<Rightarrow> string"
  match_range :: "string \<Rightarrow> (string \<times> string \<times> string) option"
  GetHostByName :: "string \<Rightarrow> ip_address list result"
  parse_net :: "string \<Rightarrow> ip_network result"
  PACKAGE_VERSION :: string

text \<open>The loop over a range; it need not end.\<close>

partial_function (option) rate_range :: "u64 \<Rightarrow> u64 \<Rightarrow> u64 \<Rightarrow> string list option" where
  "rate_range i hi step =
     (if i \<le> hi then Option.bind (rate_range (i + step) hi step) (\<lambda>rs. Some (decimal (unat i) # rs))
      else Some [])"

definition getQueryRates :: "arg_lib \<Rightarrow> string \<Rightarrow> string list option" where
  "getQueryRates lib QueryRates =
     (if QueryRates = [] then Some [''0'']
      else
        case match_range lib QueryRates of
          Some (a, b, c) \<Rightarrow> rate_range (toUnsignedInt64 lib a) (toUnsignedInt64 lib b) (toUnsignedInt64 lib c)
        | None \<Rightarrow> Some (split_comma lib QueryRates))"

text \<open>
  \<open>getTarget\<close> and \<open>getSource\<close>: the outcome, and the members as they are then, also after an exception.
  An empty list of addresses means that nothing was found.
\<close>

definition getTarget :: "arg_lib \<Rightarrow> dns_sender \<Rightarrow> unit result \<times> dns_sender" where
  "getTarget lib ds =
     (if \<not> HaveArgv lib ''-z'' then (Inl MissingCommandlineParameter, ds)
      else
        let Tok = split_colon lib (GetArgv lib ''-z'')
        in if length Tok \<noteq> 2 \<and> length Tok \<noteq> 1 then (Inl InvalidCommandlineParameter, ds)
           else
             let ds = ds\<lparr>TargetPort := (if length Tok \<noteq> 2 then 53 else toInt lib (Tok ! 1))\<rparr>
             in if TargetPort ds < 1 \<or> TargetPort ds > 65535 then (Inl InvalidCommandlineParameter, ds)
                else
                  case GetHostByName lib (Tok ! 0) of
                    Inl e \<Rightarrow> (Inl e, ds)
                  | Inr [] \<Rightarrow> (Inl InvalidCommandlineParameter, ds)
                  | Inr (ip # _) \<Rightarrow> (Inr (), ds\<lparr>ds_TargetIP := ip\<rparr>))"

definition getSource :: "arg_lib \<Rightarrow> dns_sender \<Rightarrow> unit result \<times> dns_sender" where
  "getSource lib ds =
     (if HaveArgv lib ''-s'' then
        let Tmp = toLowerCase lib (GetArgv lib ''-s'')
        in if Tmp = ''pcap'' then (Inr (), ds\<lparr>spoofFromPcap := True, ds_spoofingEnabled := True\<rparr>)
           else
             case parse_net lib Tmp of
               Inl e \<Rightarrow> (Inl e, ds)
             | Inr net \<Rightarrow>
                 let ds = ds\<lparr>ds_SourceNet := net\<rparr>
                 in if family (net_first net) \<noteq> IPv4 then (Inl UnsupportedIPFamily, ds)
                    else (Inr (), ds\<lparr>ds_spoofingEnabled := True\<rparr>)
      else
        case GetHostByName lib (GetArgv lib ''-q'') of
          Inl e \<Rightarrow> (Inl e, ds)
        | Inr [] \<Rightarrow> (Inl InvalidCommandlineParameter, ds)
        | Inr (ip # _) \<Rightarrow>
            let ds = ds\<lparr>ds_SourceIP := ip\<rparr>
            in if family ip \<noteq> IPv4 then (Inl UnsupportedIPFamily, ds)
               else (Inr (), ds\<lparr>ds_spoofingEnabled := False\<rparr>))"

text \<open>
  \<open>getParameter\<close>: the return value, what is printed, and the state; \<open>None\<close> when the expansion of the
  rates does not end. \<open>getOptions\<close> is its part after the addresses. A blank line follows each message.
\<close>

definition or_default :: "int \<Rightarrow> int \<Rightarrow> int" where
  "or_default n d = (if n = 0 then d else n)"

definition refuse :: "arg_lib \<Rightarrow> string \<Rightarrow> dns_sender \<Rightarrow> int \<times> printed list \<times> dns_sender" where
  "refuse lib msg ds = (1, [Lines [msg, []], ds_help (PACKAGE_VERSION lib)], ds)"

definition getOptions :: "arg_lib \<Rightarrow> dns_sender \<Rightarrow> (int \<times> printed list \<times> dns_sender) option" where
  "getOptions lib ds =
     (let ds = ds\<lparr>Runtime := toInt lib (GetArgv lib ''-l''), Timeout := toInt lib (GetArgv lib ''-t''),
                  ThreadCount := toInt lib (GetArgv lib ''-n''), CSVFileName := GetArgv lib ''-c'',
                  QueryFilename := GetArgv lib ''-p'',
                  ds_DnssecRate := (if HaveArgv lib ''-d'' then toInt lib (GetArgv lib ''-d'') else ds_DnssecRate ds)\<rparr>
      in if HaveArgv lib ''-d'' \<and> (ds_DnssecRate ds < 0 \<or> ds_DnssecRate ds > 100)
         then Some (refuse lib ''ERROR: DNSSEC-Rate must be an integer between 0 and 100 (-d #)'' ds)
         else
           let ds = ds\<lparr>ThreadCount := or_default (ThreadCount ds) 1, Runtime := or_default (Runtime ds) 10,
                        Timeout := or_default (Timeout ds) 2\<rparr>
           in if QueryFilename ds = [] then Some (refuse lib ''ERROR: Payload-File is missing (-p FILENAME)'' ds)
              else map_option (\<lambda>rs. (0, [], ds\<lparr>rates := rs\<rparr>)) (getQueryRates lib (GetArgv lib ''-r'')))"

definition getParameter :: "arg_lib \<Rightarrow> dns_sender \<Rightarrow> (int \<times> printed list \<times> dns_sender) option" where
  "getParameter lib ds =
     (if HaveArgv lib ''-q'' \<and> HaveArgv lib ''-s''
      then Some (refuse lib ''ERROR: could not use parameters -q and -s together'' ds)
      else if \<not> HaveArgv lib ''-q'' \<and> \<not> HaveArgv lib ''-s''
      then Some (refuse lib (''ERROR: source IP/hostname or network for source address spoofing missing '' @
        ''(-q IP | -s NETWORK)'') ds)
      else
        let ds = ds\<lparr>ignoreResponses := HaveArgv lib ''--ignore'',
                     InterfaceName := (if HaveArgv lib ''-e'' then GetArgv lib ''-e'' else InterfaceName ds)\<rparr>
        in case (case getTarget lib ds of (Inl e, ds) \<Rightarrow> (Inl e, ds) | (Inr _, ds) \<Rightarrow> getSource lib ds) of
             (Inl e, ds) \<Rightarrow>
               Some (1, [Lines [''ERROR: missing or invalid parameter''], Exception e, Lines [[]],
                 ds_help (PACKAGE_VERSION lib)], ds)
           | (Inr _, ds) \<Rightarrow> getOptions lib ds)"

subsection \<open>Files\<close>

text \<open>
  \<open>csv\<close> opens a file for appending and gives its content. \<open>full content text\<close> is the outcome of writing
  \<open>text\<close> behind \<open>content\<close> and flushing it: \<open>None\<close> if that succeeds, and \<open>Some n\<close> if it fails with an
  exception after \<open>n\<close> characters. An empty file gets a header.
\<close>

definition append_csv :: "(string \<Rightarrow> string \<Rightarrow> nat option) \<Rightarrow> string \<Rightarrow> string \<Rightarrow> dns_sender \<Rightarrow> unit result \<times> dns_sender" where
  "append_csv full content text ds =
     (case full content text of
        None \<Rightarrow> (Inr (), ds\<lparr>CSVFile := Some (content @ text)\<rparr>)
      | Some n \<Rightarrow> (Inl Ppl7Exception, ds\<lparr>CSVFile := Some (content @ take n text)\<rparr>))"

definition csv_header :: string where
  "csv_header = ''#QPS Send; QPS Received; QPS Errors; Lostrate; '' @ ''rtt_avg; rtt_min; rtt_max;'' @ [CHR 10]"

definition openCSVFile ::
  "(string \<Rightarrow> string result) \<Rightarrow> (string \<Rightarrow> string \<Rightarrow> nat option) \<Rightarrow> string \<Rightarrow> dns_sender \<Rightarrow> unit result \<times> dns_sender" where
  "openCSVFile csv full Filename ds =
     (case csv Filename of
        Inl e \<Rightarrow> (Inl e, ds)
      | Inr content \<Rightarrow>
          let ds = ds\<lparr>CSVFile := Some content\<rparr>
          in if content = [] then append_csv full [] csv_header ds else (Inr (), ds))"

text \<open>\<open>openFiles\<close>: the handlers catch exceptions; undefined behaviour is none.\<close>

definition openFiles ::
  "(string \<Rightarrow> string result) \<Rightarrow> (string \<Rightarrow> string \<Rightarrow> nat option) \<Rightarrow> file_lib \<Rightarrow> query_lib \<Rightarrow> dns_sender \<Rightarrow>
   (int \<times> printed list \<times> dns_sender) result" where
  "openFiles csv full io ql ds =
     (case (if CSVFileName ds \<noteq> [] then openCSVFile csv full (CSVFileName ds) ds else (Inr (), ds)) of
        (Inl e, ds) \<Rightarrow> Inr (1, [Lines [''ERROR: could not open CSV-file for writing''], Exception e], ds)
      | (Inr _, ds) \<Rightarrow>
          case openQueryFile io ql (QueryFilename ds) (payload ds) of
            Inr pf \<Rightarrow> Inr (0, [], ds\<lparr>payload := pf\<rparr>)
          | Inl e \<Rightarrow>
              if e = UndefinedBehaviour then Inl e
              else Inr (1, [Lines [''ERROR: could not open payload file or it does not contain any queries''], Exception e], ds))"

subsection \<open>Threads\<close>

text \<open>The configuration of a new thread.\<close>

definition prepare_thread :: "dns_sender \<Rightarrow> sender_thread \<Rightarrow> sender_thread result" where
  "prepare_thread ds th =
     bindE (th_setDestination (ds_TargetIP ds) (TargetPort ds) th) (\<lambda>th.
     bindE (setTimeslice (Timeslices ds) (setTimeout (Timeout ds) (setRuntime (Runtime ds) th))) (\<lambda>th.
       let th = th_setPayload (payload ds) (setVerbose False (setDNSSECRate (ds_DnssecRate ds) th))
       in if ds_spoofingEnabled ds
          then if spoofFromPcap ds then Inr (setSourcePcap th) else setSourceNet (ds_SourceNet ds) th
          else Inr (setSourceIP (ds_SourceIP ds) th)))"

text \<open>
  \<open>prepareThreads\<close>: \<open>new i\<close> is the outcome of constructing thread \<open>i\<close>. After an exception the pool has the
  threads that were added before.
\<close>

fun prepare_threads :: "(nat \<Rightarrow> sender_thread result) \<Rightarrow> nat \<Rightarrow> nat \<Rightarrow> dns_sender \<Rightarrow> unit result \<times> dns_sender" where
  "prepare_threads new i 0 ds = (Inr (), ds)"
| "prepare_threads new i (Suc n) ds =
     (case bindE (new i) (prepare_thread ds) of
        Inl e \<Rightarrow> (Inl e, ds)
      | Inr th \<Rightarrow> prepare_threads new (i + 1) n (ds\<lparr>threadpool := threadpool ds @ [th]\<rparr>))"

definition prepareThreads :: "(nat \<Rightarrow> sender_thread result) \<Rightarrow> dns_sender \<Rightarrow> unit result \<times> dns_sender" where
  "prepareThreads new ds = prepare_threads new 0 (nat (ThreadCount ds)) ds"

text \<open>\<open>calcTimeslice\<close> computes in \<open>float\<close>.\<close>

definition calcTimeslice :: "int \<Rightarrow> dns_sender \<Rightarrow> dns_sender" where
  "calcTimeslice rate ds =
     (let t = flt (flt (1000 / flt (of_int rate)) * flt (of_int (ThreadCount ds)))
      in ds\<lparr>Timeslices := (if t < flt (1 / 10) then flt (1 / 10) else t)\<rparr>)"

text \<open>The loop of \<open>run\<close> that hands rate and slice to the threads; \<open>/\<close> of C truncates.\<close>

fun set_rates :: "u64 \<Rightarrow> rat \<Rightarrow> sender_thread list \<Rightarrow> sender_thread list result" where
  "set_rates qps ts [] = Inr []"
| "set_rates qps ts (th # ths) =
     bindE (setTimeslice ts (setQueryRate qps th)) (\<lambda>th. bindE (set_rates qps ts ths) (\<lambda>ths. Inr (th # ths)))"

definition start_rate :: "int \<Rightarrow> dns_sender \<Rightarrow> dns_sender result" where
  "start_rate rate ds =
     (let ds = (if rate \<noteq> 0 then calcTimeslice rate ds else ds)
      in bindE (set_rates (word_of_int (rate sdiv ThreadCount ds)) (Timeslices ds) (threadpool ds))
           (\<lambda>ths. Inr (ds\<lparr>threadpool := ths\<rparr>)))"

subsection \<open>Adding up\<close>

definition add_thread :: "results \<Rightarrow> sender_thread \<Rightarrow> results" where
  "add_thread r th =
     r\<lparr>r_counter_send := r_counter_send r + getPacketsSend th, r_bytes_send := r_bytes_send r + getBytesSend th,
       r_counter_errors := r_counter_errors r + getErrors th,
       r_counter_0bytes := r_counter_0bytes r + getCounter0Bytes th,
       r_counter_errorcodes := map2 (+) (r_counter_errorcodes r) (counter_errorcodes th)\<rparr>"

definition add_receiver :: "results \<Rightarrow> counter \<Rightarrow> results" where
  "add_receiver r c =
     r\<lparr>r_counter_received := num_pkgs c, r_bytes_received := bytes_rcv c, r_rtt_total := rtt_total c,
       r_rtt_avg := average (rtt_total c) (num_pkgs c), r_rtt_min := rtt_min c, r_rtt_max := rtt_max c,
       r_rcodes := rcodes c, r_truncated := truncated c\<rparr>"

definition getResults :: "dns_sender \<Rightarrow> results" where
  "getResults ds =
     (let r = foldl add_thread Results_clear (threadpool ds);
          r = (case Receiver ds of None \<Rightarrow> r | Some t \<Rightarrow> add_receiver r (getCounter t));
          r = r\<lparr>r_packages_lost := r_counter_send r - r_counter_received r\<rparr>
      in if r_counter_received r > r_counter_send r then r\<lparr>r_packages_lost := 0\<rparr> else r)"

text \<open>\<open>showCurrentStats\<close>: what it prints, and the state; \<open>secs\<close> is the time since the start.\<close>

definition showCurrentStats :: "int \<Rightarrow> dns_sender \<Rightarrow> (int \<times> int \<times> int \<times> results) \<times> dns_sender" where
  "showCurrentStats secs ds =
     (let result = getResults ds;
          diff = Results_minus result (vis_prev_results ds);
          ds = ds\<lparr>vis_prev_results := result\<rparr>;
          h = secs sdiv 3600;
          secs = secs - h * 3600;
          m = secs sdiv 60;
          s = secs - m * 60
      in ((h, m, s, diff), ds))"

subsection \<open>Reports\<close>

text \<open>
  \<open>(ppluint64)((double)n / (double)Runtime)\<close>, undefined outside of the type, and the percentage of
  lost packets, \<open>None\<close> for a division by zero.
\<close>

definition per_second :: "u64 \<Rightarrow> int \<Rightarrow> nat result" where
  "per_second n secs =
     (let x = dbl (dbl (of_nat (unat n)) / dbl (of_int secs))
      in if secs = 0 \<or> \<not> (-1 < x \<and> x < 2 ^ 64) then Inl UndefinedBehaviour else Inr (nat \<lfloor>x\<rfloor>))"

definition lost_percent :: "results \<Rightarrow> rat option" where
  "lost_percent r =
     (if r_counter_send r = 0 then None
      else Some (dbl (dbl (dbl (of_nat (unat (r_packages_lost r))) * 100) / dbl (of_nat (unat (r_counter_send r))))))"

text \<open>
  \<open>saveResultsToCsv\<close> appends a line to the file. \<open>nan\<close> is how the C library prints a value that is
  not a number (\<open>nan\<close> or \<open>-nan\<close>).
\<close>

definition lost_text :: "string \<Rightarrow> results \<Rightarrow> string" where
  "lost_text nan r = (case lost_percent r of None \<Rightarrow> nan | Some p \<Rightarrow> fixed 3 p)"

definition csv_line :: "string \<Rightarrow> int \<Rightarrow> results \<Rightarrow> string result" where
  "csv_line nan secs r =
     bindE (per_second (r_counter_send r) secs) (\<lambda>s.
     bindE (per_second (r_counter_received r) secs) (\<lambda>v.
     bindE (per_second (r_counter_errors r) secs) (\<lambda>e.
       Inr (decimal s @ '';'' @ decimal v @ '';'' @ decimal e @ '';'' @ lost_text nan r @ '';'' @
         fixed 4 (dbl (r_rtt_avg r * 1000)) @ '';'' @ fixed 4 (dbl (r_rtt_min r * 1000)) @ '';'' @
         fixed 4 (dbl (r_rtt_max r * 1000)) @ '';'' @ [CHR 10]))))"

definition saveResultsToCsv ::
  "(string \<Rightarrow> string \<Rightarrow> nat option) \<Rightarrow> string \<Rightarrow> results \<Rightarrow> dns_sender \<Rightarrow> unit result \<times> dns_sender" where
  "saveResultsToCsv full nan r ds =
     (case CSVFile ds of
        None \<Rightarrow> (Inr (), ds)
      | Some content \<Rightarrow>
          case csv_line nan (Runtime ds) r of
            Inl e \<Rightarrow> (Inl e, ds)
          | Inr line \<Rightarrow> append_csv full content line ds)"

text \<open>
  \<open>presentResults\<close>. The network counters of the interface: \<open>operator[]\<close> inserts an empty entry if
  there is none. The response codes: the loop shows the first 15.
\<close>

definition map_index :: "string \<Rightarrow> (string \<rightharpoonup> nif) \<Rightarrow> nif \<times> (string \<rightharpoonup> nif)" where
  "map_index k m =
     (case m k of
        Some n \<Rightarrow> (n, m)
      | None \<Rightarrow> let n = \<lparr>nif_name = [], nif_receive = Network_clear, nif_transmit = Network_clear\<rparr> in (n, m(k \<mapsto> n)))"

definition present_network :: "dns_sender \<Rightarrow> (network \<times> network) \<times> dns_sender" where
  "present_network ds =
     (let (net1, m1) = map_index (InterfaceName ds) (interfaces (sys1 ds));
          (net2, m2) = map_index (InterfaceName ds) (interfaces (sys2 ds));
          ds = ds\<lparr>sys1 := (sys1 ds)\<lparr>interfaces := m1\<rparr>, sys2 := (sys2 ds)\<lparr>interfaces := m2\<rparr>\<rparr>
      in ((getDelta (nif_transmit net1) (nif_transmit net2), getDelta (nif_receive net1) (nif_receive net2)), ds))"

definition shown_rcodes :: "results \<Rightarrow> (nat \<times> u64) list" where
  "shown_rcodes r = filter (\<lambda>(i, n). n \<noteq> 0) (zip [0..<15] (r_rcodes r))"

text \<open>
  The text of the report. \<open>ull w n\<close> is \<open>%wllu\<close>; a line per error code that occurred, with the text
  that \<open>strerror\<close> has for it; \<open>qps\<close> is a rate per second.
\<close>

definition ull :: "nat \<Rightarrow> nat \<Rightarrow> string" where
  "ull w n = lpad (CHR '' '') w (decimal n)"

definition rcode_names :: "string list" where
  "rcode_names = [''OK'', ''FORMAT'', ''SRVFAIL'', ''NAME'', ''NOTIMPL'', ''REFUSED'', ''YXDOMAIN'', ''YXRRSET'',
     ''NXRRSET'', ''NOTAUTH'', ''NOTZONE'', ''11'', ''12'', ''13'', ''14'', ''15'']"

fun error_lines :: "(nat \<Rightarrow> string) \<Rightarrow> int \<Rightarrow> (nat \<times> u64) list \<Rightarrow> string list result" where
  "error_lines strerror secs [] = Inr []"
| "error_lines strerror secs ((i, n) # es) =
     (if n > 0 then
        bindE (per_second n secs) (\<lambda>qps. bindE (error_lines strerror secs es) (\<lambda>ls.
          Inr ((''Errors '' @ ull 3 i @ '':       '' @ ull 10 (unat n) @ '', Qps: '' @ ull 10 qps @ '' ['' @
            strerror i @ '']'') # ls)))
      else error_lines strerror secs es)"

definition counted_line :: "string \<Rightarrow> u64 \<Rightarrow> int \<Rightarrow> string list result" where
  "counted_line label n secs =
     (if n \<noteq> 0 then bindE (per_second n secs) (\<lambda>qps. Inr [label @ ull 10 (unat n) @ '', Qps: '' @ ull 10 qps])
      else Inr [])"

definition report_lines ::
  "(nat \<Rightarrow> string) \<Rightarrow> string \<Rightarrow> results \<Rightarrow> network \<Rightarrow> network \<Rightarrow> dns_sender \<Rightarrow> string list result" where
  "report_lines strerror nan r transmit received ds =
     (let kb = (\<lambda>n :: u64. unat n div 1024); mbit = (\<lambda>n. n div (1024 * 1024))
      in bindE (per_second (r_counter_send r) (Runtime ds)) (\<lambda>qps_send.
         bindE (per_second (r_bytes_send r) (Runtime ds)) (\<lambda>bps_send.
         bindE (per_second (r_counter_received r) (Runtime ds)) (\<lambda>qps_received.
         bindE (per_second (r_bytes_received r) (Runtime ds)) (\<lambda>bps_received.
         bindE (counted_line ''Errors:           '' (r_counter_errors r) (Runtime ds)) (\<lambda>l1.
         bindE (counted_line ''Errors 0Byte:     '' (r_counter_0bytes r) (Runtime ds)) (\<lambda>l2.
         bindE (error_lines strerror (Runtime ds) (zip [0..<255] (r_counter_errorcodes r))) (\<lambda>l3.
           Inr ([replicate 79 (CHR ''=''),
             ''network if '' @ InterfaceName ds @ '' Pkt send: '' @ decimal (unat (net_packets transmit)) @ '', rcv: '' @
               decimal (unat (net_packets received)) @ '', Data send: '' @ decimal (kb (net_bytes transmit)) @
               '' KB, rcv: '' @ decimal (kb (net_bytes received)) @ '' KB'',
             ''DNS Queries send: '' @ ull 10 (unat (r_counter_send r)) @ '', Qps: '' @ ull 7 qps_send @ '', Data send: '' @
               ull 7 (kb (r_bytes_send r)) @ '' KB = '' @ ull 6 (mbit bps_send) @ '' MBit'',
             ''DNS Queries rcv:  '' @ ull 10 (unat (r_counter_received r)) @ '', Qps: '' @ ull 7 qps_received @ '', Data rcv:  '' @
               ull 7 (kb (r_bytes_received r)) @ '' KB = '' @ ull 6 (mbit bps_received) @ '' MBit'',
             ''DNS Queries lost: '' @ ull 10 (unat (r_packages_lost r)) @ '' = '' @ lost_text nan r @ '' %'',
             ''DNS rtt average: '' @ fixed 4 (dbl (r_rtt_avg r * 1000)) @ '' ms, '' @ ''min: '' @
               fixed 4 (dbl (r_rtt_min r * 1000)) @ '' ms, '' @ ''max: '' @ fixed 4 (dbl (r_rtt_max r * 1000)) @ '' ms'',
             ''DNS truncated: '' @ decimal (unat (r_truncated r)),
             ''DNS RCODES: '' @ concat (map (\<lambda>(i, n). rcode_names ! i @ '': '' @ decimal (unat n) @ '', '') (shown_rcodes r))]
             @ l1 @ l2 @ l3)))))))))"

definition presentResults ::
  "(nat \<Rightarrow> string) \<Rightarrow> string \<Rightarrow> results \<Rightarrow> dns_sender \<Rightarrow> (string list \<times> dns_sender) result" where
  "presentResults strerror nan r ds =
     (let ((transmit, received), ds) = present_network ds
      in bindE (report_lines strerror nan r transmit received ds) (\<lambda>ls. Inr (ls, ds)))"

subsection \<open>Query rates\<close>

text \<open>The slice for \<open>q\<close> queries per second on \<open>n\<close> threads, before the lower bound.\<close>

definition slice_ms :: "int \<Rightarrow> int \<Rightarrow> rat" where
  "slice_ms q n = flt (flt (1000 / flt (of_int q)) * flt (of_int n))"

lemma slice_ms_le:
  assumes "0 < n" and "n \<le> 2 ^ 20" and "n < q"
  shows "slice_ms q n \<le> 1000"
proof -
  define Q N e :: rat where "Q = of_int q" and "N = of_int n" and "e = 1 / 2 ^ 24"
  have e: "0 < e" "e < 1 / 16" by (simp_all add: e_def)
  have N: "0 < N" "N \<le> 2 ^ 20" "N + 1 \<le> Q"
    using assms by (simp_all add: N_def Q_def flip: of_int_le_iff)
  have Ne: "N * e \<le> 1 / 16" using N(2) by (simp add: e_def)
  have fn: "flt N = N" unfolding N_def using assms(1,2) by (intro flt.rnd_int) simp
  define fq where "fq = flt Q"
  have fq: "Q * (1 - e) \<le> fq" unfolding fq_def e_def using N by (intro flt.rnd_lower) simp
  have "(N + 1) * (1 - e) \<le> Q * (1 - e)" using N e by (intro mult_right_mono) simp_all
  then have le: "N * (1 + e) \<le> fq" using fq Ne e by (simp add: algebra_simps)
  have pos: "0 < fq" using le N e by (meson less_le_trans mult_pos_pos add_pos_pos zero_less_one)
  have "flt (1000 / fq) \<le> 1000 / fq * (1 + e)" unfolding e_def using pos by (intro flt.rnd_upper) simp
  then have "flt (1000 / fq) * N \<le> 1000 / fq * (1 + e) * N" using N by (intro mult_right_mono) simp_all
  also have "\<dots> = 1000 * (N * (1 + e)) / fq" by (simp add: algebra_simps)
  also have "\<dots> \<le> of_int 1000" using le pos by (simp add: pos_divide_le_eq)
  finally have "flt (flt (1000 / fq) * N) \<le> of_int 1000" by (intro flt.rnd_le_int) simp_all
  then show ?thesis by (simp add: slice_ms_def fq_def Q_def fn flip: N_def)
qed

lemma slice_ms_gt:
  assumes "0 < q" and "n \<le> 2 ^ 20" and "q < n"
  shows "1000 < slice_ms q n"
proof -
  define Q N e :: rat where "Q = of_int q" and "N = of_int n" and "e = 1 / 2 ^ 24"
  have e: "0 < e" "e < 1 / 16" by (simp_all add: e_def)
  have Q: "1 \<le> Q" "Q \<le> 2 ^ 20" "Q + 1 \<le> N"
    using assms by (simp_all add: N_def Q_def flip: of_int_le_iff)
  have Qe: "Q * e \<le> 1 / 16" using Q(2) by (simp add: e_def)
  have f: "flt N = N" "flt Q = Q" unfolding N_def Q_def using assms by (intro flt.rnd_int; simp)+
  have "1000 / Q * (1 - e) \<le> flt (1000 / Q)" unfolding e_def using Q by (intro flt.rnd_lower) simp
  moreover have "0 \<le> flt (1000 / Q)" using Q by (intro flt.rnd_nonneg) simp
  ultimately have "1000 / Q * (1 - e) * (Q + 1) \<le> flt (1000 / Q) * N"
    using Q e by (intro mult_mono) simp_all
  then have "1000 / Q * (1 - e) * (Q + 1) * (1 - e) \<le> flt (1000 / Q) * N * (1 - e)"
    using e by (intro mult_right_mono) simp_all
  also have "\<dots> \<le> flt (flt (1000 / Q) * N)"
    unfolding e_def using Q by (intro flt.rnd_lower mult_nonneg_nonneg flt.rnd_nonneg) simp_all
  finally have "1000 * ((1 - e) * (1 - e) * (Q + 1)) / Q \<le> flt (flt (1000 / Q) * N)"
    by (simp add: algebra_simps)
  moreover have "Q < (1 - e) * (1 - e) * (Q + 1)"
  proof -
    have "(1 - 2 * e) * (Q + 1) \<le> (1 - e) * (1 - e) * (Q + 1)"
      using Q by (intro mult_right_mono) (simp_all add: algebra_simps)
    moreover have "Q < (1 - 2 * e) * (Q + 1)" using Qe e by (simp add: algebra_simps)
    ultimately show ?thesis by linarith
  qed
  then have "1000 < 1000 * ((1 - e) * (1 - e) * (Q + 1)) / Q" using Q by (simp add: pos_less_divide_eq)
  ultimately show ?thesis by (simp add: slice_ms_def f flip: N_def Q_def)
qed

lemma slice_ms_13: "1000 < slice_ms 13 13"
  by code_simp

lemma set_rates_Inr:
  assumes "\<not> (ts = 0 \<or> ts > 1000)"
  shows "set_rates qps ts ths = Inr (map (\<lambda>th. th\<lparr>queryrate := qps, Timeslice := dbl (ts / 1000)\<rparr>) ths)"
  using assms by (induction ths) (simp_all add: setTimeslice_def setQueryRate_def)

lemma set_rates_Inl:
  assumes "ts = 0 \<or> ts > 1000" and "ths \<noteq> []"
  shows "set_rates qps ts ths = Inl InvalidArgumentsException"
  using assms by (cases ths) (simp_all add: setTimeslice_def)

text \<open>The slice of a rate, with the lower bound.\<close>

definition slice_of :: "int \<Rightarrow> int \<Rightarrow> rat" where
  "slice_of q n = max (slice_ms q n) (flt (1 / 10))"

lemma slice_of_bounds: "1 / 20 \<le> slice_of q n" "slice_of q n \<le> 1000 \<longleftrightarrow> slice_ms q n \<le> 1000"
proof -
  have "(1 / 10) * (1 - 1 / 2 ^ 24) \<le> flt (1 / 10)" by (rule flt.rnd_lower) simp
  moreover have "flt (1 / 10) \<le> of_int 1" by (rule flt.rnd_le_int) simp_all
  ultimately show "1 / 20 \<le> slice_of q n" "slice_of q n \<le> 1000 \<longleftrightarrow> slice_ms q n \<le> 1000"
    by (auto simp: slice_of_def le_max_iff_disj)
qed

lemma calcTimeslice_slice: "calcTimeslice q ds = ds\<lparr>Timeslices := slice_of q (ThreadCount ds)\<rparr>"
  by (simp add: calcTimeslice_def Let_def slice_of_def slice_ms_def max_def)

lemma start_rate_outcome:
  assumes "0 < q" and "threadpool ds \<noteq> []"
  shows "start_rate q ds =
    (if slice_ms q (ThreadCount ds) \<le> 1000
     then Inr (ds\<lparr>Timeslices := slice_of q (ThreadCount ds), threadpool := map (\<lambda>th. th\<lparr>queryrate :=
       word_of_int (q sdiv ThreadCount ds), Timeslice := dbl (slice_of q (ThreadCount ds) / 1000)\<rparr>) (threadpool ds)\<rparr>)
     else Inl InvalidArgumentsException)"
proof -
  have "slice_of q (ThreadCount ds) \<noteq> 0" using slice_of_bounds(1) [of q "ThreadCount ds"] by auto
  then show ?thesis
    using assms slice_of_bounds(2) [of q "ThreadCount ds"]
    by (cases "slice_ms q (ThreadCount ds) \<le> 1000")
       (simp_all add: start_rate_def calcTimeslice_slice set_rates_Inr set_rates_Inl not_less not_le)
qed

lemma sdiv_pos: "0 \<le> (a :: int) \<Longrightarrow> 0 < b \<Longrightarrow> a sdiv b = a div b"
  by (simp add: signed_divide_int_def sgn_if)

lemma slice_of_ok: "slice_ms q n \<le> 1000 \<Longrightarrow> 1 / 100000 \<le> dbl (slice_of q n / 1000) \<and> dbl (slice_of q n / 1000) \<le> 1"
proof -
  assume le: "slice_ms q n \<le> 1000"
  have "dbl (slice_of q n / 1000) \<le> of_int 1"
    using le slice_of_bounds(2) by (intro dbl.rnd_le_int) simp_all
  moreover have "(slice_of q n / 1000) * (1 - 1 / 2 ^ 53) \<le> dbl (slice_of q n / 1000)"
    using slice_of_bounds(1) [of q n] by (intro dbl.rnd_lower) simp
  moreover have "1 / 20000 * (1 - 1 / 2 ^ 53) \<le> (slice_of q n / 1000) * (1 - 1 / 2 ^ 53)"
    using slice_of_bounds(1) [of q n] by (intro mult_right_mono) simp_all
  ultimately show ?thesis by auto
qed

text \<open>
  C21. Starting a session with at most \<open>2 ^ 20\<close> threads: a rate below the number of threads would leave each thread a rate of zero,
  which means \<open>unlimited\<close>, but such a session is refused before it starts; for every rate above the
  number of threads the session starts, each thread gets an equal share of the rate, rounded down
  and at least one, and a slice length with which \<open>runWithRateLimit\<close> is defined.
\<close>

theorem start_rate_safe:
  assumes "0 < q" and "0 < ThreadCount ds" and "ThreadCount ds \<le> 2 ^ 20" and "threadpool ds \<noteq> []"
    and "q < 2 ^ 31"
  shows "(q < ThreadCount ds \<longrightarrow> start_rate q ds = Inl InvalidArgumentsException) \<and>
    (ThreadCount ds < q \<longrightarrow> (\<exists>ds'. start_rate q ds = Inr ds' \<and> length (threadpool ds') = length (threadpool ds) \<and>
      (\<forall>th\<in>set (threadpool ds'). int (unat (queryrate th)) = q div ThreadCount ds \<and> 0 < queryrate th \<and>
        (1 \<le> runtime th \<and> runtime th \<le> 2147483 \<longrightarrow> slice_ok (runtime th) (Timeslice th)))))"
proof (intro conjI impI)
  assume "q < ThreadCount ds"
  then show "start_rate q ds = Inl InvalidArgumentsException"
    using slice_ms_gt [OF assms(1,3)] assms by (simp add: start_rate_outcome)
next
  assume lt: "ThreadCount ds < q"
  let ?n = "ThreadCount ds"
  have ms: "slice_ms q ?n \<le> 1000" using slice_ms_le [OF assms(2,3) lt] .
  have "1 \<le> q div ?n" using zdiv_mono1 [of ?n q ?n] lt assms(2) by simp
  moreover have "q div ?n \<le> q" using zdiv_mono2 [of q 1 ?n] assms(1,2) by simp
  ultimately have u: "int (unat (word_of_int (q sdiv ?n) :: u64)) = q div ?n"
    using assms by (simp add: sdiv_pos uint_word_of_int take_bit_eq_mod)
  have "0 < unat (word_of_int (q sdiv ?n) :: u64)" using u \<open>1 \<le> q div ?n\<close> by linarith
  then have pos: "(0 :: u64) < word_of_int (q sdiv ?n)" by (simp add: word_less_nat_alt)
  show "\<exists>ds'. start_rate q ds = Inr ds' \<and> length (threadpool ds') = length (threadpool ds) \<and>
      (\<forall>th\<in>set (threadpool ds'). int (unat (queryrate th)) = q div ?n \<and> 0 < queryrate th \<and>
        (1 \<le> runtime th \<and> runtime th \<le> 2147483 \<longrightarrow> slice_ok (runtime th) (Timeslice th)))"
    using ms assms(1,4) u pos slice_of_ok [OF ms]
    by (auto simp: start_rate_outcome slice_ok_def)
qed

definition demo_stat :: system_stat where
  "demo_stat = \<lparr>sampleTime = 0, stat_cpu = \<lparr>user = 0, nice = 0, system = 0, idle = 0, iowait = 0\<rparr>,
     stat_sysinfo = \<lparr>uptime = 0, freeswap = 0, totalswap = 0, freeram = 0, bufferram = 0, totalram = 0,
       sharedram = 0, procs = 0\<rparr>,
     net_total = \<lparr>nif_name = [], nif_receive = Network_clear, nif_transmit = Network_clear\<rparr>,
     interfaces = (\<lambda>_. None)\<rparr>"

text \<open>A program with \<open>n\<close> configured threads.\<close>

definition demo_sender :: "nat \<Rightarrow> dns_sender" where
  "demo_sender n = (DNSSender_new \<lparr>family = IPv4, addr = 0\<rparr> \<lparr>net_first = \<lparr>family = IPv4, addr = 0\<rparr>, prefixlen = 0\<rparr>
     demo_stat)\<lparr>threadpool := replicate n demo_thread, ThreadCount := int n\<rparr>"

lemma demo_sender_simps: "ThreadCount (demo_sender n) = int n" "threadpool (demo_sender n) = replicate n demo_thread"
    "Receiver (demo_sender n) = None" "Runtime (demo_sender n) = 10"
  by (simp_all add: demo_sender_def DNSSender_new_def)

theorem start_rate_safe_witness:
  "start_rate 1 (demo_sender 2) = Inl InvalidArgumentsException \<and>
   (\<exists>ds'. start_rate 1000 (demo_sender 2) = Inr ds' \<and> (\<forall>th\<in>set (threadpool ds'). int (unat (queryrate th)) = 500))"
proof -
  have "demo_sender 2 = demo_sender 2 \<and> threadpool (demo_sender 2) \<noteq> []" by (simp add: demo_sender_simps)
  then show ?thesis
    using start_rate_safe [of 1 "demo_sender 2"] start_rate_safe [of 1000 "demo_sender 2"]
    by (auto simp: demo_sender_simps)
qed

text \<open>
  At a rate equal to the number of threads the single-precision arithmetic of \<open>calcTimeslice\<close> can
  exceed the limit of 1000 milliseconds by one unit in the last place: with 13 threads a rate of 13
  queries per second is refused, although one query per thread and second is a valid session (and 2
  threads at rate 2 are accepted).
\<close>

theorem start_rate_rounding:
  "start_rate 13 (demo_sender 13) = Inl InvalidArgumentsException \<and> (\<exists>ds'. start_rate 2 (demo_sender 2) = Inr ds')"
proof -
  have "\<not> slice_ms 13 13 \<le> 1000" using slice_ms_13 by simp
  moreover have "slice_ms 2 2 \<le> 1000" by code_simp
  ultimately show ?thesis by (simp add: start_rate_outcome demo_sender_simps)
qed

subsection \<open>Ranges of rates\<close>

lemma rate_range_done: "\<not> i \<le> hi \<Longrightarrow> rate_range i hi step = Some []"
  by (subst rate_range.simps) simp

lemma rate_range_step:
  "i \<le> hi \<Longrightarrow> rate_range i hi step = Option.bind (rate_range (i + step) hi step) (\<lambda>rs. Some (decimal (unat i) # rs))"
  by (subst rate_range.simps) simp

lemma rate_range_values:
  assumes "0 < unat step" and "unat hi + unat step < 2 ^ 64"
  shows "rate_range i hi step =
    Some (map (\<lambda>k. decimal (unat i + k * unat step))
      [0..<if unat i \<le> unat hi then (unat hi - unat i) div unat step + 1 else 0])"
proof (induction "unat hi + 1 - unat i" arbitrary: i rule: less_induct)
  case less
  define A H S where "A = unat i" and "H = unat hi" and "S = unat step"
  show ?case
  proof (cases "A \<le> H")
    case False
    then show ?thesis by (simp add: A_def H_def rate_range_done word_le_nat_alt)
  next
    case True
    have S: "0 < S" "H + S < 18446744073709551616" using assms by (simp_all add: S_def H_def)
    have next_i: "unat (i + step) = A + S"
      using True S by (simp add: unat_word_ariths A_def S_def)
    have "H + 1 - (A + S) < H + 1 - A" using True S(1) by linarith
    then have IH: "rate_range (i + step) hi step =
        Some (map (\<lambda>k. decimal (A + S + k * S)) [0..<if A + S \<le> H then (H - (A + S)) div S + 1 else 0])"
      using less [of "i + step"] by (simp only: next_i flip: A_def H_def S_def)
    have cnt: "(if A + S \<le> H then (H - (A + S)) div S + 1 else 0) = (H - A) div S"
    proof (cases "A + S \<le> H")
      case True
      then have "H - A = (H - (A + S)) + S" by simp
      then have "(H - A) div S = (H - (A + S)) div S + 1" using S(1) by (metis div_add_self2 less_not_refl)
      with True show ?thesis by simp
    next
      case False
      then have "H - A < S" using S(1) by linarith
      with False show ?thesis by simp
    qed
    have "rate_range i hi step = Some (decimal A # map (\<lambda>k. decimal (A + S + k * S)) [0..<(H - A) div S])"
      using True IH unfolding cnt by (simp add: rate_range_step word_le_nat_alt A_def H_def)
    also have "map (\<lambda>k. decimal (A + S + k * S)) [0..<(H - A) div S] =
        map (\<lambda>k. decimal (A + k * S)) [Suc 0..<Suc ((H - A) div S)]"
      by (simp add: map_Suc_upt [symmetric] algebra_simps del: upt_Suc)
    also have "decimal A # \<dots> = map (\<lambda>k. decimal (A + k * S)) [0..<Suc ((H - A) div S)]"
      by (simp add: upt_conv_Cons del: upt_Suc)
    finally show ?thesis using True by (simp add: A_def H_def S_def del: upt_Suc)
  qed
qed

lemma rate_range_diverges: "i \<le> hi \<Longrightarrow> rate_range i hi 0 = None"
proof (rule ccontr)
  assume le: "i \<le> hi" and "rate_range i hi 0 \<noteq> None"
  then obtain rs where r: "rate_range i hi 0 = Some rs" by blast
  have "(0 :: u64) = 0 \<longrightarrow> \<not> i \<le> hi"
  proof (rule rate_range.raw_induct [where P = "\<lambda>i hi step rs. step = 0 \<longrightarrow> \<not> i \<le> hi", OF _ r])
    fix f :: "u64 \<Rightarrow> u64 \<Rightarrow> u64 \<Rightarrow> string list option" and i hi step :: u64 and rs
    assume IH: "\<And>i hi step rs. f i hi step = Some rs \<Longrightarrow> step = 0 \<longrightarrow> \<not> i \<le> hi"
      and "(if i \<le> hi then Option.bind (f (i + step) hi step) (\<lambda>rs. Some (decimal (unat i) # rs)) else Some []) = Some rs"
    then show "step = 0 \<longrightarrow> \<not> i \<le> hi"
      by (auto simp: Option.bind_eq_Some_conv split: if_splits dest!: IH)
  qed
  with le show False by simp
qed

text \<open>
  C34. A range of rates \<open>first-last,step\<close> with \<open>first\<close> not above \<open>last\<close> expands to the rates \<open>first\<close>, \<open>first + step\<close> and so on up to
  \<open>last\<close>, in order and as decimal numbers, for every step that is positive and does not overflow
  past \<open>last\<close>; with a step of zero the expansion never ends.
\<close>

theorem getQueryRates_range:
  assumes "str \<noteq> []" and "match_range lib str = Some (x, y, z)"
    and "first = toUnsignedInt64 lib x" and "hi = toUnsignedInt64 lib y" and "step = toUnsignedInt64 lib z"
  shows "(0 < unat step \<and> unat hi + unat step < 2 ^ 64 \<longrightarrow>
      getQueryRates lib str = Some (map (\<lambda>k. decimal (unat first + k * unat step))
        [0..<if unat first \<le> unat hi then (unat hi - unat first) div unat step + 1 else 0])) \<and>
    (step = 0 \<and> first \<le> hi \<longrightarrow> getQueryRates lib str = None)"
  using assms rate_range_values [of step hi first] rate_range_diverges [of first hi]
  by (auto simp: getQueryRates_def simp del: upt_Suc)

text \<open>A library for the witnesses that knows one range.\<close>

definition demo_args :: arg_lib where
  "demo_args = \<lparr>HaveArgv = (\<lambda>_. False), GetArgv = (\<lambda>_. []), split_colon = (\<lambda>s. [s]), split_comma = (\<lambda>s. [s]),
     toInt = (\<lambda>_. 0), toUnsignedInt64 = (\<lambda>s. if s = ''a'' then 100 else if s = ''b'' then 250 else 50),
     toLowerCase = (\<lambda>s. s), match_range = (\<lambda>_. Some (''a'', ''b'', ''c'')), GetHostByName = (\<lambda>_. Inr []),
     parse_net = (\<lambda>_. Inl Ppl7Exception), PACKAGE_VERSION = ''1.0''\<rparr>"

theorem getQueryRates_range_witness: "getQueryRates demo_args ''100-250,50'' = Some [''100'', ''150'', ''200'', ''250'']"
proof -
  have "match_range demo_args ''100-250,50'' = Some (''a'', ''b'', ''c'')" "toUnsignedInt64 demo_args ''a'' = 100"
      "toUnsignedInt64 demo_args ''b'' = 250" "toUnsignedInt64 demo_args ''c'' = 50"
    by (simp_all add: demo_args_def)
  then have "getQueryRates demo_args ''100-250,50'' = Some (map (\<lambda>k. decimal (100 + k * 50)) [0..<4])"
    using getQueryRates_range [of "''100-250,50''" demo_args "''a''" "''b''" "''c''" 100 250 50]
    by (simp del: upt_Suc)
  also have "[0..<4] = [0, 1, 2, 3 :: nat]" by (simp add: upt_rec)
  finally show ?thesis by (simp add: decimal.simps char_of_def bit_0)
qed

subsection \<open>Results of a session\<close>

lemma foldl_add_thread:
  "r_counter_send (foldl add_thread r ths) = r_counter_send r + sum_list (map counter_packets_send ths)"
  "r_bytes_send (foldl add_thread r ths) = r_bytes_send r + sum_list (map counter_bytes_send ths)"
  "r_counter_errors (foldl add_thread r ths) = r_counter_errors r + sum_list (map errors ths)"
  "r_counter_0bytes (foldl add_thread r ths) = r_counter_0bytes r + sum_list (map counter_0bytes ths)"
  "r_counter_received (foldl add_thread r ths) = r_counter_received r"
  "r_queryrate (foldl add_thread r ths) = r_queryrate r"
  "r_bytes_received (foldl add_thread r ths) = r_bytes_received r"
  by (induction ths arbitrary: r)
     (simp_all add: add_thread_def getPacketsSend_def getBytesSend_def getErrors_def getCounter0Bytes_def add.assoc)

definition received :: "dns_sender \<Rightarrow> u64" where
  "received ds = (case Receiver ds of None \<Rightarrow> 0 | Some t \<Rightarrow> num_pkgs (rt_counter t))"

lemma getResults_fields:
  shows "r_counter_send (getResults ds) = sum_list (map counter_packets_send (threadpool ds))"
    and "r_bytes_send (getResults ds) = sum_list (map counter_bytes_send (threadpool ds))"
    and "r_counter_errors (getResults ds) = sum_list (map errors (threadpool ds))"
    and "r_counter_0bytes (getResults ds) = sum_list (map counter_0bytes (threadpool ds))"
    and "r_counter_received (getResults ds) = received ds"
    and "r_queryrate (getResults ds) = 0"
  by (simp_all add: getResults_def Let_def foldl_add_thread Results_clear_def add_receiver_def getCounter_def
      received_def split: option.splits)

lemma getResults_bytes:
  "r_bytes_received (getResults ds) = (case Receiver ds of None \<Rightarrow> 0 | Some r \<Rightarrow> getBytesReceived r)"
  by (simp add: getResults_def Let_def foldl_add_thread Results_clear_def add_receiver_def getCounter_def
      getBytesReceived_def split: option.splits)

lemma getResults_lost:
  "unat (r_packages_lost (getResults ds)) = unat (r_counter_send (getResults ds)) - unat (received ds)"
proof -
  have "r_packages_lost (getResults ds) =
      (if received ds > r_counter_send (getResults ds) then 0 else r_counter_send (getResults ds) - received ds)"
    unfolding getResults_fields(1)
    by (simp add: getResults_def Let_def foldl_add_thread Results_clear_def add_receiver_def getCounter_def
        received_def split: option.splits)
  then show ?thesis by (auto simp: unat_sub_if' word_less_nat_alt)
qed

text \<open>
  C33. The results of a session: the numbers of sent packets and bytes, of errors and of empty sends
  are the sums over all threads, the number of answers is the receiver's, and the packets that count
  as lost are the sent ones that were not answered, zero when there are more answers than queries.
  The query rate that was stored before is erased.
\<close>

theorem getResults_totals:
  "r_counter_send (getResults ds) = sum_list (map counter_packets_send (threadpool ds)) \<and>
   r_bytes_send (getResults ds) = sum_list (map counter_bytes_send (threadpool ds)) \<and>
   r_counter_errors (getResults ds) = sum_list (map errors (threadpool ds)) \<and>
   r_counter_0bytes (getResults ds) = sum_list (map counter_0bytes (threadpool ds)) \<and>
   r_counter_received (getResults ds) = received ds \<and>
   unat (r_packages_lost (getResults ds)) =
     unat (sum_list (map counter_packets_send (threadpool ds))) - unat (received ds) \<and>
   r_queryrate (getResults ds) = 0"
  using getResults_fields [of ds] getResults_lost [of ds] by simp

text \<open>
  C40. The share of lost packets in the report and in the CSV file is a percentage between 0 and 100,
  for every session that sent a packet (and fewer than \<open>2 ^ 46\<close>); for a session that sent none it is
  the result of a division by zero.
\<close>

theorem lost_percent_range:
  assumes "unat (r_counter_send (getResults ds)) < 2 ^ 46"
  shows "(r_counter_send (getResults ds) = 0 \<longrightarrow> lost_percent (getResults ds) = None) \<and>
    (r_counter_send (getResults ds) \<noteq> 0 \<longrightarrow> (\<exists>p. lost_percent (getResults ds) = Some p \<and> 0 \<le> p \<and> p \<le> 100))"
proof (intro conjI impI)
  let ?r = "getResults ds"
  assume nz: "r_counter_send ?r \<noteq> 0"
  define l s where "l = int (unat (r_packages_lost ?r))" and "s = int (unat (r_counter_send ?r))"
  have "l \<le> s" unfolding l_def s_def using getResults_lost [of ds] by (simp only: of_nat_le_iff)
  moreover have "unat (r_counter_send ?r) \<noteq> 0" using nz by (simp add: unat_eq_zero)
  then have "0 < s" unfolding s_def by linarith
  moreover have "s < 2 ^ 46" unfolding s_def using assms by (metis of_nat_less_iff of_nat_numeral of_nat_power)
  moreover have "0 \<le> l" by (simp add: l_def)
  ultimately have e: "dbl (of_int l) = of_int l" "dbl (of_int s) = of_int s" "dbl (of_int (l * 100)) = of_int (l * 100)"
    by (intro dbl.rnd_int; simp)+
  have "lost_percent ?r = Some (dbl (dbl (dbl (of_int l) * 100) / dbl (of_int s)))"
    using nz by (simp add: lost_percent_def l_def s_def)
  also have "dbl (of_int l) * 100 = of_int (l * 100)" using e by simp
  finally have p: "lost_percent ?r = Some (dbl (of_int (l * 100) / of_int s))" using e by simp
  have "0 \<le> (of_int (l * 100) :: rat) / of_int s" "(of_int (l * 100) :: rat) / of_int s \<le> of_int 100"
    using \<open>0 \<le> l\<close> \<open>0 < s\<close> \<open>l \<le> s\<close> by (simp_all add: pos_divide_le_eq)
  then show "\<exists>p. lost_percent ?r = Some p \<and> 0 \<le> p \<and> p \<le> 100"
    unfolding p using dbl.rnd_nonneg dbl.rnd_le_int [of _ 100] by simp
qed (simp add: lost_percent_def)

theorem lost_percent_range_witness:
  "\<exists>p. lost_percent (getResults ((demo_sender 1)\<lparr>threadpool := [demo_thread\<lparr>counter_packets_send := 8\<rparr>]\<rparr>)) = Some p \<and>
     0 \<le> p \<and> p \<le> 100"
  using lost_percent_range [of "(demo_sender 1)\<lparr>threadpool := [demo_thread\<lparr>counter_packets_send := 8\<rparr>]\<rparr>"]
  by (simp add: getResults_fields)

text \<open>
  The progress report: the time since the start is split into hours, minutes and seconds without
  loss, and the numbers shown are the increments since the last report, so that they add up to the
  current totals.
\<close>

theorem showCurrentStats_increments:
  assumes "0 \<le> secs" and "showCurrentStats secs ds = ((h, m, s, diff), ds')"
  shows "h * 3600 + m * 60 + s = secs \<and> 0 \<le> h \<and> 0 \<le> m \<and> m < 60 \<and> 0 \<le> s \<and> s < 60 \<and>
    r_counter_send (vis_prev_results ds) + r_counter_send diff = r_counter_send (vis_prev_results ds') \<and>
    r_counter_received (vis_prev_results ds) + r_counter_received diff = r_counter_received (vis_prev_results ds') \<and>
    r_bytes_send (vis_prev_results ds) + r_bytes_send diff = r_bytes_send (vis_prev_results ds') \<and>
    r_bytes_received (vis_prev_results ds) + r_bytes_received diff = r_bytes_received (vis_prev_results ds') \<and>
    vis_prev_results ds' = getResults ds"
proof -
  have d: "diff = Results_minus (getResults ds) (vis_prev_results ds)" "ds' = ds\<lparr>vis_prev_results := getResults ds\<rparr>"
    and h: "h = secs sdiv 3600" and m: "m = (secs - h * 3600) sdiv 60" and s: "s = secs - h * 3600 - m * 60"
    using assms(2) by (auto simp: showCurrentStats_def Let_def)
  have h': "h = secs div 3600" using assms(1) by (simp add: h sdiv_pos)
  have r: "0 \<le> secs - h * 3600" "secs - h * 3600 < 3600"
    unfolding h' using assms(1) by (simp_all add: minus_div_mult_eq_mod)
  then have m': "m = (secs - h * 3600) div 60" by (simp add: m sdiv_pos)
  have "0 \<le> m" "m < 60" "0 \<le> s" "s < 60"
    using r by (simp_all add: s m' minus_div_mult_eq_mod pos_imp_zdiv_nonneg_iff int_div_less_self)
  moreover have "0 \<le> h" using assms(1) by (simp add: h' pos_imp_zdiv_nonneg_iff)
  ultimately show ?thesis by (simp add: s d Results_minus_def Let_def)
qed

theorem showCurrentStats_increments_witness:
  "\<exists>h m s diff ds'. showCurrentStats 3725 (demo_sender 2) = ((h, m, s, diff), ds') \<and>
     h * 3600 + m * 60 + s = 3725 \<and> m < 60 \<and> s < 60"
proof -
  obtain h m s diff ds' where e: "showCurrentStats 3725 (demo_sender 2) = ((h, m, s, diff), ds')"
    by (cases "showCurrentStats 3725 (demo_sender 2)") auto
  with showCurrentStats_increments [OF _ this] show ?thesis by auto
qed

subsection \<open>Network counters of later sessions\<close>

lemma sampleSensorData_keeps:
  assumes "sampleSensorData now vs info lib st = Inr st'" and "interfaces st name = Some n"
  shows "interfaces st' name = Some n"
  using assms
  by (auto simp: sampleSensorData_def Let_def bindE_Inr_iff sampleNetwork_def net_lines_eq add_entries_def map_add_def
      split: option.splits)

text \<open>
  The network line of the report is right for the first session only: the second sample of an
  interface does not replace the first one, in either of the two sample objects, so every later
  session of a list of rates shows the traffic of the first session again.
\<close>

theorem second_session_network:
  assumes "interfaces (sys1 ds) (InterfaceName ds) = Some n1" and "interfaces (sys2 ds) (InterfaceName ds) = Some n2"
    and "sampleSensorData now1 vs1 info1 lib1 (sys1 ds) = Inr st1" and "sampleSensorData now2 vs2 info2 lib2 (sys2 ds) = Inr st2"
  shows "fst (present_network (ds\<lparr>sys1 := st1, sys2 := st2\<rparr>)) = fst (present_network ds)"
  using sampleSensorData_keeps [OF assms(3,1)] sampleSensorData_keeps [OF assms(4,2)] assms(1,2)
  by (simp add: present_network_def map_index_def)

text \<open>An interface with one transmitted packet before and two after the session; later there are nine.\<close>

definition demo_nif :: "u64 \<Rightarrow> nif" where
  "demo_nif n = \<lparr>nif_name = ''eth0'', nif_receive = Network_clear, nif_transmit = Network_clear\<lparr>net_packets := n\<rparr>\<rparr>"

definition demo_net :: net_lib where
  "demo_net = \<lparr>proc_net_dev = Some [''eth0:''], net_trim = (\<lambda>s. s), instr_colon = (\<lambda>_. 4), replace_tabs = (\<lambda>s. s),
     strtok_blank = (\<lambda>_. []), tok_at = (\<lambda>_ _. Inr ''9''), toUnsignedLong = (\<lambda>_. 9)\<rparr>"

theorem second_session_network_witness:
  "\<exists>ds st1 st2. sampleSensorData 0 (Some []) None demo_net (sys1 ds) = Inr st1 \<and>
     sampleSensorData 0 (Some []) None demo_net (sys2 ds) = Inr st2 \<and>
     net_packets (fst (fst (present_network (ds\<lparr>sys1 := st1, sys2 := st2\<rparr>)))) = 1"
proof -
  define ds where "ds = (demo_sender 1)\<lparr>InterfaceName := ''eth0'', sys1 := demo_stat\<lparr>interfaces := [''eth0'' \<mapsto> demo_nif 1]\<rparr>,
    sys2 := demo_stat\<lparr>interfaces := [''eth0'' \<mapsto> demo_nif 2]\<rparr>\<rparr>"
  have i: "interfaces (sys1 ds) (InterfaceName ds) = Some (demo_nif 1)"
      "interfaces (sys2 ds) (InterfaceName ds) = Some (demo_nif 2)"
    by (simp_all add: ds_def)
  obtain st1 st2 where s: "sampleSensorData 0 (Some []) None demo_net (sys1 ds) = Inr st1"
      "sampleSensorData 0 (Some []) None demo_net (sys2 ds) = Inr st2"
    by (simp add: sampleSensorData_def sampleCpuUsage_def sampleNetwork_def demo_net_def tok_network_def Let_def)
  have "net_packets (fst (fst (present_network ds))) = 1"
    using i by (simp add: present_network_def map_index_def getDelta_def delta_with_overflow_def demo_nif_def)
  then show ?thesis using s second_session_network [OF i s] by metis
qed

subsection \<open>Configured threads\<close>

text \<open>
  A configuration with which the program can send: what \<open>getParameter\<close> and \<open>openFiles\<close> establish
  (\<open>GetHostByName\<close> is asked for IPv4 addresses), except that the target is not the broadcast address,
  that \<open>-s pcap\<close> is given only with a capture as payload, and that a source network has a prefix of at
  least one bit.
\<close>

definition config_ok :: "dns_sender \<Rightarrow> bool" where
  "config_ok ds \<longleftrightarrow>
     family (ds_TargetIP ds) = IPv4 \<and> addr (ds_TargetIP ds) \<noteq> -1 \<and> 0 \<le> ds_DnssecRate ds \<and> ds_DnssecRate ds \<le> 100 \<and>
     0 < Timeslices ds \<and> Timeslices ds \<le> 1000 \<and> payload_ready (payload ds) \<and> payload_wf (payload ds) \<and>
     (ds_spoofingEnabled ds \<and> spoofFromPcap ds \<longrightarrow> payloadIsPcap (payload ds)) \<and>
     (ds_spoofingEnabled ds \<and> \<not> spoofFromPcap ds \<longrightarrow> prefixlen (ds_SourceNet ds) \<noteq> 0)"

definition fresh_thread :: "sender_thread \<Rightarrow> bool" where
  "fresh_thread th \<longleftrightarrow> (\<exists>sock noip nonet raw. th = DNSSenderThread_new sock noip nonet raw \<and> length raw = 4096)"

definition ready_thread :: "dns_sender \<Rightarrow> sender_thread \<Rightarrow> bool" where
  "ready_thread ds th \<longleftrightarrow>
     thread_inv th \<and> supplied th (payload ds) \<and> th_payload th \<and> runtime th = Runtime ds \<and> timeout th = Timeout ds"

lemmas thread_setters = setRuntime_def setTimeout_def setDNSSECRate_def setVerbose_def th_setPayload_def
  setSourcePcap_def setSourceNet_def setSourceIP_def

lemma prepare_thread_ok:
  assumes "config_ok ds" and "fresh_thread th"
  obtains th' where "prepare_thread ds th = Inr th'" and "ready_thread ds th'"
proof -
  obtain sock noip nonet raw where th: "th = DNSSenderThread_new sock noip nonet raw" "length raw = 4096"
    using assms(2) by (auto simp: fresh_thread_def)
  note p = setters_inv(5) [OF Packet_new_inv] setDestination_fields [OF Packet_new_inv]
  have "\<exists>th'. prepare_thread ds th = Inr th'"
    using assms(1) by (auto simp: prepare_thread_def th_setDestination_def sock_setDestination_def config_ok_def
        setTimeslice_def setSourceNet_def powl2_less Let_def)
  then obtain th' where e: "prepare_thread ds th = Inr th'" ..
  moreover have "ready_thread ds th'"
    using e assms(1) th(2) p
    by (auto simp: th(1) prepare_thread_def th_setDestination_def sock_setDestination_def config_ok_def
        setTimeslice_def thread_setters DNSSenderThread_new_def ready_thread_def thread_inv_def supplied_def
        isPcap_def Let_def split: if_splits)
  ultimately show ?thesis by (rule that)
qed

lemma prepare_threads_ok:
  assumes "\<forall>i. \<exists>th. new i = Inr th \<and> fresh_thread th" and "config_ok ds" and "\<forall>th\<in>set (threadpool ds). ready_thread ds th"
  shows "\<exists>ths. prepare_threads new i n ds = (Inr (), ds\<lparr>threadpool := ths\<rparr>) \<and> length ths = length (threadpool ds) + n \<and>
    (\<forall>th\<in>set ths. ready_thread ds th)"
  using assms(2,3)
proof (induction n arbitrary: i ds)
  case 0
  then show ?case by (intro exI [of _ "threadpool ds"]) simp
next
  case (Suc n)
  obtain th where th: "new i = Inr th" "fresh_thread th" using assms(1) by blast
  obtain th' where t: "prepare_thread ds th = Inr th'" "ready_thread ds th'"
    using prepare_thread_ok [OF Suc.prems(1) th(2)] by blast
  let ?ds = "ds\<lparr>threadpool := threadpool ds @ [th']\<rparr>"
  have same: "ready_thread ?ds x = ready_thread ds x" for x by (simp add: ready_thread_def)
  have "config_ok ?ds" "\<forall>th\<in>set (threadpool ?ds). ready_thread ?ds th"
    using Suc.prems t(2) unfolding same by (auto simp: config_ok_def)
  from Suc.IH [OF this, of "i + 1"] show ?case unfolding same by (auto simp: th(1) t(1))
qed

end
