(* ===== verification/Session.thy ===== *)
theory Session
  imports Dns_Sender "HOL-Library.Sublist"
begin

text \<open>
  \<open>src/src/dns_sender.cpp\<close>, second part: a session (\<open>DNSSender::run\<close>), in which the main thread starts
  the receiver and the sender threads, watches them and reports once a second, and \<open>DNSSender::main\<close>,
  which reads the parameters and runs one session per query rate.
\<close>

subsection \<open>A session\<close>

text \<open>What a sample of the system reads.\<close>

record sample_env =
  smp_now :: rat
  smp_cpu :: "int list option"
  smp_info :: "(sysinfo \<times> int) option"
  smp_net :: net_lib

definition take_sample :: "sample_env \<Rightarrow> system_stat \<Rightarrow> system_stat result" where
  "take_sample e st = sampleSensorData (smp_now e) (smp_cpu e) (smp_info e) (smp_net e) st"

text \<open>The text of a progress line, and the line that opens a session.\<close>

definition stats_text :: "int \<times> int \<times> int \<times> results \<Rightarrow> string" where
  "stats_text p =
     (case p of (h, m, s, diff) \<Rightarrow>
        let two = (\<lambda>n. lpad (CHR ''0'') 2 (signed_decimal n)) in
        two h @ '':'' @ two m @ '':'' @ two s @ '' Queries send: '' @ ull 7 (unat (r_counter_send diff)) @ '', rcv: '' @
        ull 7 (unat (r_counter_received diff)) @ '', '' @ ''Data send: '' @ ull 6 (unat (r_bytes_send diff) div 1024) @
        '' KB, rcv: '' @ ull 6 (unat (r_bytes_received diff) div 1024) @ '' KB'')"

definition start_text :: "int \<Rightarrow> dns_sender \<Rightarrow> string" where
  "start_text rate ds =
     ''# Start Session with Threads: '' @ signed_decimal (ThreadCount ds) @ '', Queryrate: '' @
     (if rate \<noteq> 0 then signed_decimal rate @ '', Timeslot: '' @ fixed 6 (Timeslices ds) @ '' ms'' else ''unlimited'')"

definition start_lines :: "int \<Rightarrow> dns_sender \<Rightarrow> printed" where
  "start_lines rate ds = Lines [replicate 79 (CHR ''#''), start_text rate ds]"

text \<open>
  One round of the loop that watches the threads: whether some thread is running, the stop flag that
  the signal handler sets, the clock of the loop and of the report, and the threads and the receiver
  as they are at that moment.
\<close>

record monitor_round =
  mon_running :: bool
  mon_stop :: bool
  mon_now :: int
  mon_time :: int
  mon_threads :: "sender_thread list"
  mon_receiver :: "receiver_thread option"

fun monitor ::
  "monitor_round list \<Rightarrow> int \<Rightarrow> int \<Rightarrow> dns_sender \<Rightarrow> ((int \<times> int \<times> int \<times> results) list \<times> dns_sender) option" where
  "monitor [] start report ds = None"
| "monitor (m # ms) start report ds =
     (if mon_running m \<and> \<not> mon_stop m then
        if mon_now m \<ge> report then
          let (p, ds) = showCurrentStats (mon_time m - start) (ds\<lparr>threadpool := mon_threads m, Receiver := mon_receiver m\<rparr>)
          in map_option (\<lambda>(ps, ds). (p # ps, ds)) (monitor ms start (mon_now m + 1) ds)
        else monitor ms start report ds
      else Some ([], ds))"

text \<open>
  The threads run at the same time. Each is given by its own environment, which counts the draws of
  the others from the shared payload, and they have all ended when the results are read: either the
  loop above has seen that, or \<open>stopThreads\<close> has waited for it. An exception that leaves the body of a
  thread is not one of the main thread: no handler of the program catches it.
\<close>

definition uncaught :: "exn \<Rightarrow> exn" where
  "uncaught e = (if e = UndefinedBehaviour then e else UncaughtException)"

fun run_threads :: "run_env list \<Rightarrow> payload_file \<Rightarrow> sender_thread list \<Rightarrow> sender_thread list result option" where
  "run_threads envs pf [] = Some (Inr [])"
| "run_threads [] pf (th # ths) = None"
| "run_threads (env # envs) pf (th # ths) =
     (case th_run env th pf of
        None \<Rightarrow> None
      | Some (Inl e, _, _) \<Rightarrow> Some (Inl (uncaught e))
      | Some (Inr _, th, _) \<Rightarrow> map_option (\<lambda>r. bindE r (\<lambda>ths. Inr (th # ths))) (run_threads envs pf ths))"

definition run_receiver :: "rcv_env list \<Rightarrow> receiver_thread option \<Rightarrow> receiver_thread option result option" where
  "run_receiver es rcv =
     (case rcv of
        None \<Rightarrow> Some (Inr None)
      | Some t \<Rightarrow> map_option (\<lambda>(r, t). case r of Inl e \<Rightarrow> Inl (uncaught e) | Inr _ \<Rightarrow> Inr (Some t)) (rt_run es t))"

text \<open>
  What a session sees: the two samples, the start time, the rounds of the monitor, the environments
  of the receiver and of the threads, how many queries all threads drew together, and the stop flag
  after the loop.
\<close>

record session_env =
  ses_sample1 :: sample_env
  ses_start :: int
  ses_monitor :: "monitor_round list"
  ses_receiver :: "rcv_env list"
  ses_sample2 :: sample_env
  ses_threads :: "run_env list"
  ses_draws :: nat
  ses_stop :: bool

text \<open>The end of a session: the receiver is stopped, the second sample taken, and the threads have ended.\<close>

definition finish_session ::
  "session_env \<Rightarrow> sender_thread list \<Rightarrow> receiver_thread option \<Rightarrow> dns_sender \<Rightarrow> (unit result \<times> dns_sender) option" where
  "finish_session env ths rcv ds =
     (case run_receiver (ses_receiver env) rcv of
        None \<Rightarrow> None
      | Some (Inl e) \<Rightarrow> Some (Inl e, ds)
      | Some (Inr rcv) \<Rightarrow>
     (case take_sample (ses_sample2 env) (sys2 ds) of
        Inl e \<Rightarrow> Some (Inl e, ds\<lparr>Receiver := rcv\<rparr>)
      | Inr st \<Rightarrow>
     (case run_threads (ses_threads env) (payload ds) ths of
        None \<Rightarrow> None
      | Some (Inl e) \<Rightarrow> Some (Inl e, ds\<lparr>Receiver := rcv, sys2 := st\<rparr>)
      | Some (Inr ths) \<Rightarrow>
          Some (if ses_stop env then Inl OperationInterruptedException else Inr (),
            ds\<lparr>Receiver := rcv, sys2 := st, threadpool := ths,
               payload := (other_draw ^^ ses_draws env) (payload ds)\<rparr>))))"

text \<open>
  When \<open>start_rate\<close> throws, the threads have only in part got their new rate; the program then ends, and
  the state here is the one before.
\<close>

definition ds_run :: "session_env \<Rightarrow> int \<Rightarrow> dns_sender \<Rightarrow> (unit result \<times> printed list \<times> dns_sender) option" where
  "ds_run env rate ds =
     (case start_rate rate ds of
        Inl e \<Rightarrow> Some (Inl e, [start_lines rate (if rate \<noteq> 0 then calcTimeslice rate ds else ds)], ds)
      | Inr ds \<Rightarrow>
     let out = [start_lines rate ds]; ds = ds\<lparr>vis_prev_results := Results_clear\<rparr> in
     (case take_sample (ses_sample1 env) (sys1 ds) of
        Inl e \<Rightarrow> Some (Inl e, out, ds)
      | Inr st \<Rightarrow>
     let ds = ds\<lparr>sys1 := st\<rparr>; ths = threadpool ds; rcv = Receiver ds in
     (case monitor (ses_monitor env) (ses_start env) (ses_start env + 1) ds of
        None \<Rightarrow> None
      | Some (ps, ds) \<Rightarrow>
          map_option (\<lambda>(r, ds). (r, out @ map Progress ps, ds)) (finish_session env ths rcv ds))))"

subsection \<open>The program\<close>

text \<open>
  What the program is given: the command line, the files and libraries, the outcomes of constructing
  threads and the receiver and of binding it to the interface, and the environments of the sessions.
\<close>

record main_env =
  me_argc :: int
  me_lib :: arg_lib
  me_csv :: "string \<Rightarrow> string result"
  me_full :: "string \<Rightarrow> string \<Rightarrow> nat option"
  me_io :: file_lib
  me_ql :: query_lib
  me_strerror :: "nat \<Rightarrow> string"
  me_nan :: string
  me_thread :: "nat \<Rightarrow> sender_thread result"
  me_receiver :: "receiver_thread result"
  me_interface :: "unit result"
  me_sessions :: "session_env list"

text \<open>The three calls after a session.\<close>

definition make_report :: "main_env \<Rightarrow> dns_sender \<Rightarrow> unit result \<times> printed list \<times> dns_sender" where
  "make_report me ds =
     (let r = getResults ds
      in case presentResults (me_strerror me) (me_nan me) r ds of
           Inl e \<Rightarrow> (Inl e, [], ds)
         | Inr (text, ds) \<Rightarrow>
             (case saveResultsToCsv (me_full me) (me_nan me) r ds of (res, ds) \<Rightarrow> (res, [Report r text], ds)))"

fun run_rates ::
  "main_env \<Rightarrow> session_env list \<Rightarrow> string list \<Rightarrow> dns_sender \<Rightarrow> (unit result \<times> printed list \<times> dns_sender) option" where
  "run_rates me ses [] ds = Some (Inr (), [], ds)"
| "run_rates me [] (q # qs) ds = None"
| "run_rates me (env # ses) (q # qs) ds =
     (case ds_run env (toInt (me_lib me) q) ds of
        None \<Rightarrow> None
      | Some (Inl e, out, ds) \<Rightarrow> Some (Inl e, out, ds)
      | Some (Inr _, out, ds) \<Rightarrow>
          (case make_report me ds of
             (Inl e, rep, ds) \<Rightarrow> Some (Inl e, out @ rep, ds)
           | (Inr _, rep, ds) \<Rightarrow>
               map_option (\<lambda>(r, out', ds). (r, out @ rep @ out', ds)) (run_rates me ses qs ds)))"

text \<open>
  The receiver: \<open>Inr (rc, out, ds)\<close> with \<open>rc\<close> not zero if the inner handler ends \<open>main\<close> because the
  receiver cannot be bound to the interface.
\<close>

definition prepare_receiver :: "main_env \<Rightarrow> dns_sender \<Rightarrow> (int \<times> printed list \<times> dns_sender) result" where
  "prepare_receiver me ds =
     (if ignoreResponses ds then Inr (0, [], ds)
      else
        case me_receiver me of
          Inl e \<Rightarrow> Inl e
        | Inr t \<Rightarrow>
            let ds = ds\<lparr>Receiver := Some (rt_setSource (ds_TargetIP ds) (TargetPort ds) t)\<rparr>
            in case me_interface me of
                 Inr _ \<Rightarrow> Inr (0, [], ds)
               | Inl e \<Rightarrow>
                   if e = UndefinedBehaviour then Inl e
                   else Inr (1, [Lines [''ERROR: could not bind on device ['' @ InterfaceName ds @ '']''], Exception e,
                     Lines [[]], ds_help (PACKAGE_VERSION (me_lib me))], ds))"

text \<open>
  The handlers of \<open>main\<close>: an interrupted session is reported as well and the program succeeds; every
  other exception of the main thread is printed and ends it with 1. What is thrown inside the first
  handler is caught by none of them.
\<close>

definition handle :: "main_env \<Rightarrow> exn \<Rightarrow> printed list \<Rightarrow> dns_sender \<Rightarrow> int result \<times> printed list \<times> dns_sender" where
  "handle me e out ds =
     (if e = UndefinedBehaviour \<or> e = UncaughtException then (Inl e, out, ds)
      else if e = OperationInterruptedException then
        (case make_report me ds of
           (Inl e, rep, ds) \<Rightarrow> (Inl (uncaught e), out @ rep, ds)
         | (Inr _, rep, ds) \<Rightarrow> (Inr 0, out @ rep, ds))
      else (Inr 1, out @ [Exception e], ds))"

definition run_program :: "main_env \<Rightarrow> dns_sender \<Rightarrow> (int result \<times> printed list \<times> dns_sender) option" where
  "run_program me ds =
     (case prepare_receiver me ds of
        Inl e \<Rightarrow> Some (handle me e [] ds)
      | Inr (rc, out, ds) \<Rightarrow>
          if rc \<noteq> 0 then Some (Inr rc, out, ds)
          else
            (case prepareThreads (me_thread me) ds of
               (Inl e, ds) \<Rightarrow> Some (handle me e [] ds)
             | (Inr _, ds) \<Rightarrow>
                 (case run_rates me (me_sessions me) (rates ds) ds of
                    None \<Rightarrow> None
                  | Some (Inl e, out, ds) \<Rightarrow> Some (handle me e out ds)
                  | Some (Inr _, out, ds) \<Rightarrow> Some (Inr 0, out, ds\<lparr>threadpool := []\<rparr>))))"

definition ds_main :: "main_env \<Rightarrow> dns_sender \<Rightarrow> (int result \<times> printed list \<times> dns_sender) option" where
  "ds_main me ds =
     (if HaveArgv (me_lib me) ''-h'' \<or> HaveArgv (me_lib me) ''--help'' \<or> me_argc me < 2
      then Some (Inr 0, [ds_help (PACKAGE_VERSION (me_lib me))], ds)
      else case getParameter (me_lib me) ds of
        None \<Rightarrow> None
      | Some (rc, out, ds) \<Rightarrow>
          if rc \<noteq> 0 then Some (Inr 1, out, ds)
          else case openFiles (me_csv me) (me_full me) (me_io me) (me_ql me) ds of
            Inl e \<Rightarrow> Some (Inl e, [], ds)
          | Inr (rc, out, ds) \<Rightarrow> if rc \<noteq> 0 then Some (Inr 1, out, ds) else run_program me ds)"

subsection \<open>What a session leaves alone\<close>

text \<open>The members that are set before the first session and by no session.\<close>

definition same_setup :: "dns_sender \<Rightarrow> dns_sender \<Rightarrow> bool" where
  "same_setup ds ds' \<longleftrightarrow>
     ds_TargetIP ds' = ds_TargetIP ds \<and> ds_SourceIP ds' = ds_SourceIP ds \<and> ds_SourceNet ds' = ds_SourceNet ds \<and>
     CSVFileName ds' = CSVFileName ds \<and> QueryFilename ds' = QueryFilename ds \<and> rates ds' = rates ds \<and>
     InterfaceName ds' = InterfaceName ds \<and> TargetPort ds' = TargetPort ds \<and> Runtime ds' = Runtime ds \<and>
     Timeout ds' = Timeout ds \<and> ThreadCount ds' = ThreadCount ds \<and> ds_DnssecRate ds' = ds_DnssecRate ds \<and>
     ignoreResponses ds' = ignoreResponses ds \<and> ds_spoofingEnabled ds' = ds_spoofingEnabled ds \<and>
     spoofFromPcap ds' = spoofFromPcap ds"

lemma same_setup_refl [simp]: "same_setup ds ds"
  by (simp add: same_setup_def)

lemma same_setup_trans: "same_setup a b \<Longrightarrow> same_setup b c \<Longrightarrow> same_setup a c"
  by (simp add: same_setup_def)

lemma start_rate_frame:
  "start_rate q ds = Inr ds' \<Longrightarrow> same_setup ds ds' \<and> CSVFile ds' = CSVFile ds \<and> payload ds' = payload ds \<and>
     Receiver ds' = Receiver ds \<and> sys1 ds' = sys1 ds \<and> sys2 ds' = sys2 ds"
  by (auto simp: start_rate_def calcTimeslice_def Let_def bindE_Inr_iff same_setup_def split: if_splits)

lemma monitor_simps:
  "\<not> mon_running m \<or> mon_stop m \<Longrightarrow> monitor (m # ms) start report ds = Some ([], ds)"
  "mon_running m \<Longrightarrow> \<not> mon_stop m \<Longrightarrow> mon_now m < report \<Longrightarrow> monitor (m # ms) start report ds = monitor ms start report ds"
  "mon_running m \<Longrightarrow> \<not> mon_stop m \<Longrightarrow> report \<le> mon_now m \<Longrightarrow>
     showCurrentStats (mon_time m - start) (ds\<lparr>threadpool := mon_threads m, Receiver := mon_receiver m\<rparr>) = (p, ds1) \<Longrightarrow>
     monitor (m # ms) start report ds = map_option (\<lambda>(ps, ds). (p # ps, ds)) (monitor ms start (mon_now m + 1) ds1)"
  by auto

text \<open>Induction over the rounds: an end, a round without and a round with a report.\<close>

lemma monitor_induct [consumes 1, case_names stop skip report]:
  assumes "monitor ms start report ds = Some (ps, ds')"
    and "\<And>report ds. P report ds [] ds"
    and "\<And>(m :: monitor_round) report ds ps ds'. mon_now m < report \<Longrightarrow> P report ds ps ds' \<Longrightarrow> P report ds ps ds'"
    and "\<And>(m :: monitor_round) report ds ps ds' p ds1. report \<le> mon_now m \<Longrightarrow>
      showCurrentStats (mon_time m - start) (ds\<lparr>threadpool := mon_threads m, Receiver := mon_receiver m\<rparr>) = (p, ds1) \<Longrightarrow>
      P (mon_now m + 1) ds1 ps ds' \<Longrightarrow> P report ds (p # ps) ds'"
  shows "P report ds ps ds'"
  using assms(1)
proof (induction ms arbitrary: report ds ps)
  case (Cons m ms)
  consider "\<not> mon_running m \<or> mon_stop m"
    | "mon_running m" "\<not> mon_stop m" "mon_now m < report" | "mon_running m" "\<not> mon_stop m" "report \<le> mon_now m"
    by linarith
  then show ?case
  proof cases
    case 1
    then show ?thesis using Cons.prems assms(2) by (simp add: monitor_simps(1) del: monitor.simps)
  next
    case 2
    then show ?thesis using Cons.prems Cons.IH by (simp add: monitor_simps(2) del: monitor.simps)
  next
    case 3
    obtain p ds1 where p: "showCurrentStats (mon_time m - start)
        (ds\<lparr>threadpool := mon_threads m, Receiver := mon_receiver m\<rparr>) = (p, ds1)"
      by fastforce
    then obtain ps' where "monitor ms start (mon_now m + 1) ds1 = Some (ps', ds')" "ps = p # ps'"
      using Cons.prems 3 by (auto simp: monitor_simps(3) [OF 3 p] simp del: monitor.simps)
    then show ?thesis using assms(4) [OF 3(3) p] Cons.IH by simp
  qed
qed simp

lemma showCurrentStats_state: "snd (showCurrentStats secs ds) = ds\<lparr>vis_prev_results := getResults ds\<rparr>"
  by (simp only: showCurrentStats_def Let_def snd_conv)

lemma monitor_frame:
  assumes "monitor ms start report ds = Some (ps, ds')"
  shows "same_setup ds ds' \<and> CSVFile ds' = CSVFile ds \<and> payload ds' = payload ds \<and> sys1 ds' = sys1 ds \<and> sys2 ds' = sys2 ds"
  using assms
proof (induction rule: monitor_induct)
  case (report m report ds ps ds' p ds1)
  have "ds1 = ds\<lparr>threadpool := mon_threads m, Receiver := mon_receiver m, vis_prev_results :=
      getResults (ds\<lparr>threadpool := mon_threads m, Receiver := mon_receiver m\<rparr>)\<rparr>"
    using showCurrentStats_state report(2) by (metis snd_conv)
  with report(3) show ?case by (simp add: same_setup_def)
qed simp_all

lemma finish_session_frame:
  "finish_session env ths rcv ds = Some (r, ds') \<Longrightarrow> same_setup ds ds' \<and> CSVFile ds' = CSVFile ds"
  by (auto simp: finish_session_def same_setup_def split: option.splits sum.splits)

lemma ds_run_frame:
  assumes "ds_run env q ds = Some (r, out, ds')"
  shows "same_setup ds ds' \<and> CSVFile ds' = CSVFile ds"
proof (cases "start_rate q ds")
  case (Inr ds1)
  note f = start_rate_frame [OF Inr]
  let ?ds = "ds1\<lparr>vis_prev_results := Results_clear\<rparr>"
  show ?thesis
  proof (cases "take_sample (ses_sample1 env) (sys1 ?ds)")
    case (Inr st)
    with assms \<open>start_rate q ds = Inr ds1\<close> obtain ps ds2 where
      m: "monitor (ses_monitor env) (ses_start env) (ses_start env + 1) (?ds\<lparr>sys1 := st\<rparr>) = Some (ps, ds2)"
      and e: "finish_session env (threadpool ds1) (Receiver ds1) ds2 = Some (r, ds')"
      by (auto simp: ds_run_def Let_def split: option.splits)
    show ?thesis using f monitor_frame [OF m] finish_session_frame [OF e] by (simp add: same_setup_def)
  qed (use assms Inr f in \<open>auto simp: ds_run_def Let_def same_setup_def\<close>)
qed (use assms in \<open>simp add: ds_run_def\<close>)

lemma presentResults_state: "presentResults se nan r ds = Inr (ls, ds') \<Longrightarrow> ds' = snd (present_network ds)"
  by (auto simp: presentResults_def bindE_Inr_iff split: prod.splits)

lemma presentResults_frame:
  assumes "presentResults se nan r ds = Inr (ls, ds')"
  shows "same_setup ds ds' \<and> CSVFile ds' = CSVFile ds \<and> threadpool ds' = threadpool ds \<and> payload ds' = payload ds \<and>
    Receiver ds' = Receiver ds"
  unfolding presentResults_state [OF assms] by (simp add: present_network_def Let_def split_beta same_setup_def)

text \<open>The results that were reported, in order.\<close>

definition reported :: "printed \<Rightarrow> results list" where
  "reported p = (case p of Report r text \<Rightarrow> [r] | _ \<Rightarrow> [])"

definition reports :: "printed list \<Rightarrow> results list" where
  "reports out = concat (map reported out)"

lemma reports_simps [simp]:
  "reports [] = []" "reports (p # out) = reported p @ reports out" "reports (out @ out') = reports out @ reports out'"
  "reported (Lines ls) = []" "reported (Exception e) = []" "reported (start_lines q ds) = []" "reported (Progress x) = []" "reported (Report r text) = [r]"
  "reports (map Progress ps) = []"
  by (simp_all add: reports_def reported_def start_lines_def)

lemma ds_run_reports: "ds_run env q ds = Some (r, out, ds') \<Longrightarrow> reports out = []"
  by (auto simp: ds_run_def Let_def split: sum.splits option.splits)

text \<open>
  How the file grows: by the lines of the results \<open>rs\<close>. Only the line of the last ones may be missing
  or cut off, and that only if not everything was \<open>done\<close>.
\<close>

definition csv_grown :: "bool \<Rightarrow> string \<Rightarrow> int \<Rightarrow> string \<Rightarrow> string \<Rightarrow> results list \<Rightarrow> bool" where
  "csv_grown done nan secs c c' rs \<longleftrightarrow>
     (\<exists>ls part. c' = c @ concat ls @ part \<and> list_all2 (\<lambda>x l. csv_line nan secs x = Inr l) (take (length ls) rs) ls \<and>
        length rs \<le> Suc (length ls) \<and> (done \<longrightarrow> length rs = length ls) \<and>
        (part \<noteq> [] \<longrightarrow> length rs = Suc (length ls) \<and> (\<exists>l. csv_line nan secs (last rs) = Inr l \<and> prefix part l)))"

lemma csv_grown_none: "csv_grown d nan secs c c []"
  by (auto simp: csv_grown_def intro!: exI [of _ "[]"])

lemma csv_grown_line: "csv_line nan secs x = Inr l \<Longrightarrow> csv_grown d nan secs c (c @ l) [x]"
  by (auto simp: csv_grown_def intro!: exI [of _ "[l]"])

lemma csv_grown_part: "csv_line nan secs x = Inr l \<Longrightarrow> prefix part l \<Longrightarrow> csv_grown False nan secs c (c @ part) [x]"
  unfolding csv_grown_def by (intro exI [of _ "[]"] exI [of _ part]) auto

lemma csv_grown_missing: "csv_grown False nan secs c c [x]"
  unfolding csv_grown_def by (intro exI [of _ "[]"] exI [of _ "[]"]) auto

lemma csv_grown_weaken: "csv_grown d nan secs c c' rs \<Longrightarrow> (d' \<Longrightarrow> d) \<Longrightarrow> csv_grown d' nan secs c c' rs"
  unfolding csv_grown_def by blast

lemma csv_grown_append:
  assumes "csv_grown True nan secs c c1 rs" and "csv_grown d nan secs c1 c2 rs'"
  shows "csv_grown d nan secs c c2 (rs @ rs')"
proof -
  obtain ls p where "c1 = c @ concat ls @ p" "list_all2 (\<lambda>x l. csv_line nan secs x = Inr l) (take (length ls) rs) ls"
      "length rs = length ls" "p \<noteq> [] \<longrightarrow> length rs = Suc (length ls)"
    using assms(1) unfolding csv_grown_def by blast
  then have a: "c1 = c @ concat ls" "list_all2 (\<lambda>x l. csv_line nan secs x = Inr l) rs ls" by auto
  obtain ls' part where b: "c2 = c1 @ concat ls' @ part"
      "list_all2 (\<lambda>x l. csv_line nan secs x = Inr l) (take (length ls') rs') ls'" "length rs' \<le> Suc (length ls')"
      "d \<longrightarrow> length rs' = length ls'"
      "part \<noteq> [] \<longrightarrow> length rs' = Suc (length ls') \<and> (\<exists>l. csv_line nan secs (last rs') = Inr l \<and> prefix part l)"
    using assms(2) by (auto simp: csv_grown_def)
  have len: "length rs = length ls" using a(2) by (rule list_all2_lengthD)
  have "last (rs @ rs') = last rs'" if "part \<noteq> []" using b(5) that by (cases rs') auto
  then show ?thesis
    unfolding csv_grown_def using a b len
    by (intro exI [of _ "ls @ ls'"] exI [of _ part]) (auto intro!: list_all2_appendI)
qed

text \<open>
  A report: the counters stay as they are, and a file that is open grows by the line of the session.
  The conversions of the report can only fail by undefined behaviour.
\<close>

lemma bindE_Inl: "bindE x f = Inl e \<longleftrightarrow> x = Inl e \<or> (\<exists>a. x = Inr a \<and> f a = Inl e)"
  by (cases x) simp_all

lemma per_second_error: "per_second n secs = Inl e \<Longrightarrow> e = UndefinedBehaviour"
  by (auto simp: per_second_def Let_def split: if_splits)

lemma csv_line_error: "csv_line nan secs x = Inl e \<Longrightarrow> e = UndefinedBehaviour"
  by (auto simp: csv_line_def bindE_Inl dest: per_second_error)

lemma counted_line_error: "counted_line label n secs = Inl e \<Longrightarrow> e = UndefinedBehaviour"
  by (auto simp: counted_line_def bindE_Inl dest: per_second_error split: if_splits)

lemma error_lines_error: "error_lines se secs es = Inl e \<Longrightarrow> e = UndefinedBehaviour"
  by (induction es) (auto simp: bindE_Inl dest: per_second_error split: if_splits)

lemma presentResults_error: "presentResults se nan x ds = Inl e \<Longrightarrow> e = UndefinedBehaviour"
  by (auto simp: presentResults_def report_lines_def Let_def bindE_Inl split: prod.splits
      dest: per_second_error counted_line_error error_lines_error)

lemma saveResultsToCsv_eq:
  assumes "saveResultsToCsv full nan r ds = (res, ds')"
  shows "\<exists>c'. ds' = ds\<lparr>CSVFile := c'\<rparr>" and "res \<noteq> Inl OperationInterruptedException"
    and "CSVFile ds = Some c \<Longrightarrow> \<exists>c'. CSVFile ds' = Some c' \<and> csv_grown (res = Inr ()) nan (Runtime ds) c c' [r]"
proof -
  have same: "\<exists>c'. ds = ds\<lparr>CSVFile := c'\<rparr>" by (intro exI [of _ "CSVFile ds"]) simp
  show "\<exists>c'. ds' = ds\<lparr>CSVFile := c'\<rparr>"
    using assms same by (simp add: saveResultsToCsv_def append_csv_def split: option.splits sum.splits) (metis | auto)+
  show "res \<noteq> Inl OperationInterruptedException"
    using assms by (auto simp: saveResultsToCsv_def append_csv_def split: option.splits sum.splits dest: csv_line_error)
  assume c: "CSVFile ds = Some c"
  show "\<exists>c'. CSVFile ds' = Some c' \<and> csv_grown (res = Inr ()) nan (Runtime ds) c c' [r]"
  proof (cases "csv_line nan (Runtime ds) r")
    case (Inl e)
    then show ?thesis using assms c by (auto simp: saveResultsToCsv_def csv_grown_missing)
  next
    case (Inr l)
    note g = csv_grown_line [OF Inr] csv_grown_part [OF Inr take_is_prefix]
    show ?thesis using assms c Inr g by (auto simp: saveResultsToCsv_def append_csv_def split: option.splits)
  qed
qed

lemma make_report_eq:
  assumes "make_report me ds = (res, rep, ds')"
  shows "res = Inr () \<Longrightarrow> reports rep = [getResults ds]" and "res \<noteq> Inl OperationInterruptedException"
    and "same_setup ds ds'" and "threadpool ds' = threadpool ds" and "payload ds' = payload ds" and "Receiver ds' = Receiver ds"
    and "CSVFile ds = Some c \<Longrightarrow>
      \<exists>c'. CSVFile ds' = Some c' \<and> csv_grown (res = Inr ()) (me_nan me) (Runtime ds) c c' (reports rep)"
proof -
  show "res = Inr () \<Longrightarrow> reports rep = [getResults ds]"
    using assms by (auto simp: make_report_def Let_def split: sum.splits prod.splits)
  have "res \<noteq> Inl OperationInterruptedException \<and> same_setup ds ds' \<and> threadpool ds' = threadpool ds \<and>
    payload ds' = payload ds \<and> Receiver ds' = Receiver ds \<and> (CSVFile ds = Some c \<longrightarrow>
      (\<exists>c'. CSVFile ds' = Some c' \<and> csv_grown (res = Inr ()) (me_nan me) (Runtime ds) c c' (reports rep)))"
  proof (cases "presentResults (me_strerror me) (me_nan me) (getResults ds) ds")
    case (Inl e)
    then show ?thesis using assms presentResults_error [OF Inl] by (auto simp: make_report_def Let_def csv_grown_none)
  next
    case (Inr x)
    obtain tx ds1 where p: "presentResults (me_strerror me) (me_nan me) (getResults ds) ds = Inr (tx, ds1)"
      using Inr by (cases x) simp
    note f = presentResults_frame [OF p]
    have "saveResultsToCsv (me_full me) (me_nan me) (getResults ds) ds1 = (res, ds')" "reports rep = [getResults ds]"
      using assms p by (auto simp: make_report_def Let_def split: prod.splits)
    with saveResultsToCsv_eq [of "me_full me" "me_nan me" "getResults ds" ds1 res ds'] f show ?thesis
      by (auto simp: same_setup_def)
  qed
  then show "res \<noteq> Inl OperationInterruptedException" "same_setup ds ds'" "threadpool ds' = threadpool ds"
    "payload ds' = payload ds" "Receiver ds' = Receiver ds"
    "CSVFile ds = Some c \<Longrightarrow>
      \<exists>c'. CSVFile ds' = Some c' \<and> csv_grown (res = Inr ()) (me_nan me) (Runtime ds) c c' (reports rep)"
    by blast+
qed

subsection \<open>The CSV file\<close>

text \<open>
  A line of the file: seven columns, as many as the header has, and the rates in it can be read back.
\<close>

lemma csv_line_split:
  assumes "csv_line nan secs r = Inr l" and "CHR '';'' \<notin> set nan"
  obtains s v e where "per_second (r_counter_send r) secs = Inr s" and "per_second (r_counter_received r) secs = Inr v"
    and "per_second (r_counter_errors r) secs = Inr e"
    and "split_on (CHR '';'') l = [decimal s, decimal v, decimal e, lost_text nan r, fixed 4 (dbl (r_rtt_avg r * 1000)),
      fixed 4 (dbl (r_rtt_min r * 1000)), fixed 4 (dbl (r_rtt_max r * 1000)), [CHR 10]]"
proof -
  have "CHR '';'' \<notin> set (lost_text nan r)"
    using assms(2) fix3.put_clean by (auto simp: lost_text_def split: option.splits)
  then show ?thesis
    using assms(1) that
    by (auto simp: csv_line_def bindE_Inr_iff dec.split_put fix4.split_put split_on_column)
qed

text \<open>The number that a column shows with \<open>n\<close> decimals is off by at most half a unit of the last one.\<close>

definition shows_value :: "nat \<Rightarrow> string \<Rightarrow> rat \<Rightarrow> bool" where
  "shows_value n text x \<longleftrightarrow> \<bar>of_nat (number (filter is_digit text)) / 10 ^ n - x\<bar> \<le> 1 / (2 * 10 ^ n)"

lemma fixed_shows: "0 \<le> x \<Longrightarrow> 0 < n \<Longrightarrow> shows_value n (fixed n x) x"
  unfolding shows_value_def by (rule fixed_accurate)

lemma lost_percent_nonneg: "lost_percent r = Some p \<Longrightarrow> 0 \<le> p"
proof -
  have "0 \<le> dbl (dbl (dbl (of_nat (unat (r_packages_lost r))) * 100) / dbl (of_nat (unat (r_counter_send r))))"
    by (intro dbl.rnd_nonneg divide_nonneg_nonneg mult_nonneg_nonneg of_nat_0_le_iff) simp
  then show "lost_percent r = Some p \<Longrightarrow> 0 \<le> p" by (auto simp: lost_percent_def split: if_splits)
qed

lemma milliseconds_show: "0 \<le> x \<Longrightarrow> shows_value 4 (fixed 4 (dbl (x * 1000))) (dbl (x * 1000))"
  by (intro fixed_shows dbl.rnd_nonneg) simp_all

text \<open>
  C17. A line of the CSV file has exactly the columns that the header names, in that order, whatever
  the results are: the three rates are the decimal numbers of packets per second that were sent,
  received and failed; the loss is the percentage of lost packets with three decimals, or the text for
  a number that is not one when nothing was sent; and the average, the minimum and the maximum of the
  round-trip times, none of them negative, are given in milliseconds with four decimals; all of them
  are off by at most half a unit of the last decimal.
\<close>

theorem csv_line_columns:
  assumes "csv_line nan secs r = Inr l" and "CHR '';'' \<notin> set nan"
    and "0 \<le> r_rtt_avg r" and "0 \<le> r_rtt_min r" and "0 \<le> r_rtt_max r" and "cols = split_on (CHR '';'') l"
  shows "split_on (CHR '';'') csv_header = [''#QPS Send'', '' QPS Received'', '' QPS Errors'', '' Lostrate'', '' rtt_avg'',
      '' rtt_min'', '' rtt_max'', [CHR 10]] \<and> length cols = 8 \<and> cols ! 7 = [CHR 10] \<and>
    Inr (number (cols ! 0)) = per_second (r_counter_send r) secs \<and>
    Inr (number (cols ! 1)) = per_second (r_counter_received r) secs \<and>
    Inr (number (cols ! 2)) = per_second (r_counter_errors r) secs \<and>
    (case lost_percent r of None \<Rightarrow> cols ! 3 = nan | Some p \<Rightarrow> shows_value 3 (cols ! 3) p) \<and>
    shows_value 4 (cols ! 4) (dbl (r_rtt_avg r * 1000)) \<and> shows_value 4 (cols ! 5) (dbl (r_rtt_min r * 1000)) \<and>
    shows_value 4 (cols ! 6) (dbl (r_rtt_max r * 1000))"
  using assms(1,2)
proof (rule csv_line_split)
  fix s v e
  assume a: "per_second (r_counter_send r) secs = Inr s" "per_second (r_counter_received r) secs = Inr v"
      "per_second (r_counter_errors r) secs = Inr e"
      "split_on (CHR '';'') l = [decimal s, decimal v, decimal e, lost_text nan r, fixed 4 (dbl (r_rtt_avg r * 1000)),
        fixed 4 (dbl (r_rtt_min r * 1000)), fixed 4 (dbl (r_rtt_max r * 1000)), [CHR 10]]"
  have "case lost_percent r of None \<Rightarrow> lost_text nan r = nan | Some p \<Rightarrow> shows_value 3 (lost_text nan r) p"
    by (auto simp: lost_text_def intro: fixed_shows lost_percent_nonneg split: option.split)
  moreover have "split_on (CHR '';'') csv_header = [''#QPS Send'', '' QPS Received'', '' QPS Errors'', '' Lostrate'', '' rtt_avg'',
      '' rtt_min'', '' rtt_max'', [CHR 10]]"
    by (simp add: csv_header_def)
  moreover have "length cols = 8" "cols ! 0 = decimal s" "cols ! 1 = decimal v" "cols ! 2 = decimal e" "cols ! 3 = lost_text nan r"
    "cols ! 4 = fixed 4 (dbl (r_rtt_avg r * 1000))" "cols ! 5 = fixed 4 (dbl (r_rtt_min r * 1000))"
    "cols ! 6 = fixed 4 (dbl (r_rtt_max r * 1000))" "cols ! 7 = [CHR 10]"
    by (simp_all add: a assms(6))
  ultimately show ?thesis using milliseconds_show assms(3-5) a(1-3) by (simp split: option.splits)
qed

text \<open>100 packets in ten seconds, 25 of them lost, times of 1, 2 and 4 milliseconds.\<close>

definition demo_results :: results where
  "demo_results = Results_clear\<lparr>r_counter_send := 100, r_packages_lost := 25, r_rtt_min := 1 / 1024, r_rtt_avg := 1 / 512,
     r_rtt_max := 1 / 256\<rparr>"

theorem csv_line_columns_witness:
  "\<exists>l. csv_line ''nan'' 10 demo_results = Inr l \<and> length (split_on (CHR '';'') l) = 8 \<and>
     number (split_on (CHR '';'') l ! 0) = 10 \<and> shows_value 3 (split_on (CHR '';'') l ! 3) 25"
proof -
  have d: "dbl (of_int k) = of_int k" if "0 \<le> k" "k < 10000" for k :: int using that dbl.rnd_int [of k] by simp
  have d': "dbl 0 = 0" "dbl 10 = 10" "dbl 100 = 100" "dbl 25 = 25" "dbl 2500 = 2500"
    using d [of 0] d [of 10] d [of 100] d [of 25] d [of 2500] by simp_all
  have p: "per_second 100 10 = Inr 10" "per_second 0 10 = Inr 0" by (simp_all add: per_second_def d')
  then obtain l where l: "csv_line ''nan'' 10 demo_results = Inr l" by (simp add: csv_line_def demo_results_def Results_clear_def)
  have "lost_percent demo_results = Some 25" by (simp add: lost_percent_def demo_results_def Results_clear_def d')
  moreover have "CHR '';'' \<notin> set ''nan''" by simp
  moreover have "0 \<le> r_rtt_avg demo_results" "0 \<le> r_rtt_min demo_results" "0 \<le> r_rtt_max demo_results" "r_counter_send demo_results = 100"
    by (simp_all add: demo_results_def)
  ultimately show ?thesis using csv_line_columns [OF l _ _ _ _ refl] l p(1) by auto
qed

text \<open>Unless a report fails, every report of the sessions so far has its line.\<close>

lemma run_rates_csv:
  assumes "run_rates me ses qs ds = Some (r, out, ds')" and "CSVFile ds = Some c"
  shows "same_setup ds ds' \<and> (\<exists>c'. CSVFile ds' = Some c' \<and>
    csv_grown (r = Inr () \<or> r = Inl OperationInterruptedException) (me_nan me) (Runtime ds) c c' (reports out))"
  using assms
proof (induction me ses qs ds arbitrary: c out rule: run_rates.induct)
  case (3 me env ses q qs ds)
  obtain r1 out1 ds1 where run: "ds_run env (toInt (me_lib me) q) ds = Some (r1, out1, ds1)"
    using "3.prems"(1) by (cases "ds_run env (toInt (me_lib me) q) ds") auto
  note f = ds_run_frame [OF run] and n = ds_run_reports [OF run]
  show ?case
  proof (cases r1)
    case (Inl e)
    then show ?thesis using "3.prems" run f n by (auto simp: csv_grown_none)
  next
    case (Inr u)
    obtain res rep ds2 where rep: "make_report me ds1 = (res, rep, ds2)" by (metis surj_pair)
    note m = make_report_eq [OF rep]
    have rt: "Runtime ds1 = Runtime ds" "Runtime ds2 = Runtime ds" "same_setup ds ds2" using f m(3) by (simp_all add: same_setup_def)
    obtain c1 where c1: "CSVFile ds2 = Some c1" "csv_grown (res = Inr ()) (me_nan me) (Runtime ds) c c1 (reports rep)"
      using m(7) f "3.prems"(2) by (auto simp: rt)
    show ?thesis
    proof (cases res)
      case (Inl e)
      then show ?thesis
        using "3.prems"(1) run \<open>r1 = Inr u\<close> rep rt(3) c1 n m(2) by (auto elim: csv_grown_weaken)
    next
      case res: (Inr v)
      obtain out2 where run2: "run_rates me ses qs ds2 = Some (r, out2, ds')" "out = out1 @ rep @ out2"
        using "3.prems"(1) run Inr rep res by auto
      have "same_setup ds2 ds' \<and> (\<exists>c'. CSVFile ds' = Some c' \<and>
          csv_grown (r = Inr () \<or> r = Inl OperationInterruptedException) (me_nan me) (Runtime ds2) c1 c' (reports out2))"
        using "3.IH" [OF run refl Inr refl rep [symmetric] res refl run2(1) c1(1)] by simp
      then show ?thesis
        using c1(2) res rt n same_setup_trans [OF rt(3)] by (auto simp: run2(2) intro: csv_grown_append)
    qed
  qed
qed (auto simp: csv_grown_none)

subsection \<open>The parameters\<close>

text \<open>What the functions that read the command line do not touch.\<close>

definition same_objects :: "dns_sender \<Rightarrow> dns_sender \<Rightarrow> bool" where
  "same_objects ds ds' \<longleftrightarrow>
     threadpool ds' = threadpool ds \<and> CSVFile ds' = CSVFile ds \<and> payload ds' = payload ds \<and> Receiver ds' = Receiver ds \<and>
     sys1 ds' = sys1 ds \<and> sys2 ds' = sys2 ds \<and> Timeslices ds' = Timeslices ds \<and>
     vis_prev_results ds' = vis_prev_results ds"

lemma getTarget_ok:
  assumes "getTarget lib ds = (Inr u, ds')"
  shows "HaveArgv lib ''-z'' \<and> 1 \<le> TargetPort ds' \<and> TargetPort ds' \<le> 65535 \<and> same_objects ds ds' \<and>
    ds_DnssecRate ds' = ds_DnssecRate ds \<and> ignoreResponses ds' = ignoreResponses ds \<and>
    (\<exists>ips. GetHostByName lib (split_colon lib (GetArgv lib ''-z'') ! 0) = Inr (ds_TargetIP ds' # ips))"
  using assms
  by (auto simp: getTarget_def Let_def same_objects_def split: if_splits list.split_asm sum.split_asm)

lemma getSource_ok:
  assumes "getSource lib ds = (Inr u, ds')"
  shows "ds_spoofingEnabled ds' = HaveArgv lib ''-s'' \<and> TargetPort ds' = TargetPort ds \<and> ds_TargetIP ds' = ds_TargetIP ds \<and>
    same_objects ds ds' \<and> ds_DnssecRate ds' = ds_DnssecRate ds \<and> ignoreResponses ds' = ignoreResponses ds \<and>
    (if HaveArgv lib ''-s'' then spoofFromPcap ds' \<or> family (net_first (ds_SourceNet ds')) = IPv4
     else family (ds_SourceIP ds') = IPv4)"
  using assms
  by (auto simp: getSource_def Let_def same_objects_def split: if_splits list.split_asm sum.split_asm)

lemma addresses_objects:
  "getTarget lib ds = (r, ds') \<Longrightarrow> same_objects ds ds'" "getSource lib ds = (r, ds') \<Longrightarrow> same_objects ds ds'"
  by (auto simp: getTarget_def getSource_def Let_def same_objects_def split: if_splits list.split_asm sum.split_asm)

lemma getOptions_ok:
  assumes "getOptions lib ds = Some (0, out, ds')"
  shows "same_objects ds ds'" and "TargetPort ds' = TargetPort ds" and "ds_TargetIP ds' = ds_TargetIP ds"
    and "ds_spoofingEnabled ds' = ds_spoofingEnabled ds" and "spoofFromPcap ds' = spoofFromPcap ds"
    and "ds_SourceNet ds' = ds_SourceNet ds" and "ds_SourceIP ds' = ds_SourceIP ds"
    and "ThreadCount ds' \<noteq> 0" and "Runtime ds' \<noteq> 0" and "Timeout ds' \<noteq> 0" and "QueryFilename ds' \<noteq> []"
    and "CSVFileName ds' = GetArgv lib ''-c''" and "getQueryRates lib (GetArgv lib ''-r'') = Some (rates ds')"
    and "0 \<le> ds_DnssecRate ds \<Longrightarrow> ds_DnssecRate ds \<le> 100 \<Longrightarrow> 0 \<le> ds_DnssecRate ds' \<and> ds_DnssecRate ds' \<le> 100"
  using assms by (auto simp: getOptions_def refuse_def Let_def or_default_def same_objects_def split: if_splits)

lemma getParameter_steps:
  assumes "getParameter lib ds = Some (0, out, ds')"
  obtains ds1 ds2 where "getTarget lib (ds\<lparr>ignoreResponses := HaveArgv lib ''--ignore'',
      InterfaceName := (if HaveArgv lib ''-e'' then GetArgv lib ''-e'' else InterfaceName ds)\<rparr>) = (Inr (), ds1)"
    and "getSource lib ds1 = (Inr (), ds2)" and "getOptions lib ds2 = Some (0, out, ds')"
proof -
  let ?ds = "ds\<lparr>ignoreResponses := HaveArgv lib ''--ignore'',
    InterfaceName := (if HaveArgv lib ''-e'' then GetArgv lib ''-e'' else InterfaceName ds)\<rparr>"
  obtain r1 ds1 where t: "getTarget lib ?ds = (r1, ds1)" by fastforce
  obtain r2 ds2 where s: "getSource lib ds1 = (r2, ds2)" by fastforce
  have "HaveArgv lib ''-q'' \<noteq> HaveArgv lib ''-s''" using assms by (auto simp: getParameter_def refuse_def split: if_splits)
  then have "(case (case (r1, ds1) of (Inl e, ds) \<Rightarrow> (Inl e, ds) | (Inr _, ds) \<Rightarrow> getSource lib ds) of
      (Inl e, ds) \<Rightarrow> Some (1, [Lines [''ERROR: missing or invalid parameter''], Exception e, Lines [[]],
        ds_help (PACKAGE_VERSION lib)], ds)
    | (Inr _, ds) \<Rightarrow> getOptions lib ds) = Some (0, out, ds')"
    using assms unfolding t [symmetric] getParameter_def Let_def by auto
  then show ?thesis using that t s by (auto split: sum.splits)
qed

text \<open>
  C23. The parameters the program accepts: if \<open>getParameter\<close> succeeds, exactly one of \<open>-q\<close> and \<open>-s\<close> was
  given, the target port is a port number and the target address came from the resolver, the source is
  IPv4 or taken from the capture, the DNSSEC share is a percentage, the numbers of threads and seconds
  are not zero, a payload file is named, and the list of rates is the expansion of \<open>-r\<close>. No thread, file
  or receiver was touched.
\<close>

theorem getParameter_valid:
  assumes "getParameter lib ds = Some (0, out, ds')" and "0 \<le> ds_DnssecRate ds" and "ds_DnssecRate ds \<le> 100"
  shows "HaveArgv lib ''-q'' \<noteq> HaveArgv lib ''-s'' \<and> 1 \<le> TargetPort ds' \<and> TargetPort ds' \<le> 65535 \<and>
    (\<exists>ips. GetHostByName lib (split_colon lib (GetArgv lib ''-z'') ! 0) = Inr (ds_TargetIP ds' # ips)) \<and>
    (if ds_spoofingEnabled ds' then spoofFromPcap ds' \<or> family (net_first (ds_SourceNet ds')) = IPv4
     else family (ds_SourceIP ds') = IPv4) \<and>
    0 \<le> ds_DnssecRate ds' \<and> ds_DnssecRate ds' \<le> 100 \<and> ThreadCount ds' \<noteq> 0 \<and> Runtime ds' \<noteq> 0 \<and> Timeout ds' \<noteq> 0 \<and>
    QueryFilename ds' \<noteq> [] \<and> getQueryRates lib (GetArgv lib ''-r'') = Some (rates ds') \<and> same_objects ds ds'"
proof -
  obtain ds1 ds2 where t: "getTarget lib (ds\<lparr>ignoreResponses := HaveArgv lib ''--ignore'',
        InterfaceName := (if HaveArgv lib ''-e'' then GetArgv lib ''-e'' else InterfaceName ds)\<rparr>) = (Inr (), ds1)"
      and s: "getSource lib ds1 = (Inr (), ds2)" and o: "getOptions lib ds2 = Some (0, out, ds')"
    using getParameter_steps [OF assms(1)] by blast
  have q: "HaveArgv lib ''-q'' \<noteq> HaveArgv lib ''-s''" using assms(1) by (auto simp: getParameter_def refuse_def split: if_splits)
  note g = getTarget_ok [OF t] getSource_ok [OF s] getOptions_ok [OF o]
  have "same_objects ds ds'" using g(1,2,3) by (simp add: same_objects_def)
  moreover have "0 \<le> ds_DnssecRate ds2" "ds_DnssecRate ds2 \<le> 100" using g(1,2) assms(2,3) by simp_all
  ultimately show ?thesis using q g(1,2) g(3-) by auto
qed

theorem getParameter_valid_witness:
  "\<exists>lib ds'. getParameter lib (demo_sender 1) = Some (0, [], ds') \<and> HaveArgv lib ''-q'' \<and> \<not> HaveArgv lib ''-s'' \<and>
     1 \<le> TargetPort ds' \<and> rates ds' = [''0'']"
proof -
  define lib where "lib = demo_args\<lparr>HaveArgv := (\<lambda>s. s = ''-q'' \<or> s = ''-z''),
     GetArgv := (\<lambda>s. if s = ''-p'' then ''queries.txt'' else []), GetHostByName := (\<lambda>_. Inr [\<lparr>family = IPv4, addr = 0x0100a8c0\<rparr>])\<rparr>"
  obtain ds' where g: "getParameter lib (demo_sender 1) = Some (0, [], ds')"
    by (simp add: getParameter_def getTarget_def getSource_def getOptions_def getQueryRates_def or_default_def lib_def demo_args_def)
  have "0 \<le> ds_DnssecRate (demo_sender 1)" "ds_DnssecRate (demo_sender 1) \<le> 100" by (simp_all add: demo_sender_def DNSSender_new_def)
  from getParameter_valid [OF g this] g show ?thesis
    by (intro exI [of _ lib] exI [of _ ds']) (simp add: lib_def getQueryRates_def)
qed


subsection \<open>The file after a run of the program\<close>

lemma openFiles_csv:
  assumes "openFiles csv full io ql ds = Inr (0, out, ds')" and "CSVFileName ds \<noteq> []" and "csv (CSVFileName ds) = Inr content"
  shows "CSVFile ds' = Some (if content = [] then csv_header else content) \<and> Runtime ds' = Runtime ds"
  using assms by (auto simp: openFiles_def openCSVFile_def append_csv_def Let_def split: sum.splits option.splits if_splits)

lemma prepare_threads_frame:
  "prepare_threads new i n ds = (r, ds') \<Longrightarrow> CSVFile ds' = CSVFile ds \<and> same_setup ds ds'"
proof (induction n arbitrary: i ds)
  case (Suc n)
  show ?case
  proof (cases "bindE (new i) (prepare_thread ds)")
    case (Inr th)
    with Suc.prems have "prepare_threads new (i + 1) n (ds\<lparr>threadpool := threadpool ds @ [th]\<rparr>) = (r, ds')" by simp
    from Suc.IH [OF this] show ?thesis by (simp add: same_setup_def)
  qed (use Suc.prems in simp)
qed simp

lemma prepare_receiver_frame:
  "prepare_receiver me ds = Inr (rc, out, ds') \<Longrightarrow> CSVFile ds' = CSVFile ds \<and> same_setup ds ds' \<and> reports out = []"
  by (auto simp: prepare_receiver_def ds_help_def Let_def same_setup_def split: if_splits sum.splits)

lemma handle_csv:
  assumes "handle me e out ds = (r, out', ds')" and "CSVFile ds = Some c1"
    and "csv_grown (e = OperationInterruptedException) (me_nan me) (Runtime ds) c c1 (reports out)"
  shows "same_setup ds ds' \<and>
    (\<exists>c'. CSVFile ds' = Some c' \<and> csv_grown (r = Inr 0) (me_nan me) (Runtime ds) c c' (reports out'))"
proof (cases "e = OperationInterruptedException")
  case True
  obtain res rep ds2 where m: "make_report me ds = (res, rep, ds2)" by (metis surj_pair)
  note f = make_report_eq [OF m]
  have r: "out' = out @ rep" "ds' = ds2" "r = Inr 0 \<longleftrightarrow> res = Inr ()"
    using assms(1) True m by (auto simp: handle_def split: sum.splits)
  obtain c' where "CSVFile ds2 = Some c'" "csv_grown (res = Inr ()) (me_nan me) (Runtime ds) c1 c' (reports rep)"
    using f(7) [OF assms(2)] by blast
  then show ?thesis using f(3) assms(3) True by (auto simp: r intro: csv_grown_append)
next
  case False
  then show ?thesis using assms by (auto simp: handle_def split: if_splits elim: csv_grown_weaken)
qed

lemma run_program_csv:
  assumes "run_program me ds = Some (r, out, ds')" and "CSVFile ds = Some c"
  shows "\<exists>c'. CSVFile ds' = Some c' \<and> Runtime ds' = Runtime ds \<and>
    csv_grown (r = Inr 0) (me_nan me) (Runtime ds) c c' (reports out)"
proof (cases "prepare_receiver me ds")
  case (Inl e)
  then have "handle me e [] ds = (r, out, ds')" using assms(1) by (simp add: run_program_def)
  from handle_csv [OF this assms(2) csv_grown_none [folded reports_simps(1)]] show ?thesis by (auto simp: same_setup_def)
next
  case (Inr x)
  obtain rc out0 ds1 where x: "prepare_receiver me ds = Inr (rc, out0, ds1)" using Inr by (cases x) auto
  note f1 = prepare_receiver_frame [OF x]
  obtain r2 ds2 where t: "prepareThreads (me_thread me) ds1 = (r2, ds2)" by fastforce
  note f2 = prepare_threads_frame [OF t [unfolded prepareThreads_def]]
  have rt: "Runtime ds1 = Runtime ds" "Runtime ds2 = Runtime ds" "CSVFile ds2 = Some c"
    using f1 f2 assms(2) by (simp_all add: same_setup_def)
  consider "rc \<noteq> 0" | e where "rc = 0" "r2 = Inl e" | "rc = 0" "r2 = Inr ()" by (cases r2) auto
  then show ?thesis
  proof cases
    case 1
    then show ?thesis using assms x f1 rt(1) by (auto simp: run_program_def csv_grown_none)
  next
    case 2
    then have "handle me e [] ds2 = (r, out, ds')" using assms(1) x t by (simp add: run_program_def)
    from handle_csv [OF this rt(3) csv_grown_none [folded reports_simps(1)]] show ?thesis by (auto simp: same_setup_def rt(2))
  next
    case 3
    obtain r3 out3 ds3 where run: "run_rates me (me_sessions me) (rates ds2) ds2 = Some (r3, out3, ds3)"
      using assms(1) x t 3 by (cases "run_rates me (me_sessions me) (rates ds2) ds2") (auto simp: run_program_def)
    obtain c3 where c3: "same_setup ds2 ds3" "CSVFile ds3 = Some c3" "csv_grown (r3 = Inr () \<or> r3 = Inl OperationInterruptedException)
        (me_nan me) (Runtime ds) c c3 (reports out3)"
      using run_rates_csv [OF run rt(3)] by (auto simp: rt)
    have rt3: "Runtime ds3 = Runtime ds" using c3(1) rt(2) by (simp add: same_setup_def)
    show ?thesis
    proof (cases r3)
      case (Inl e)
      then have "handle me e out3 ds3 = (r, out, ds')" using assms(1) x t 3 run by (simp add: run_program_def)
      from handle_csv [OF this c3(2), of c] c3(3) Inl show ?thesis by (auto simp: same_setup_def rt3 elim: csv_grown_weaken)
    next
      case (Inr u)
      then show ?thesis using assms(1) x t 3 run c3 rt3 by (auto simp: run_program_def elim: csv_grown_weaken)
    qed
  qed
qed

subsection \<open>Progress lines\<close>

text \<open>The rounds of the loop that print a line: a second has passed since the last one.\<close>

fun report_rounds :: "int \<Rightarrow> monitor_round list \<Rightarrow> monitor_round list" where
  "report_rounds report [] = []"
| "report_rounds report (m # ms) =
     (if mon_running m \<and> \<not> mon_stop m then
        if mon_now m \<ge> report then m # report_rounds (mon_now m + 1) ms else report_rounds report ms
      else [])"

text \<open>The results at such a moment depend on the threads and the receiver only.\<close>

definition results_at :: "monitor_round \<Rightarrow> dns_sender \<Rightarrow> results" where
  "results_at m ds = getResults (ds\<lparr>threadpool := mon_threads m, Receiver := mon_receiver m\<rparr>)"

lemma results_at_same: "results_at m ds = results_at m ds'"
  by (simp add: results_at_def getResults_def)

definition shown :: "(results \<Rightarrow> u64) \<Rightarrow> (int \<times> int \<times> int \<times> results) list \<Rightarrow> u64" where
  "shown f ps = sum_list (map (\<lambda>(h, m, s, diff). f diff) ps)"

lemma monitor_line:
  assumes "showCurrentStats (mon_time m - start) (ds\<lparr>threadpool := mon_threads m, Receiver := mon_receiver m\<rparr>) = (p, ds1)"
  shows "vis_prev_results ds1 = results_at m ds" and "snd (snd (snd p)) = Results_minus (results_at m ds) (vis_prev_results ds)"
    and "p = (h, mi, sec, diff) \<Longrightarrow> h = (mon_time m - start) sdiv 3600 \<and>
      mi = (mon_time m - start - h * 3600) sdiv 60 \<and> sec = mon_time m - start - h * 3600 - mi * 60"
  using assms by (auto simp: showCurrentStats_def Let_def results_at_def)

lemma clock_split:
  assumes "0 \<le> (x :: int)" and "h = x sdiv 3600" and "mi = (x - h * 3600) sdiv 60" and "sec = x - h * 3600 - mi * 60"
  shows "x = h * 3600 + mi * 60 + sec \<and> 0 \<le> h \<and> mi \<in> {0..59} \<and> sec \<in> {0..59}"
proof -
  define y where "y = x mod 3600"
  have h: "h = x div 3600" using assms(1,2) smod_sdiv_nonneg [of x 3600] by simp
  then have r: "x - h * 3600 = y" by (simp add: y_def minus_div_mult_eq_mod)
  have y: "0 \<le> y" "y < 3600" by (simp_all add: y_def)
  have m: "mi = y div 60" using assms(3) r y(1) smod_sdiv_nonneg [of y 60] by simp
  then have "sec = y mod 60" using assms(4) r by (simp add: minus_div_mult_eq_mod)
  then have "sec \<in> {0..59}" using pos_mod_bound [of 60 y] pos_mod_sign [of 60 y] by simp
  moreover have "mi \<in> {0..59}" using y m by simp presburger
  moreover have "0 \<le> h" using assms(1) by (simp add: h pos_imp_zdiv_nonneg_iff)
  ultimately show ?thesis using assms(4) by simp
qed

lemma report_rounds_end: "\<not> mon_running m \<or> mon_stop m \<Longrightarrow> report_rounds report (m # ms) = []"
  by auto

lemma monitor_sums:
  assumes "monitor ms start report ds = Some (ps, ds')" and f: "\<And>a b. f (Results_minus a b) = f a - f b"
  shows "length ps = length (report_rounds report ms) \<and>
    (\<forall>k<length ps. f (vis_prev_results ds) + shown f (take (Suc k) ps) = f (results_at (report_rounds report ms ! k) ds))"
  using assms(1)
proof (induction ms arbitrary: report ds ps)
  case (Cons m ms)
  consider "\<not> mon_running m \<or> mon_stop m"
    | "mon_running m" "\<not> mon_stop m" "mon_now m < report" | "mon_running m" "\<not> mon_stop m" "report \<le> mon_now m"
    by linarith
  then show ?case
  proof cases
    case 3
    obtain p ds1 where p: "showCurrentStats (mon_time m - start)
        (ds\<lparr>threadpool := mon_threads m, Receiver := mon_receiver m\<rparr>) = (p, ds1)"
      by fastforce
    then obtain ps' where ps': "monitor ms start (mon_now m + 1) ds1 = Some (ps', ds')" "ps = p # ps'"
      using Cons.prems by (auto simp: monitor_simps(3) [OF 3 p] simp del: monitor.simps)
    have line: "f (vis_prev_results ds) + shown f (p # qs) = f (vis_prev_results ds1) + shown f qs" for qs
      using monitor_line(1,2) [OF p] by (cases p) (simp add: shown_def f)
    have "f (vis_prev_results ds) + shown f (take (Suc k) ps) = f (results_at ((m # report_rounds (mon_now m + 1) ms) ! k) ds)"
      if "k < length ps" for k
    proof (cases k)
      case 0
      then show ?thesis using line [of "[]"] monitor_line(1) [OF p] by (simp add: ps'(2) shown_def)
    next
      case (Suc j)
      then show ?thesis
        using that line [of "take (Suc j) ps'"] Cons.IH [OF ps'(1)] results_at_same [of _ ds1 ds] by (simp add: ps'(2))
    qed
    then show ?thesis using 3 Cons.IH [OF ps'(1)] by (simp add: ps'(2))
  qed (use Cons in \<open>simp_all add: monitor_simps(1,2) report_rounds_end del: monitor.simps\<close>, auto)
qed simp

lemma monitor_clock:
  assumes "monitor ms start report ds = Some (ps, ds')" and "k < length ps" and "ps ! k = (h, mi, sec, diff)"
    and "start \<le> mon_time (report_rounds report ms ! k)"
  shows "mon_time (report_rounds report ms ! k) - start = h * 3600 + mi * 60 + sec \<and> 0 \<le> h \<and> mi \<in> {0..59} \<and> sec \<in> {0..59}"
  using assms
proof (induction ms arbitrary: report ds ps k)
  case (Cons m ms)
  consider "\<not> mon_running m \<or> mon_stop m"
    | "mon_running m" "\<not> mon_stop m" "mon_now m < report" | "mon_running m" "\<not> mon_stop m" "report \<le> mon_now m"
    by linarith
  then show ?case
  proof cases
    case 3
    obtain p ds1 where p: "showCurrentStats (mon_time m - start)
        (ds\<lparr>threadpool := mon_threads m, Receiver := mon_receiver m\<rparr>) = (p, ds1)"
      by fastforce
    then obtain ps' where ps': "monitor ms start (mon_now m + 1) ds1 = Some (ps', ds')" "ps = p # ps'"
      using Cons.prems(1) by (auto simp: monitor_simps(3) [OF 3 p] simp del: monitor.simps)
    show ?thesis
    proof (cases k)
      case 0
      define x where "x = mon_time m - start"
      have x: "0 \<le> x" "h = x sdiv 3600" "mi = (x - h * 3600) sdiv 60" "sec = x - h * 3600 - mi * 60"
        using Cons.prems(3,4) monitor_line(3) [OF p, of h mi sec diff] 3 0 by (simp_all add: ps'(2) x_def)
      show ?thesis using clock_split [OF x] 3 0 by (simp add: x_def)
    next
      case (Suc j)
      then show ?thesis using Cons.prems(2-4) Cons.IH [OF ps'(1), of j] 3 by (simp add: ps'(2))
    qed
  next
    case 1
    then show ?thesis using Cons.prems(1,2) by (simp add: monitor_simps(1) del: monitor.simps)
  next
    case 2
    then show ?thesis using Cons by (simp add: monitor_simps(2) del: monitor.simps)
  qed
qed simp

lemma monitor_rate:
  assumes "monitor ms start report ds = Some (ps, ds')" and "\<forall>m\<in>set ms. mon_now m \<le> t"
  shows "int (length ps) \<le> max 0 (t + 1 - report)"
  using assms
proof (induction ms arbitrary: report ds ps)
  case (Cons m ms)
  consider "\<not> mon_running m \<or> mon_stop m"
    | "mon_running m" "\<not> mon_stop m" "mon_now m < report" | "mon_running m" "\<not> mon_stop m" "report \<le> mon_now m"
    by linarith
  then show ?case
  proof cases
    case 3
    obtain p ds1 where p: "showCurrentStats (mon_time m - start)
        (ds\<lparr>threadpool := mon_threads m, Receiver := mon_receiver m\<rparr>) = (p, ds1)"
      by fastforce
    then obtain ps' where ps': "monitor ms start (mon_now m + 1) ds1 = Some (ps', ds')" "ps = p # ps'"
      using Cons.prems(1) by (auto simp: monitor_simps(3) [OF 3 p] simp del: monitor.simps)
    have "int (length ps') \<le> max 0 (t + 1 - (mon_now m + 1))" using Cons.IH [OF ps'(1)] Cons.prems(2) by simp
    moreover have "report \<le> t" "mon_now m \<le> t" using 3(3) Cons.prems(2) by auto
    ultimately show ?thesis using 3(3) by (simp add: ps'(2))
  qed (use Cons in \<open>simp_all add: monitor_simps(1,2) del: monitor.simps\<close>)
qed simp

text \<open>
  C25. The progress lines of a session whose loop has ended add up. There is one line for every
  round of the loop in which a second has passed since the last line; the numbers of packets and
  bytes sent and received in the lines up to and including number \<open>k\<close> add up to the
  totals of that moment, which are the sums of the counters of all threads and the counters of the
  receiver; the time in front of the line is the time since the start in hours, minutes and seconds,
  unless the clock was set back before it; and in \<open>t - start\<close> seconds there are at most
  so many lines.
\<close>

theorem monitor_adds_up:
  assumes "monitor ms start (start + 1) (ds\<lparr>vis_prev_results := Results_clear\<rparr>) = Some (ps, ds')"
    and "\<forall>m\<in>set ms. mon_now m \<le> t" and "rs = report_rounds (start + 1) ms"
  shows "length ps = length rs \<and> int (length ps) \<le> max 0 (t - start) \<and>
    (\<forall>k<length ps.
      shown r_counter_send (take (Suc k) ps) = sum_list (map counter_packets_send (mon_threads (rs ! k))) \<and>
      shown r_bytes_send (take (Suc k) ps) = sum_list (map counter_bytes_send (mon_threads (rs ! k))) \<and>
      shown r_counter_received (take (Suc k) ps) = (case mon_receiver (rs ! k) of None \<Rightarrow> 0 | Some r \<Rightarrow> getPacketsReceived r) \<and>
      shown r_bytes_received (take (Suc k) ps) = (case mon_receiver (rs ! k) of None \<Rightarrow> 0 | Some r \<Rightarrow> getBytesReceived r) \<and>
      (\<forall>h mi sec diff. ps ! k = (h, mi, sec, diff) \<and> start \<le> mon_time (rs ! k) \<longrightarrow>
        mon_time (rs ! k) - start = h * 3600 + mi * 60 + sec \<and> 0 \<le> h \<and> mi \<in> {0..59} \<and> sec \<in> {0..59}))"
proof (intro conjI allI impI)
  note sums = monitor_sums [OF assms(1), folded assms(3)]
  have f: "r_counter_send (Results_minus a b) = r_counter_send a - r_counter_send b"
    "r_counter_received (Results_minus a b) = r_counter_received a - r_counter_received b"
    "r_bytes_send (Results_minus a b) = r_bytes_send a - r_bytes_send b"
    "r_bytes_received (Results_minus a b) = r_bytes_received a - r_bytes_received b" for a b
    by (simp_all add: Results_minus_def Let_def)
  show "length ps = length rs" using sums [of r_counter_send, OF f(1)] by simp
  show "int (length ps) \<le> max 0 (t - start)" using monitor_rate [OF assms(1,2)] by simp
  fix k
  assume k: "k < length ps"
  show "shown r_counter_send (take (Suc k) ps) = sum_list (map counter_packets_send (mon_threads (rs ! k)))"
    using sums [of r_counter_send, OF f(1)] k by (simp add: results_at_def getResults_fields Results_clear_def)
  show "shown r_bytes_send (take (Suc k) ps) = sum_list (map counter_bytes_send (mon_threads (rs ! k)))"
    using sums [of r_bytes_send, OF f(3)] k by (simp add: results_at_def getResults_fields Results_clear_def)
  show "shown r_counter_received (take (Suc k) ps) = (case mon_receiver (rs ! k) of None \<Rightarrow> 0 | Some r \<Rightarrow> getPacketsReceived r)"
    using sums [of r_counter_received, OF f(2)] k
    by (simp add: results_at_def getResults_fields Results_clear_def received_def getPacketsReceived_def split: option.splits)
  show "shown r_bytes_received (take (Suc k) ps) = (case mon_receiver (rs ! k) of None \<Rightarrow> 0 | Some r \<Rightarrow> getBytesReceived r)"
    using sums [of r_bytes_received, OF f(4)] k
    by (simp add: results_at_def getResults_bytes Results_clear_def split: option.splits)
qed (use monitor_clock [OF assms(1), folded assms(3)] in blast)+

text \<open>Two rounds with a line each: 3 packets after one second, 5 after two; then the threads have ended.\<close>

definition demo_rounds :: "monitor_round list" where
  "demo_rounds = map (\<lambda>(k, t). \<lparr>mon_running = True, mon_stop = False, mon_now = t, mon_time = t,
     mon_threads = [demo_thread\<lparr>counter_packets_send := k\<rparr>], mon_receiver = None\<rparr>) [(3, 1), (5, 2)] @
     [\<lparr>mon_running = False, mon_stop = False, mon_now = 3, mon_time = 3, mon_threads = [], mon_receiver = None\<rparr>]"

theorem monitor_adds_up_witness:
  "\<exists>ps ds'. monitor demo_rounds 0 (0 + 1) ((demo_sender 1)\<lparr>vis_prev_results := Results_clear\<rparr>) = Some (ps, ds') \<and>
     length ps = 2 \<and> shown r_counter_send (take 1 ps) = 3 \<and> shown r_counter_send (take 2 ps) = 5"
proof -
  have t: "\<forall>m\<in>set demo_rounds. mon_now m \<le> 3" by (simp add: demo_rounds_def)
  have r: "map (\<lambda>m. map counter_packets_send (mon_threads m)) (report_rounds (0 + 1) demo_rounds) = [[3], [5]]"
    by (simp add: demo_rounds_def)
  then have l: "length (report_rounds (0 + 1) demo_rounds) = 2" using arg_cong [of _ _ length] by fastforce
  obtain ps ds' where m: "monitor demo_rounds 0 (0 + 1) ((demo_sender 1)\<lparr>vis_prev_results := Results_clear\<rparr>) = Some (ps, ds')"
    by (simp add: demo_rounds_def showCurrentStats_def Let_def getResults_fields)
  note a = monitor_adds_up [OF m t refl]
  have "shown r_counter_send (take (Suc k) ps) = sum_list (map (\<lambda>m. map counter_packets_send (mon_threads m)) (report_rounds (0 + 1) demo_rounds) ! k)"
    if "k < 2" for k
    using a that l by simp
  from this [of 0] this [of 1] show ?thesis using m a l unfolding r by (simp add: numeral_2_eq_2)
qed

end
