(* ===== verification/Session_Plan.thy ===== *)
theory Session_Plan
  imports Session
begin

text \<open>
  What a whole run of the program does when its environment lets every loop end: the threads of each
  session send what the rate asks for, the receiver counts the answers, and every rate is reported.
  The environments are the readings of clocks, sockets and stop requests of the theories before.
\<close>

subsection \<open>One thread\<close>

text \<open>An environment in which a run ends, and one in which nothing ends it early.\<close>

definition supports :: "run_env \<Rightarrow> sender_thread \<Rightarrow> bool" where
  "supports env th \<longleftrightarrow>
     slices_ready (run_slices env) (slice_count th) (planned th div slice_count th + 1) (run_now0 env) (Timeslice th) \<and>
     waits_end env th"

definition unbroken :: "run_env \<Rightarrow> sender_thread \<Rightarrow> bool" where
  "unbroken env th \<longleftrightarrow> (\<forall>se\<in>set (run_slices env). \<not> broke se (dbl (run_start2 env + of_int (runtime th))))"

definition limited :: "sender_thread \<Rightarrow> payload_file \<Rightarrow> bool" where
  "limited th pf \<longleftrightarrow>
     thread_inv th \<and> supplied th pf \<and> th_payload th \<and> queryrate th > 0 \<and> slice_ok (runtime th) (Timeslice th) \<and>
     planned th < 2 ^ 64"

lemma th_run_planned:
  assumes "limited th pf" and "supports env th"
  obtains th' pf' where "th_run env th pf = Some (Inr (), th', pf')" and "thread_inv th'" and "same_config th th'"
    and "unat (attempted th') \<le> planned th" and "unbroken env th \<Longrightarrow> unat (attempted th') = planned th"
proof -
  have l: "thread_inv th" "supplied th pf" "th_payload th" "queryrate th > 0" "slice_ok (runtime th) (Timeslice th)"
      "planned th < 2 ^ 64"
    using assms(1) by (simp_all add: limited_def)
  have s: "slices_ready (run_slices env) (slice_count th) (planned th div slice_count th + 1) (run_now0 env) (Timeslice th)"
      "waits_end env th"
    using assms(2) by (simp_all add: supports_def)
  obtain j th' pf' where r: "th_run env th pf = Some (Inr (), th', pf')" "thread_inv th'" "same_config th th'"
      "j \<le> slice_count th" "unat (attempted th') \<le> planned th" "j = slice_count th \<longrightarrow> unat (attempted th') = planned th"
      "j < slice_count th \<longrightarrow> 0 < j \<and> broke (run_slices env ! (j - 1)) (dbl (run_start2 env + of_int (runtime th)))"
    using th_run_limited [OF l s] by blast
  have "slice_count th \<le> length (run_slices env)" using s(1) by (simp add: slices_ready_def)
  then have "j = slice_count th" if "unbroken env th"
    using that r(4,7) by (cases "j < slice_count th") (auto simp: unbroken_def)
  with r show ?thesis by (intro that) auto
qed

subsection \<open>All threads of a session\<close>

lemma run_threads_ok:
  assumes "\<forall>th\<in>set ths. limited th pf \<and> planned th = p" and "length ths \<le> length envs"
    and "\<forall>env\<in>set envs. \<forall>th\<in>set ths. supports env th"
  shows "\<exists>ths'. run_threads envs pf ths = Some (Inr ths') \<and> length ths' = length ths \<and>
    (\<forall>th'\<in>set ths'. thread_inv th' \<and> (\<exists>th\<in>set ths. same_config th th') \<and> unat (attempted th') \<le> p) \<and>
    ((\<forall>env\<in>set envs. \<forall>th\<in>set ths. unbroken env th) \<longrightarrow> (\<forall>th'\<in>set ths'. unat (attempted th') = p))"
  using assms
proof (induction ths arbitrary: envs)
  case (Cons th ths)
  obtain env envs' where e: "envs = env # envs'" using Cons.prems(2) by (cases envs) auto
  have th: "limited th pf" "supports env th" "planned th = p" using Cons.prems by (auto simp: e)
  obtain th' pf' where r: "th_run env th pf = Some (Inr (), th', pf')" "thread_inv th'" "same_config th th'"
      "unat (attempted th') \<le> p" "unbroken env th \<Longrightarrow> unat (attempted th') = p"
    using th_run_planned [OF th(1,2)] th(3) by metis
  obtain ths' where t: "run_threads envs' pf ths = Some (Inr ths')" "length ths' = length ths"
      "\<forall>th'\<in>set ths'. thread_inv th' \<and> (\<exists>th\<in>set ths. same_config th th') \<and> unat (attempted th') \<le> p"
      "(\<forall>env\<in>set envs'. \<forall>th\<in>set ths. unbroken env th) \<longrightarrow> (\<forall>th'\<in>set ths'. unat (attempted th') = p)"
    using Cons.IH [of envs'] Cons.prems by (auto simp: e)
  show ?case
    using r t by (intro exI [of _ "th' # ths'"]) (auto simp: e)
qed simp

lemma unat_sum_list:
  "sum_list (map unat xs) < 2 ^ 64 \<Longrightarrow> unat (sum_list (xs :: u64 list)) = sum_list (map unat xs)"
proof (induction xs)
  case (Cons x xs)
  then have "unat (sum_list xs) = sum_list (map unat xs)" by simp
  with Cons.prems show ?case by (simp add: unat_word_ariths)
qed simp

lemma results_attempted:
  "r_counter_send (getResults ds) + r_counter_errors (getResults ds) + r_counter_0bytes (getResults ds) =
     sum_list (map attempted (threadpool ds))"
  unfolding getResults_fields attempted_def by (simp add: sum_list_addf)

lemma results_planned:
  assumes "\<forall>th\<in>set (threadpool ds). unat (attempted th) \<le> p" and "length (threadpool ds) * p < 2 ^ 64"
  shows "unat (r_counter_send (getResults ds) + r_counter_errors (getResults ds) + r_counter_0bytes (getResults ds)) \<le>
      length (threadpool ds) * p"
    and "\<forall>th\<in>set (threadpool ds). unat (attempted th) = p \<Longrightarrow>
      unat (r_counter_send (getResults ds) + r_counter_errors (getResults ds) + r_counter_0bytes (getResults ds)) =
      length (threadpool ds) * p"
proof -
  let ?xs = "map attempted (threadpool ds)"
  have le: "sum_list (map unat ?xs) \<le> length (threadpool ds) * p"
    using sum_list_mono [of "threadpool ds" "\<lambda>th. unat (attempted th)" "\<lambda>_. p"] assms(1)
    by (simp add: comp_def sum_list_triv)
  then have u: "unat (sum_list ?xs) = sum_list (map unat ?xs)" using assms(2) by (intro unat_sum_list) simp
  show "unat (r_counter_send (getResults ds) + r_counter_errors (getResults ds) + r_counter_0bytes (getResults ds)) \<le>
      length (threadpool ds) * p"
    unfolding results_attempted u by (rule le)
  show "unat (r_counter_send (getResults ds) + r_counter_errors (getResults ds) + r_counter_0bytes (getResults ds)) =
      length (threadpool ds) * p" if "\<forall>th\<in>set (threadpool ds). unat (attempted th) = p"
  proof -
    have "map unat ?xs = map (\<lambda>_. p) (threadpool ds)" using that by simp
    then have "sum_list (map unat ?xs) = length (threadpool ds) * p" by (simp only: sum_list_triv of_nat_id)
    then show ?thesis unfolding results_attempted u .
  qed
qed

subsection \<open>The receiver of a session\<close>

text \<open>The rounds of the receiver up to the first stop request.\<close>

definition heard :: "rcv_env list \<Rightarrow> rcv_env list" where
  "heard es = takeWhile (\<lambda>e. \<not> rcv_stop e) es @ take 1 (dropWhile (\<lambda>e. \<not> rcv_stop e) es)"

definition listening :: "dns_sender \<Rightarrow> receiver_thread \<Rightarrow> bool" where
  "listening ds t \<longleftrightarrow> listens (addr (ds_TargetIP ds)) (nat (TargetPort ds)) (rt_socket t) \<and> length (rcodes (rt_counter t)) = 16"

definition answered :: "dns_sender \<Rightarrow> session_env \<Rightarrow> (timeval option \<times> bytes) list" where
  "answered ds env =
     (if Receiver ds = None then [] else answers (addr (ds_TargetIP ds)) (nat (TargetPort ds)) (heard (ses_receiver env)))"

lemma rt_run_heard:
  assumes "listening ds t" and "\<exists>e\<in>set es. rcv_stop e" and "full_frames (heard es)"
  shows "\<exists>t'. rt_run es t = Some (Inr (), t') \<and> listening ds t' \<and>
    num_pkgs (rt_counter t') = of_nat (length (answers (addr (ds_TargetIP ds)) (nat (TargetPort ds)) (heard es)))"
proof -
  let ?src = "addr (ds_TargetIP ds)" and ?port = "nat (TargetPort ds)" and ?c = "Counter_clear (rt_counter t)"
  obtain e rest where d: "dropWhile (\<lambda>e. \<not> rcv_stop e) es = e # rest" "rcv_stop e"
    using assms(2) by (metis (no_types, lifting) dropWhile_eq_Cons_conv dropWhile_eq_Nil_conv list.exhaust)
  let ?pre = "takeWhile (\<lambda>e. \<not> rcv_stop e) es"
  have es: "es = ?pre @ e # rest" using takeWhile_dropWhile_id [of "\<lambda>e. \<not> rcv_stop e" es] d(1) by simp
  have h: "heard es = ?pre @ [e]" by (simp add: heard_def d(1))
  have l: "listens ?src ?port (rt_socket (t\<lparr>rt_counter := ?c\<rparr>))" using assms(1) by (simp add: listening_def)
  have p: "\<forall>x\<in>set ?pre. \<not> rcv_stop x" by (auto dest: set_takeWhileD)
  have c: "length (rcodes ?c) = 16" "num_pkgs ?c = 0" using assms(1) by (simp_all add: listening_def Counter_clear_def)
  obtain s where s: "rcv_loop (?pre @ e # rest) (t\<lparr>rt_counter := ?c\<rparr>) =
      Some (Inr (), t\<lparr>rt_counter := ?c, rt_socket := s, rt_counter := fold observe (answers ?src ?port (heard es)) ?c\<rparr>)"
      "listens ?src ?port s"
    using rcv_loop_eq [OF l assms(3) [unfolded h] p d(2), of rest] by (auto simp: h)
  have "rt_run es t = Some (Inr (), t\<lparr>rt_socket := s, rt_counter := fold observe (answers ?src ?port (heard es)) ?c\<rparr>)"
    unfolding rt_run_def using s(1) es by simp
  then show ?thesis
    using s(2) fold_observe_all [OF c(1), of "answers ?src ?port (heard es)"] c(2) by (auto simp: listening_def)
qed

subsection \<open>A session\<close>

text \<open>
  Between two sessions: the threads are configured and idle, the receiver listens to the target. A rate
  that can be kept, and an environment in which the session ends.
\<close>

definition session_ready :: "dns_sender \<Rightarrow> bool" where
  "session_ready ds \<longleftrightarrow>
     length (threadpool ds) = nat (ThreadCount ds) \<and> (\<forall>th\<in>set (threadpool ds). ready_thread ds th) \<and>
     (\<forall>t. Receiver ds = Some t \<longrightarrow> listening ds t)"

definition rate_ok :: "int \<Rightarrow> dns_sender \<Rightarrow> bool" where
  "rate_ok q ds \<longleftrightarrow>
     0 < ThreadCount ds \<and> ThreadCount ds \<le> 2 ^ 20 \<and> 1 \<le> Runtime ds \<and> Runtime ds \<le> 2147483 \<and>
     ThreadCount ds < q \<and> q < 2 ^ 31"

definition thread_plan :: "int \<Rightarrow> dns_sender \<Rightarrow> sender_thread \<Rightarrow> bool" where
  "thread_plan q ds th \<longleftrightarrow>
     runtime th = Runtime ds \<and> timeout th = Timeout ds \<and> queryrate th = word_of_int (q div ThreadCount ds) \<and>
     Timeslice th = dbl (slice_of q (ThreadCount ds) / 1000)"

definition session_ends :: "session_env \<Rightarrow> int \<Rightarrow> dns_sender \<Rightarrow> bool" where
  "session_ends env q ds \<longleftrightarrow>
     (\<forall>st. \<exists>st'. take_sample (ses_sample1 env) st = Inr st') \<and> (\<forall>st. \<exists>st'. take_sample (ses_sample2 env) st = Inr st') \<and>
     (\<exists>m\<in>set (ses_monitor env). \<not> mon_running m \<or> mon_stop m) \<and>
     (\<exists>e\<in>set (ses_receiver env). rcv_stop e) \<and> full_frames (heard (ses_receiver env)) \<and>
     nat (ThreadCount ds) \<le> length (ses_threads env) \<and>
     (\<forall>env'\<in>set (ses_threads env). \<forall>th. thread_plan q ds th \<longrightarrow> supports env' th)"

definition session_unbroken :: "session_env \<Rightarrow> int \<Rightarrow> dns_sender \<Rightarrow> bool" where
  "session_unbroken env q ds \<longleftrightarrow> (\<forall>env'\<in>set (ses_threads env). \<forall>th. thread_plan q ds th \<longrightarrow> unbroken env' th)"

text \<open>The number of packets of a session: every thread sends its share of the rate, rounded down.\<close>

definition session_packets :: "int \<Rightarrow> dns_sender \<Rightarrow> nat" where
  "session_packets q ds = nat (ThreadCount ds) * (nat (Runtime ds) * nat (q div ThreadCount ds))"

text \<open>
  The numbers of a report are the sums over the threads of the session as their runs have left them:
  threads with the rate, the slice and the times of the session, each run in its environment until its
  loop ends.
\<close>

definition sent_by_threads :: "dns_sender \<Rightarrow> session_env \<Rightarrow> int \<Rightarrow> results \<Rightarrow> bool" where
  "sent_by_threads ds env q r \<longleftrightarrow>
     (\<exists>pf ths0 ths. length ths0 = nat (ThreadCount ds) \<and> (\<forall>th\<in>set ths0. thread_plan q ds th) \<and>
        run_threads (ses_threads env) pf ths0 = Some (Inr ths) \<and>
        r_counter_send r = sum_list (map counter_packets_send ths) \<and>
        r_bytes_send r = sum_list (map counter_bytes_send ths) \<and>
        r_counter_errors r = sum_list (map errors ths) \<and> r_counter_0bytes r = sum_list (map counter_0bytes ths))"

definition total_sends :: "results \<Rightarrow> nat" where
  "total_sends r = unat (r_counter_send r + r_counter_errors r + r_counter_0bytes r)"

lemma rate_share:
  assumes "rate_ok q ds"
  shows "1 \<le> q div ThreadCount ds" and "q div ThreadCount ds \<le> q"
    and "ThreadCount ds * (q div ThreadCount ds) \<le> q" and "q < ThreadCount ds * (q div ThreadCount ds) + ThreadCount ds"
proof -
  have n: "0 < ThreadCount ds" "ThreadCount ds < q" using assms by (simp_all add: rate_ok_def)
  show "1 \<le> q div ThreadCount ds" using zdiv_mono1 [of "ThreadCount ds" q "ThreadCount ds"] n by simp
  show "q div ThreadCount ds \<le> q" using zdiv_mono2 [of q 1 "ThreadCount ds"] n by simp
  show "ThreadCount ds * (q div ThreadCount ds) \<le> q" "q < ThreadCount ds * (q div ThreadCount ds) + ThreadCount ds"
    using n by (simp_all add: minus_mod_eq_mult_div [symmetric])
qed

lemma session_packets_int:
  assumes "rate_ok q ds"
  shows "int (session_packets q ds) = Runtime ds * (ThreadCount ds * (q div ThreadCount ds))"
    and "session_packets q ds < 2 ^ 64"
proof -
  note s = rate_share [OF assms]
  have n: "0 < ThreadCount ds" "1 \<le> Runtime ds" "Runtime ds \<le> 2147483" "q < 2 ^ 31" using assms by (simp_all add: rate_ok_def)
  show e: "int (session_packets q ds) = Runtime ds * (ThreadCount ds * (q div ThreadCount ds))"
    using n s(1) by (simp add: session_packets_def)
  have "Runtime ds * (ThreadCount ds * (q div ThreadCount ds)) \<le> 2147483 * 2 ^ 31"
    using n s(1,3) by (intro mult_mono) simp_all
  then have "int (session_packets q ds) < int (2 ^ 64)" unfolding e by simp
  then show "session_packets q ds < 2 ^ 64" by (simp only: of_nat_less_iff)
qed

lemma thread_plan_limited:
  assumes "rate_ok q ds" and "ready_thread ds th0" and "thread_plan q ds th" and "same_config th0 (th\<lparr>queryrate := queryrate th0, Timeslice := Timeslice th0\<rparr>)"
    and "thread_inv th"
  shows "limited th (payload ds)" and "planned th = nat (Runtime ds) * nat (q div ThreadCount ds)"
proof -
  have n: "0 < ThreadCount ds" "ThreadCount ds \<le> 2 ^ 20" "1 \<le> Runtime ds" "Runtime ds \<le> 2147483" "ThreadCount ds < q" "q < 2 ^ 31"
    using assms(1) by (simp_all add: rate_ok_def)
  note s = rate_share [OF assms(1)]
  have u: "unat (queryrate th) = nat (q div ThreadCount ds)"
    using s(1,2) n assms(3) by (simp add: thread_plan_def unat_eq_nat_uint uint_word_of_int take_bit_eq_mod)
  show p: "planned th = nat (Runtime ds) * nat (q div ThreadCount ds)"
    using assms(3) u by (simp add: planned_def thread_plan_def)
  have "int (planned th) = Runtime ds * (q div ThreadCount ds)" using n s(1) by (simp add: p)
  also have "\<dots> \<le> 2147483 * 2 ^ 31" using n s(1,2) by (intro mult_mono) simp_all
  finally have "int (planned th) < int (2 ^ 64)" by simp
  then have "planned th < 2 ^ 64" by (simp only: of_nat_less_iff)
  moreover have "queryrate th > 0" using u s(1) by (simp add: word_less_nat_alt)
  moreover have "slice_ok (runtime th) (Timeslice th)"
    using slice_of_ok [OF slice_ms_le [OF n(1,2,5)]] n(3,4) assms(3) by (simp add: slice_ok_def thread_plan_def)
  ultimately show "limited th (payload ds)"
    using assms(2,4,5) by (auto simp: limited_def ready_thread_def supplied_def same_config_def)
qed

lemma monitor_ends:
  "\<exists>m\<in>set ms. \<not> mon_running m \<or> mon_stop m \<Longrightarrow> \<exists>ps ds'. monitor ms start report ds = Some (ps, ds')"
proof (induction ms arbitrary: report ds)
  case (Cons m ms)
  obtain p ds1 where p: "showCurrentStats (mon_time m - start)
      (ds\<lparr>threadpool := mon_threads m, Receiver := mon_receiver m\<rparr>) = (p, ds1)"
    by fastforce
  consider "\<not> mon_running m \<or> mon_stop m"
    | "mon_running m" "\<not> mon_stop m" "mon_now m < report" | "mon_running m" "\<not> mon_stop m" "report \<le> mon_now m"
    by linarith
  then show ?case
  proof cases
    case 3
    then have "\<exists>m\<in>set ms. \<not> mon_running m \<or> mon_stop m" using Cons.prems by auto
    from Cons.IH [OF this, of "mon_now m + 1" ds1] show ?thesis
      by (auto simp: monitor_simps(3) [OF 3 p] simp del: monitor.simps)
  qed (use Cons in \<open>auto simp: monitor_simps(1,2) simp del: monitor.simps\<close>)
qed simp

lemma start_rate_ready:
  assumes "session_ready ds" and "rate_ok q ds"
  obtains ds1 where "start_rate q ds = Inr ds1"
    and "\<forall>th\<in>set (threadpool ds1). thread_plan q ds th \<and> limited th (payload ds) \<and>
      planned th = nat (Runtime ds) * nat (q div ThreadCount ds)"
    and "length (threadpool ds1) = nat (ThreadCount ds)"
proof -
  have n: "0 < ThreadCount ds" "ThreadCount ds \<le> 2 ^ 20" "ThreadCount ds < q" using assms(2) by (simp_all add: rate_ok_def)
  then have q: "0 < q" and ne: "threadpool ds \<noteq> []" using assms(1) by (auto simp: session_ready_def)
  let ?f = "\<lambda>th. th\<lparr>queryrate := word_of_int (q sdiv ThreadCount ds), Timeslice := dbl (slice_of q (ThreadCount ds) / 1000)\<rparr>"
  let ?ds1 = "ds\<lparr>Timeslices := slice_of q (ThreadCount ds), threadpool := map ?f (threadpool ds)\<rparr>"
  have s: "start_rate q ds = Inr ?ds1" using start_rate_outcome [OF q ne] slice_ms_le [OF n] by simp
  have "thread_plan q ds th \<and> limited th (payload ds) \<and> planned th = nat (Runtime ds) * nat (q div ThreadCount ds)"
    if th: "th \<in> set (map ?f (threadpool ds))" for th
  proof -
    obtain th0 where th0: "th = ?f th0" "ready_thread ds th0" using th assms(1) by (auto simp: session_ready_def)
    have pl: "thread_plan q ds th"
      using th0 n q by (simp add: thread_plan_def ready_thread_def sdiv_pos)
    have "same_config th0 (th\<lparr>queryrate := queryrate th0, Timeslice := Timeslice th0\<rparr>)" "thread_inv th"
      using th0 by (simp_all add: same_config_def ready_thread_def thread_inv_def)
    with thread_plan_limited [OF assms(2) th0(2) pl] pl show ?thesis by simp
  qed
  with s assms(1) show ?thesis by (intro that [OF s]) (simp_all add: session_ready_def)
qed

lemma run_receiver_ok:
  assumes "\<forall>t. rcv = Some t \<longrightarrow> listening ds t" and "\<exists>e\<in>set es. rcv_stop e" and "full_frames (heard es)"
  shows "\<exists>rcv'. run_receiver es rcv = Some (Inr rcv') \<and> (\<forall>t. rcv' = Some t \<longrightarrow> listening ds t) \<and>
    (rcv' = None \<longleftrightarrow> rcv = None) \<and>
    (\<forall>t. rcv' = Some t \<longrightarrow>
      num_pkgs (rt_counter t) = of_nat (length (answers (addr (ds_TargetIP ds)) (nat (TargetPort ds)) (heard es))))"
proof (cases rcv)
  case (Some t)
  then show ?thesis using rt_run_heard [of ds t es] assms by (auto simp: run_receiver_def)
qed (simp add: run_receiver_def)

lemma session_threads:
  assumes "length ths0 = nat (ThreadCount ds)" and "session_ends env q ds"
    and th: "\<forall>th\<in>set ths0. thread_plan q ds th \<and> limited th (payload ds) \<and> planned th = N"
  obtains ths where "run_threads (ses_threads env) (payload ds) ths0 = Some (Inr ths)" and "length ths = length ths0"
    and "\<forall>th'\<in>set ths. unat (attempted th') \<le> N"
    and "session_unbroken env q ds \<Longrightarrow> \<forall>th'\<in>set ths. unat (attempted th') = N"
    and "\<And>th' ds' k. th' \<in> set ths \<Longrightarrow> same_setup ds ds' \<Longrightarrow> payload ds' = (other_draw ^^ k) (payload ds) \<Longrightarrow> ready_thread ds' th'"
proof -
  have pre: "\<forall>th\<in>set ths0. limited th (payload ds) \<and> planned th = N" "length ths0 \<le> length (ses_threads env)"
    "\<forall>env\<in>set (ses_threads env). \<forall>th\<in>set ths0. supports env th"
    using th assms(1,2) by (auto simp: session_ends_def)
  obtain ths where t: "run_threads (ses_threads env) (payload ds) ths0 = Some (Inr ths)" "length ths = length ths0"
      "\<forall>th'\<in>set ths. thread_inv th' \<and> (\<exists>th\<in>set ths0. same_config th th') \<and> unat (attempted th') \<le> N"
      "(\<forall>env\<in>set (ses_threads env). \<forall>th\<in>set ths0. unbroken env th) \<longrightarrow> (\<forall>th'\<in>set ths. unat (attempted th') = N)"
    using run_threads_ok [OF pre] by blast
  have "ready_thread ds' th'"
    if mem: "th' \<in> set ths" and same: "same_setup ds ds'" "payload ds' = (other_draw ^^ k) (payload ds)" for th' ds' k
  proof -
    obtain th0 where th0: "th0 \<in> set ths0" "same_config th0 th'" "thread_inv th'" using t(3) mem by blast
    then have l: "limited th0 (payload ds)" "thread_plan q ds th0" using th by blast+
    then have "supplied th' (payload ds)" using th0(2) by (simp add: limited_def supplied_def same_config_def)
    then show ?thesis
      using other_draw_supplied(1) th0 l same
      by (auto simp: ready_thread_def limited_def thread_plan_def same_config_def same_setup_def)
  qed
  moreover have "\<forall>th'\<in>set ths. unat (attempted th') = N" if "session_unbroken env q ds"
    using t(4) th that by (auto simp: session_unbroken_def)
  ultimately show thesis using t(1-3) by (intro that) blast+
qed

lemma ds_run_ok:
  assumes "session_ready ds" and "rate_ok q ds" and "session_ends env q ds"
  shows "\<exists>out ds'. ds_run env q ds = Some (if ses_stop env then Inl OperationInterruptedException else Inr (), out, ds') \<and>
    session_ready ds' \<and> (Receiver ds' = None \<longleftrightarrow> Receiver ds = None) \<and>
    total_sends (getResults ds') \<le> session_packets q ds \<and>
    (session_unbroken env q ds \<longrightarrow> total_sends (getResults ds') = session_packets q ds) \<and>
    sent_by_threads ds env q (getResults ds') \<and>
    r_counter_received (getResults ds') = of_nat (length (answered ds env))"
proof -
  note e = assms(3) [unfolded session_ends_def]
  obtain ds1 where s: "start_rate q ds = Inr ds1" "length (threadpool ds1) = nat (ThreadCount ds)"
    and th: "\<forall>th\<in>set (threadpool ds1). thread_plan q ds th \<and> limited th (payload ds) \<and>
      planned th = nat (Runtime ds) * nat (q div ThreadCount ds)"
    using start_rate_ready [OF assms(1,2)] by metis
  note f1 = start_rate_frame [OF s(1)]
  obtain st1 where st1: "take_sample (ses_sample1 env) (sys1 ds1) = Inr st1" using e by blast
  let ?ds = "ds1\<lparr>vis_prev_results := Results_clear, sys1 := st1\<rparr>"
  obtain ps ds2 where m: "monitor (ses_monitor env) (ses_start env) (ses_start env + 1) ?ds = Some (ps, ds2)"
    using monitor_ends e by blast
  note f2 = monitor_frame [OF m]
  obtain rcv where r: "run_receiver (ses_receiver env) (Receiver ds) = Some (Inr rcv)" "\<forall>t. rcv = Some t \<longrightarrow> listening ds t"
      "rcv = None \<longleftrightarrow> Receiver ds = None" "\<forall>t. rcv = Some t \<longrightarrow>
        num_pkgs (rt_counter t) = of_nat (length (answers (addr (ds_TargetIP ds)) (nat (TargetPort ds)) (heard (ses_receiver env))))"
    using run_receiver_ok [of "Receiver ds" ds "ses_receiver env"] assms(1) e by (auto simp: session_ready_def)
  obtain st2 where st2: "take_sample (ses_sample2 env) (sys2 ds2) = Inr st2" using e by blast
  have pl: "payload ds2 = payload ds" using f1 f2 by simp
  let ?N = "nat (Runtime ds) * nat (q div ThreadCount ds)"
  obtain ths where t: "run_threads (ses_threads env) (payload ds) (threadpool ds1) = Some (Inr ths)"
      "length ths = length (threadpool ds1)" "\<forall>th'\<in>set ths. unat (attempted th') \<le> ?N"
      "session_unbroken env q ds \<Longrightarrow> \<forall>th'\<in>set ths. unat (attempted th') = ?N"
    and ready: "\<And>th' ds' k. th' \<in> set ths \<Longrightarrow> same_setup ds ds' \<Longrightarrow> payload ds' = (other_draw ^^ k) (payload ds) \<Longrightarrow> ready_thread ds' th'"
    using session_threads [OF s(2) assms(3) th] by blast
  let ?ds' = "ds2\<lparr>Receiver := rcv, sys2 := st2, threadpool := ths, payload := (other_draw ^^ ses_draws env) (payload ds)\<rparr>"
  have run: "ds_run env q ds = Some (if ses_stop env then Inl OperationInterruptedException else Inr (),
      [start_lines q ds1] @ map Progress ps, ?ds')"
    using st1 m r(1) st2 t(1) f1 pl by (simp add: ds_run_def s(1) Let_def finish_session_def)
  have same: "same_setup ds ?ds'" using f1 f2 by (simp add: same_setup_def)
  have "ready_thread ?ds' th'" if "th' \<in> set ths" for th' using that same by (rule ready) simp
  then have "session_ready ?ds'"
    using t(2) s(2) same r(2) by (auto simp: session_ready_def listening_def same_setup_def)
  moreover have len: "length (threadpool ?ds') * ?N = session_packets q ds"
    using t(2) s(2) by (simp add: session_packets_def)
  note tot = results_planned [of ?ds' ?N, unfolded len, folded total_sends_def]
  have "total_sends (getResults ?ds') \<le> session_packets q ds"
    using t(3) session_packets_int(2) [OF assms(2)] by (intro tot) auto
  moreover have "total_sends (getResults ?ds') = session_packets q ds" if "session_unbroken env q ds"
    using t(3) t(4) [OF that] session_packets_int(2) [OF assms(2)] by (intro tot) auto
  moreover have "sent_by_threads ds env q (getResults ?ds')"
    unfolding sent_by_threads_def using s(2) th t(1)
    by (intro exI [of _ "payload ds"] exI [of _ "threadpool ds1"] exI [of _ ths]) (simp add: getResults_fields)
  moreover have "r_counter_received (getResults ?ds') = of_nat (length (answered ds env))"
    using r(3,4) by (auto simp: getResults_fields received_def answered_def split: option.splits)
  ultimately show ?thesis using run r(3) by (intro exI [of _ "[start_lines q ds1] @ map Progress ps"] exI [of _ ?ds']) auto
qed

subsection \<open>Reports never fail\<close>

lemma per_second_ok:
  assumes "2 \<le> secs" and "secs \<le> 2 ^ 53"
  shows "\<exists>k. per_second n secs = Inr k"
proof -
  define x where "x = dbl (of_nat (unat n)) / dbl (of_int secs)"
  have "unat n \<le> 2 ^ 64" using less_imp_le [OF u64_lt [of n]] by simp
  then have "(of_nat (unat n) :: rat) \<le> of_nat (2 ^ 64)" by (simp only: of_nat_le_iff)
  then have "(of_nat (unat n) :: rat) \<le> 2 ^ 64" by simp
  then have "dbl (of_nat (unat n)) \<le> dbl (2 ^ 64)" by (rule dbl.rnd_mono)
  also have "dbl (2 ^ 64) = 2 ^ 64" by code_simp
  finally have n: "dbl (of_nat (unat n)) \<le> 2 ^ 64" .
  have s: "dbl (of_int secs) = of_int secs" using assms by (intro dbl.rnd_int) simp
  have s2: "(2 :: rat) \<le> of_int secs" using assms(1) by (simp flip: of_int_le_iff)
  have x0: "0 \<le> x" unfolding x_def s using s2 by (intro divide_nonneg_pos dbl.rnd_nonneg of_nat_0_le_iff) simp_all
  have "x \<le> 2 ^ 64 / 2"
    unfolding x_def s using n s2 by (intro frac_le) simp_all
  then have "dbl x \<le> dbl (2 ^ 63)" by (intro dbl.rnd_mono) simp
  also have "dbl (2 ^ 63) = 2 ^ 63" by code_simp
  finally have "dbl x < 2 ^ 64" by simp
  moreover have "0 \<le> dbl x" using x0 by (rule dbl.rnd_nonneg)
  ultimately have "-1 < dbl x \<and> dbl x < 2 ^ 64" by simp
  then show ?thesis using assms(1) unfolding per_second_def x_def [symmetric] Let_def by simp
qed

lemma error_lines_ok:
  "2 \<le> secs \<Longrightarrow> secs \<le> 2 ^ 53 \<Longrightarrow> \<exists>ls. error_lines se secs es = Inr ls"
proof (induction es)
  case (Cons e es)
  obtain i n where e: "e = (i, n)" by fastforce
  show ?case using Cons per_second_ok [OF Cons.prems, of n] by (auto simp: e)
qed simp

lemma counted_line_ok: "2 \<le> secs \<Longrightarrow> secs \<le> 2 ^ 53 \<Longrightarrow> \<exists>ls. counted_line label n secs = Inr ls"
  using per_second_ok [of secs n] by (auto simp: counted_line_def)

lemma bindE_total: "\<exists>a. r = Inr a \<Longrightarrow> (\<And>a. \<exists>b. f a = Inr b) \<Longrightarrow> \<exists>b. bindE r f = Inr b"
  by auto

lemma make_report_ok:
  assumes "2 \<le> Runtime ds" and "Runtime ds \<le> 2 ^ 53" and "\<forall>c l. me_full me c l = None"
  shows "\<exists>rep ds'. make_report me ds = (Inr (), rep, ds')"
proof -
  note total = per_second_ok [OF assms(1,2)] error_lines_ok [OF assms(1,2)] counted_line_ok [OF assms(1,2)]
  obtain tr rc ds1 where n: "present_network ds = ((tr, rc), ds1)" by (metis surj_pair)
  have rt: "Runtime ds1 = Runtime ds"
    using n by (auto simp: present_network_def Let_def split: prod.splits)
  have "\<exists>ls. report_lines (me_strerror me) (me_nan me) (getResults ds) tr rc ds1 = Inr ls"
    unfolding report_lines_def Let_def rt by (intro bindE_total total) blast
  moreover have "\<exists>l. csv_line (me_nan me) (Runtime ds) (getResults ds) = Inr l"
    unfolding csv_line_def by (intro bindE_total total) blast
  ultimately show ?thesis
    using assms(3) by (cases "CSVFile ds1") (auto simp: make_report_def presentResults_def n saveResultsToCsv_def append_csv_def rt Let_def)
qed

subsection \<open>All sessions\<close>

lemma ready_transfer:
  assumes "session_ready ds" and "same_setup ds ds'" and "threadpool ds' = threadpool ds" and "payload ds' = payload ds"
    and "Receiver ds' = Receiver ds"
  shows "session_ready ds'"
  using assms by (simp add: session_ready_def same_setup_def ready_thread_def listening_def)

lemma setup_transfer:
  assumes "same_setup ds ds'" and "Receiver ds' = None \<longleftrightarrow> Receiver ds = None"
  shows "rate_ok q ds' = rate_ok q ds" and "session_ends env q ds' = session_ends env q ds"
    and "session_unbroken env q ds' = session_unbroken env q ds" and "session_packets q ds' = session_packets q ds"
    and "answered ds' env = answered ds env" and "sent_by_threads ds' env q r = sent_by_threads ds env q r"
  using assms
  by (simp_all add: same_setup_def rate_ok_def session_ends_def session_unbroken_def session_packets_def answered_def thread_plan_def
      sent_by_threads_def)

text \<open>What a report says of its session.\<close>

definition reports_session :: "dns_sender \<Rightarrow> session_env \<Rightarrow> int \<Rightarrow> results \<Rightarrow> bool" where
  "reports_session ds env q r \<longleftrightarrow>
     total_sends r \<le> session_packets q ds \<and> (session_unbroken env q ds \<longrightarrow> total_sends r = session_packets q ds) \<and>
     sent_by_threads ds env q r \<and>
     r_counter_received r = of_nat (length (answered ds env))"

lemma run_rates_ok:
  assumes "session_ready ds" and "2 \<le> Runtime ds"
    and "\<forall>c l. me_full me c l = None"
    and "list_all2 (\<lambda>env q. rate_ok (toInt (me_lib me) q) ds \<and> session_ends env (toInt (me_lib me) q) ds \<and> \<not> ses_stop env) ses qs"
  shows "\<exists>out ds'. run_rates me ses qs ds = Some (Inr (), out, ds') \<and> session_ready ds' \<and> same_setup ds ds' \<and>
    (Receiver ds' = None \<longleftrightarrow> Receiver ds = None) \<and>
    list_all2 (\<lambda>(env, q) r. reports_session ds env (toInt (me_lib me) q) r) (zip ses qs) (reports out)"
  using assms(1,2,4)
proof (induction ses arbitrary: qs ds)
  case (Cons env ses)
  obtain q qs' where qs: "qs = q # qs'" using Cons.prems(3) by (cases qs) auto
  let ?q = "toInt (me_lib me) q"
  have ok: "rate_ok ?q ds" "session_ends env ?q ds" "\<not> ses_stop env"
    and rest: "list_all2 (\<lambda>env q. rate_ok (toInt (me_lib me) q) ds \<and> session_ends env (toInt (me_lib me) q) ds \<and> \<not> ses_stop env) ses qs'"
    using Cons.prems(3) by (auto simp: qs)
  obtain out1 ds1 where r: "ds_run env ?q ds = Some (Inr (), out1, ds1)" "session_ready ds1"
      "Receiver ds1 = None \<longleftrightarrow> Receiver ds = None" "reports_session ds env ?q (getResults ds1)"
    using ds_run_ok [OF Cons.prems(1) ok(1,2)] ok(3) by (auto simp: reports_session_def)
  note f = ds_run_frame [OF r(1)]
  then have rt: "2 \<le> Runtime ds1" "Runtime ds1 \<le> 2 ^ 53"
    using Cons.prems(2) ok(1) by (simp_all add: same_setup_def rate_ok_def)
  then obtain rep ds2 where m: "make_report me ds1 = (Inr (), rep, ds2)" using make_report_ok assms(3) by blast
  note m' = make_report_eq [OF m]
  have same: "same_setup ds ds2" "Receiver ds2 = None \<longleftrightarrow> Receiver ds = None"
    using f m'(3,6) r(3) by (auto intro: same_setup_trans)
  note tr = setup_transfer [OF same]
  have "session_ready ds2" using r(2) m'(3-6) by (rule ready_transfer)
  moreover have "2 \<le> Runtime ds2" using rt m'(3) by (simp add: same_setup_def)
  ultimately obtain out2 ds' where "run_rates me ses qs' ds2 = Some (Inr (), out2, ds')"
      "session_ready ds'" "same_setup ds2 ds'" "Receiver ds' = None \<longleftrightarrow> Receiver ds2 = None"
      "list_all2 (\<lambda>(env, q) r. reports_session ds2 env (toInt (me_lib me) q) r) (zip ses qs') (reports out2)"
    using Cons.IH [of ds2 qs'] rest by (auto simp: tr)
  then show ?case
    using r(1,4) m ds_run_reports [OF r(1)] m'(1) same same_setup_trans [OF same(1)]
    by (simp add: qs reports_session_def tr)
qed auto

subsection \<open>The whole program\<close>

lemma prepare_receiver_ok:
  assumes "me_receiver me = Inr t" and "me_interface me = Inr ()" and "length (rbuffer (rt_socket t)) = 4096"
    and "length (rcodes (rt_counter t)) = 16" and "1 \<le> TargetPort ds" and "TargetPort ds \<le> 65535" and "Receiver ds = None"
  shows "\<exists>rcv. prepare_receiver me ds = Inr (0, [], ds\<lparr>Receiver := rcv\<rparr>) \<and> (rcv = None \<longleftrightarrow> ignoreResponses ds) \<and>
    (\<forall>t. rcv = Some t \<longrightarrow> listening ds t)"
proof (cases "ignoreResponses ds")
  case True
  then show ?thesis using assms(7) by (intro exI [of _ None]) (simp add: prepare_receiver_def)
next
  case False
  have "word_of_int (TargetPort ds) = (word_of_nat (nat (TargetPort ds)) :: u16)" using assms(5) by simp
  then have "listening ds (rt_setSource (ds_TargetIP ds) (TargetPort ds) t)"
    using assms(3-6) by (simp add: listening_def listens_def rt_setSource_def rcv_setSource_def)
  then show ?thesis
    using False assms(1,2)
    by (intro exI [of _ "Some (rt_setSource (ds_TargetIP ds) (TargetPort ds) t)"]) (simp add: prepare_receiver_def)
qed

lemma prepare_ready:
  assumes "config_ok ds" and "threadpool ds = []" and "\<forall>i. \<exists>th. me_thread me i = Inr th \<and> fresh_thread th"
    and "me_receiver me = Inr t" and "me_interface me = Inr ()" and "length (rbuffer (rt_socket t)) = 4096"
    and "length (rcodes (rt_counter t)) = 16" and "1 \<le> TargetPort ds" and "TargetPort ds \<le> 65535" and "Receiver ds = None"
  obtains ds0 ds1 where "prepare_receiver me ds = Inr (0, [], ds0)" and "prepareThreads (me_thread me) ds0 = (Inr (), ds1)" and "session_ready ds1"
    and "same_setup ds ds1" and "Receiver ds1 = None \<longleftrightarrow> ignoreResponses ds"
proof -
  obtain rcv where r: "prepare_receiver me ds = Inr (0, [], ds\<lparr>Receiver := rcv\<rparr>)" "rcv = None \<longleftrightarrow> ignoreResponses ds"
      "\<forall>t. rcv = Some t \<longrightarrow> listening ds t"
    using prepare_receiver_ok [OF assms(4-10)] by blast
  let ?ds = "ds\<lparr>Receiver := rcv\<rparr>"
  have "config_ok ?ds" "\<forall>th\<in>set (threadpool ?ds). ready_thread ?ds th" using assms(1,2) by (simp_all add: config_ok_def)
  from prepare_threads_ok [OF assms(3) this, of 0 "nat (ThreadCount ds)"] obtain ths where
    p: "prepareThreads (me_thread me) ?ds = (Inr (), ?ds\<lparr>threadpool := ths\<rparr>)" "length ths = nat (ThreadCount ds)"
      "\<forall>th\<in>set ths. ready_thread ?ds th"
    using assms(2) by (auto simp: prepareThreads_def)
  have "session_ready (?ds\<lparr>threadpool := ths\<rparr>)"
    using p(2,3) r(3) by (simp add: session_ready_def ready_thread_def listening_def)
  then show ?thesis using r p(1) by (intro that [of ?ds "?ds\<lparr>threadpool := ths\<rparr>"]) (simp_all add: same_setup_def)
qed

subsection \<open>A run for the witnesses\<close>

text \<open>One thread, two seconds, two queries per second; one answer arrives.\<close>

definition demo_config :: dns_sender where
  "demo_config = (demo_sender 0)\<lparr>ThreadCount := 1, Runtime := 2, rates := [''2''], payload := demo_payload,
     ds_TargetIP := \<lparr>family = IPv4, addr = 0x0100a8c0\<rparr>\<rparr>"

definition demo_fresh :: "nat \<Rightarrow> sender_thread result" where
  "demo_fresh i = Inr (DNSSenderThread_new \<lparr>sin_addr = -1, sin_port = 0\<rparr> \<lparr>family = IPv4, addr = 0\<rparr>
     \<lparr>net_first = \<lparr>family = IPv4, addr = 0\<rparr>, prefixlen = 0\<rparr> (replicate 4096 0))"

definition demo_thread_env :: run_env where
  "demo_thread_env = demo_run\<lparr>run_slices := replicate 4
     \<lparr>moments = replicate 3 \<lparr>others = 1, attempts = [demo_env]\<rparr>, nsec = [10], stop_request = False, microtime = 0\<rparr>\<rparr>"

definition demo_sample :: sample_env where
  "demo_sample = \<lparr>smp_now = 0, smp_cpu = Some [], smp_info = None, smp_net = demo_net\<rparr>"

definition demo_session :: "bool \<Rightarrow> session_env" where
  "demo_session stop = \<lparr>ses_sample1 = demo_sample, ses_start = 0,
     ses_monitor = [\<lparr>mon_running = False, mon_stop = stop, mon_now = 0, mon_time = 0, mon_threads = [], mon_receiver = None\<rparr>],
     ses_receiver = [demo_round (demo_answer 17 0 1) True], ses_sample2 = demo_sample,
     ses_threads = [demo_thread_env], ses_draws = 4, ses_stop = stop\<rparr>"

definition demo_main :: "bool \<Rightarrow> main_env" where
  "demo_main stop = \<lparr>me_argc = 9, me_lib = demo_args\<lparr>toInt := (\<lambda>_. 2)\<rparr>, me_csv = (\<lambda>_. Inr []), me_full = (\<lambda>_ _. None), me_io = demo_io,
     me_ql = demo_lib, me_strerror = (\<lambda>_. []), me_nan = ''nan'', me_thread = demo_fresh, me_receiver = Inr demo_receiver,
     me_interface = Inr (), me_sessions = [demo_session stop]\<rparr>"

lemma demo_config_ok: "config_ok demo_config" "threadpool demo_config = []" "Receiver demo_config = None"
    "TargetPort demo_config = 53" "Runtime demo_config = 2" "Timeout demo_config = 2" "ThreadCount demo_config = 1"
    "rates demo_config = [''2'']" "ignoreResponses demo_config = False" "addr (ds_TargetIP demo_config) = 0x0100a8c0"
  using demo_thread_ok(2)
  by (simp_all add: config_ok_def demo_config_def demo_sender_def DNSSender_new_def supplied_def)

lemma demo_fresh_ok: "\<forall>i. \<exists>th. demo_fresh i = Inr th \<and> fresh_thread th"
  unfolding demo_fresh_def fresh_thread_def by (metis length_replicate)

lemma demo_slices: "dbl (slice_of 2 1 / 1000) = 1 / 2" "timeslices 2 (1 / 2) = 4"
    "deadline 0 (1 / 2) 1 \<le> 10" "deadline 0 (1 / 2) 2 \<le> 10" "deadline 0 (1 / 2) 3 \<le> 10" "deadline 0 (1 / 2) 4 \<le> 10"
  by code_simp+

lemma demo_supports:
  assumes "thread_plan 2 demo_config th"
  shows "supports demo_thread_env th" and "unbroken demo_thread_env th"
proof -
  have f: "runtime th = 2" "timeout th = 2" "unat (queryrate th) = 2" "Timeslice th = 1 / 2"
    using assms by (simp_all add: thread_plan_def demo_config_ok demo_slices)
  have c: "planned th = 4" "slice_count th = 4" by (simp_all add: planned_def slice_count_def f demo_slices)
  have i: "dbl 2 = 2" using dbl.rnd_int [of 2] by simp
  have "\<forall>i<4. deadline 0 (1 / 2) (Suc i) \<le> 10"
    using demo_slices(3-) by (simp add: eval_nat_numeral All_less_Suc)
  then show "supports demo_thread_env th"
    by (simp add: supports_def c f slices_ready_def demo_thread_env_def demo_run_def enough_def waits_end_def i)
  show "unbroken demo_thread_env th"
    by (simp add: unbroken_def demo_thread_env_def demo_run_def broke_def f i)
qed

lemma demo_take_sample: "\<exists>st'. take_sample demo_sample st = Inr st'"
  by (simp add: take_sample_def demo_sample_def sampleSensorData_def sampleCpuUsage_def sampleNetwork_def demo_net_def tok_network_def Let_def)

lemma demo_session_ok: "rate_ok 2 demo_config" "session_ends (demo_session stop) 2 demo_config"
    "session_unbroken (demo_session stop) 2 demo_config" "session_packets 2 demo_config = 4"
    "heard (ses_receiver (demo_session stop)) = [demo_round (demo_answer 17 0 1) True]"
    "length (answers 0x0100a8c0 53 [demo_round (demo_answer 17 0 1) True]) = 1"
proof -
  show "rate_ok 2 demo_config" by (simp add: rate_ok_def demo_config_ok)
  show h: "heard (ses_receiver (demo_session stop)) = [demo_round (demo_answer 17 0 1) True]"
    by (simp add: heard_def demo_session_def demo_round_def)
  show "session_ends (demo_session stop) 2 demo_config"
    using h demo_supports(1) demo_take_sample
    by (auto simp: session_ends_def demo_session_def demo_config_ok full_frames_def demo_round_def demo_answer_ok)
  show "session_unbroken (demo_session stop) 2 demo_config"
    using demo_supports(2) by (simp add: session_unbroken_def demo_session_def)
  show "session_packets 2 demo_config = 4" by (simp add: session_packets_def demo_config_ok)
  show "length (answers 0x0100a8c0 53 [demo_round (demo_answer 17 0 1) True]) = 1"
    by (simp add: answers_def round_answers_def demo_round_def demo_answer_ok)
qed

lemma demo_main_ok: "me_thread (demo_main stop) = demo_fresh" "me_receiver (demo_main stop) = Inr demo_receiver"
    "me_interface (demo_main stop) = Inr ()" "me_sessions (demo_main stop) = [demo_session stop]"
    "toInt (me_lib (demo_main stop)) q = 2" "ses_stop (demo_session stop) = stop"
    "length (rbuffer (rt_socket demo_receiver)) = 4096" "length (rcodes (rt_counter demo_receiver)) = 16"
    "\<forall>c l. me_full (demo_main stop) c l = None"
  by (simp_all add: demo_main_def demo_session_def demo_receiver_def rt_setSource_def rcv_setSource_def Counter_new_def)

subsection \<open>Complete and interrupted runs\<close>

lemma setup_plan:
  assumes "same_setup ds ds1"
  shows "rate_ok q ds1 = rate_ok q ds" and "session_ends env q ds1 = session_ends env q ds"
    and "session_unbroken env q ds1 = session_unbroken env q ds" and "session_packets q ds1 = session_packets q ds"
    and "sent_by_threads ds1 env q r = sent_by_threads ds env q r"
  using assms
  by (simp_all add: same_setup_def rate_ok_def session_ends_def session_unbroken_def session_packets_def thread_plan_def
      sent_by_threads_def)

lemma setup_answered:
  assumes "same_setup ds ds1" and "Receiver ds1 = None \<longleftrightarrow> ignoreResponses ds"
  shows "answered ds1 env = (if ignoreResponses ds then []
      else answers (addr (ds_TargetIP ds)) (nat (TargetPort ds)) (heard (ses_receiver env)))"
  using assms by (simp add: answered_def same_setup_def)

text \<open>Rates rounded down to a multiple of the number of threads.\<close>

lemma session_packets_bound:
  assumes "rate_ok q ds"
  shows "int (session_packets q ds) \<le> Runtime ds * q" and "Runtime ds * q < int (session_packets q ds) + Runtime ds * ThreadCount ds"
proof -
  have "1 \<le> Runtime ds" using assms by (simp add: rate_ok_def)
  then have "Runtime ds * (ThreadCount ds * (q div ThreadCount ds)) \<le> Runtime ds * q"
    "Runtime ds * q < Runtime ds * (ThreadCount ds * (q div ThreadCount ds) + ThreadCount ds)"
    using rate_share(3,4) [OF assms] by (intro mult_left_mono mult_strict_left_mono; simp)+
  then show "int (session_packets q ds) \<le> Runtime ds * q" "Runtime ds * q < int (session_packets q ds) + Runtime ds * ThreadCount ds"
    by (simp_all add: session_packets_int(1) [OF assms] distrib_left)
qed

lemma run_program_ok:
  assumes "config_ok ds" and "threadpool ds = []" and "Receiver ds = None" and "1 \<le> TargetPort ds" and "TargetPort ds \<le> 65535"
    and "\<forall>i. \<exists>th. me_thread me i = Inr th \<and> fresh_thread th"
    and "me_receiver me = Inr t" and "me_interface me = Inr ()" and "length (rbuffer (rt_socket t)) = 4096"
    and "length (rcodes (rt_counter t)) = 16" and "2 \<le> Runtime ds"
    and "list_all2 (\<lambda>env q. rate_ok (toInt (me_lib me) q) ds \<and> session_ends env (toInt (me_lib me) q) ds \<and> \<not> ses_stop env)
      (me_sessions me) (rates ds)"
    and "\<forall>c l. me_full me c l = None"
  shows "\<exists>out ds1 ds'. run_program me ds = Some (Inr 0, out, ds') \<and> same_setup ds ds1 \<and>
    (Receiver ds1 = None \<longleftrightarrow> ignoreResponses ds) \<and>
    list_all2 (\<lambda>(env, q) r. reports_session ds1 env (toInt (me_lib me) q) r) (zip (me_sessions me) (rates ds)) (reports out)"
proof -
  obtain ds0 ds1 where p: "prepare_receiver me ds = Inr (0, [], ds0) \<and> prepareThreads (me_thread me) ds0 = (Inr (), ds1)" "session_ready ds1"
      "same_setup ds ds1" "Receiver ds1 = None \<longleftrightarrow> ignoreResponses ds"
    using prepare_ready [OF assms(1,2,6-10,4,5,3)] by metis
  have rt: "2 \<le> Runtime ds1" "rates ds1 = rates ds" using p(3) assms(11) by (simp_all add: same_setup_def)
  obtain out ds2 where r: "run_rates me (me_sessions me) (rates ds) ds1 = Some (Inr (), out, ds2)"
      "list_all2 (\<lambda>(env, q) r. reports_session ds1 env (toInt (me_lib me) q) r) (zip (me_sessions me) (rates ds)) (reports out)"
    using run_rates_ok [OF p(2) rt(1) assms(13), of "me_sessions me" "rates ds"] assms(12) by (auto simp: setup_plan [OF p(3)])
  have "run_program me ds = Some (Inr 0, out, ds2\<lparr>threadpool := []\<rparr>)" using p(1) r(1) by (simp add: run_program_def rt(2))
  with p(3,4) r(2) show ?thesis
    by (intro exI [of _ out] exI [of _ ds1] exI [of _ "ds2\<lparr>threadpool := []\<rparr>"]) simp
qed

text \<open>
  From a valid configuration all sessions run and each is reported with the packets of its rate.
\<close>

lemma run_program_completes:
  assumes "config_ok ds" and "threadpool ds = []" and "Receiver ds = None" and "1 \<le> TargetPort ds" and "TargetPort ds \<le> 65535"
    and "\<forall>i. \<exists>th. me_thread me i = Inr th \<and> fresh_thread th"
    and "me_receiver me = Inr t" and "me_interface me = Inr ()" and "length (rbuffer (rt_socket t)) = 4096"
    and "length (rcodes (rt_counter t)) = 16" and "2 \<le> Runtime ds"
    and "list_all2 (\<lambda>env q. rate_ok (toInt (me_lib me) q) ds \<and> session_ends env (toInt (me_lib me) q) ds \<and> \<not> ses_stop env)
      (me_sessions me) (rates ds)"
    and "\<forall>c l. me_full me c l = None"
  shows "\<exists>out ds'. run_program me ds = Some (Inr 0, out, ds') \<and> length (reports out) = length (rates ds) \<and>
    (\<forall>k<length (rates ds).
      let q = toInt (me_lib me) (rates ds ! k); env = me_sessions me ! k; r = reports out ! k in
      total_sends r \<le> session_packets q ds \<and>
      (session_unbroken env q ds \<longrightarrow> total_sends r = session_packets q ds) \<and>
      int (session_packets q ds) \<le> Runtime ds * q \<and>
      Runtime ds * q < int (session_packets q ds) + Runtime ds * ThreadCount ds \<and>
      r_counter_received r = of_nat (length (if ignoreResponses ds then []
        else answers (addr (ds_TargetIP ds)) (nat (TargetPort ds)) (heard (ses_receiver env)))))"
proof -
  obtain out ds1 ds' where p: "run_program me ds = Some (Inr 0, out, ds')" "same_setup ds ds1"
      "Receiver ds1 = None \<longleftrightarrow> ignoreResponses ds"
      "list_all2 (\<lambda>(env, q) r. reports_session ds1 env (toInt (me_lib me) q) r) (zip (me_sessions me) (rates ds)) (reports out)"
    using run_program_ok [OF assms] by (elim exE conjE) (rule that)
  note eq = setup_plan [OF p(2)] setup_answered [OF p(2,3)]
  have len: "length (me_sessions me) = length (rates ds)" using assms(12) by (rule list_all2_lengthD)
  have each: "reports_session ds1 (me_sessions me ! k) (toInt (me_lib me) (rates ds ! k)) (reports out ! k)"
      and ok: "rate_ok (toInt (me_lib me) (rates ds ! k)) ds" if "k < length (rates ds)" for k
    using that list_all2_nthD [OF p(4), of k] list_all2_nthD [OF assms(12), of k] by (simp_all add: len)
  have "length (reports out) = length (rates ds)" using list_all2_lengthD [OF p(4)] by (simp add: len)
  then show ?thesis
    using p(1) each session_packets_bound [OF ok]
    by (intro exI [of _ out] exI [of _ ds']) (simp add: Let_def reports_session_def eq)
qed

lemma run_rates_append:
  assumes "run_rates me ses qs ds = Some (Inr (), out, ds1)" and "length ses = length qs"
  shows "run_rates me (ses @ ses') (qs @ qs') ds =
    map_option (\<lambda>(r, out', ds). (r, out @ out', ds)) (run_rates me ses' qs' ds1)"
  using assms
proof (induction ses arbitrary: qs ds out)
  case Nil
  then show ?case by (cases "run_rates me ses' qs' ds") auto
next
  case (Cons env ses)
  obtain q qs1 where qs: "qs = q # qs1" using Cons.prems(2) by (cases qs) auto
  obtain o1 d1 where d: "ds_run env (toInt (me_lib me) q) ds = Some (Inr (), o1, d1)"
    using Cons.prems(1) by (cases "ds_run env (toInt (me_lib me) q) ds") (auto simp: qs split: sum.splits)
  obtain rep d2 where m: "make_report me d1 = (Inr (), rep, d2)"
    using Cons.prems(1) d by (cases "make_report me d1") (auto simp: qs split: sum.splits)
  obtain out2 where r: "run_rates me ses qs1 d2 = Some (Inr (), out2, ds1)" "out = o1 @ rep @ out2"
    using Cons.prems(1) d m by (auto simp: qs)
  from Cons.IH [OF r(1)] Cons.prems(2) show ?case
    by (simp add: qs d m r(2) option.map_comp comp_def split_beta)
qed

text \<open>What the report of a session says, in terms of the configuration that the program started with.\<close>

definition session_report :: "dns_sender \<Rightarrow> session_env \<Rightarrow> int \<Rightarrow> results \<Rightarrow> bool" where
  "session_report ds env q r \<longleftrightarrow>
     sent_by_threads ds env q r \<and> total_sends r \<le> session_packets q ds \<and>
     (session_unbroken env q ds \<longrightarrow> total_sends r = session_packets q ds) \<and>
     r_counter_received r = of_nat (length (if ignoreResponses ds then []
       else answers (addr (ds_TargetIP ds)) (nat (TargetPort ds)) (heard (ses_receiver env))))"

lemma reports_session_report:
  assumes "same_setup ds ds1" and "Receiver ds1 = None \<longleftrightarrow> ignoreResponses ds"
  shows "reports_session ds1 env q r \<longleftrightarrow> session_report ds env q r"
  unfolding reports_session_def session_report_def setup_plan [OF assms(1)] setup_answered [OF assms] by blast

text \<open>
  C13. Interrupting the program. For a configuration with which the program can send (an IPv4 target
  other than 255.255.255.255, a loaded payload, \<open>-s pcap\<close> only with a capture, a source
  network with a prefix of at least one bit), a running time of 2 to 2147483 seconds, at most
  \<open>2 ^ 20\<close> threads, rates above their number and below \<open>2 ^ 31\<close>, a
  receiver, an interface and threads that can be created, loops that the clock or the stop flag lets
  end, frames of 46 to 4096 bytes, samples of the system that can be taken, and a CSV file that can
  be written: when the stop flag is set during a session, the sessions before it have been reported
  as usual; the interrupted session is reported with what it had sent, that is, its counts of
  packets, bytes, errors and empty sends are the sums over its threads as they were when their loops
  had ended, and with the answers that were received; the remaining rates are skipped; and the
  program still ends with 0.
\<close>

theorem program_interrupted:
  assumes "config_ok ds" and "threadpool ds = []" and "Receiver ds = None" and "1 \<le> TargetPort ds" and "TargetPort ds \<le> 65535"
    and "\<forall>i. \<exists>th. me_thread me i = Inr th \<and> fresh_thread th"
    and "me_receiver me = Inr t" and "me_interface me = Inr ()" and "length (rbuffer (rt_socket t)) = 4096"
    and "length (rcodes (rt_counter t)) = 16" and "2 \<le> Runtime ds"
    and "me_sessions me = ses @ env # rest" and "rates ds = qs @ q # qs'"
    and "list_all2 (\<lambda>env q. rate_ok (toInt (me_lib me) q) ds \<and> session_ends env (toInt (me_lib me) q) ds \<and> \<not> ses_stop env) ses qs"
    and "rate_ok (toInt (me_lib me) q) ds" and "session_ends env (toInt (me_lib me) q) ds" and "ses_stop env"
    and "\<forall>c l. me_full me c l = None"
  shows "\<exists>out ds'. run_program me ds = Some (Inr 0, out, ds') \<and> length (reports out) = Suc (length qs) \<and>
    (\<forall>k<length qs. session_report ds (ses ! k) (toInt (me_lib me) (qs ! k)) (reports out ! k)) \<and>
    session_report ds env (toInt (me_lib me) q) (last (reports out))"
proof -
  let ?q = "toInt (me_lib me) q"
  obtain ds0 ds1 where p: "prepare_receiver me ds = Inr (0, [], ds0) \<and> prepareThreads (me_thread me) ds0 = (Inr (), ds1)" "session_ready ds1"
      "same_setup ds ds1" "Receiver ds1 = None \<longleftrightarrow> ignoreResponses ds"
    using prepare_ready [OF assms(1,2,6-10,4,5,3)] by metis
  note eq = setup_plan [OF p(3)]
  have rt: "2 \<le> Runtime ds1" "rates ds1 = rates ds" using p(3) assms(11) by (simp_all add: same_setup_def)
  have len: "length ses = length qs" using assms(14) by (rule list_all2_lengthD)
  obtain out ds2 where r: "run_rates me ses qs ds1 = Some (Inr (), out, ds2)" "session_ready ds2" "same_setup ds1 ds2"
      "Receiver ds2 = None \<longleftrightarrow> Receiver ds1 = None"
      "list_all2 (\<lambda>(env, q) r. reports_session ds1 env (toInt (me_lib me) q) r) (zip ses qs) (reports out)"
    using run_rates_ok [OF p(2) rt(1) assms(18), of ses qs] assms(14) by (auto simp: eq)
  have n: "length (reports out) = length qs" using list_all2_lengthD [OF r(5)] by (simp add: len)
  have each: "session_report ds (ses ! k) (toInt (me_lib me) (qs ! k)) (reports out ! k)" if "k < length qs" for k
    using list_all2_nthD [OF r(5), of k] that len by (simp add: reports_session_report [OF p(3,4)])
  note tr = setup_transfer [OF r(3,4)]
  obtain out2 ds3 where s: "ds_run env ?q ds2 = Some (Inl OperationInterruptedException, out2, ds3)"
      "reports_session ds1 env ?q (getResults ds3)"
    using ds_run_ok [OF r(2), of ?q env] assms(15-17) by (auto simp: tr eq reports_session_def)
  have run: "run_rates me (me_sessions me) (rates ds1) ds1 = Some (Inl OperationInterruptedException, out @ out2, ds3)"
    unfolding assms(12,13) rt(2) run_rates_append [OF r(1) len] by (simp add: s(1))
  have "Runtime ds3 = Runtime ds"
    using ds_run_frame [OF s(1)] r(3) p(3) by (simp add: same_setup_def)
  then obtain rep ds' where m: "make_report me ds3 = (Inr (), rep, ds')"
    using make_report_ok [of ds3 me] assms(11,15,18) by (auto simp: rate_ok_def)
  have "run_program me ds = Some (Inr 0, (out @ out2) @ rep, ds')"
    using p(1) run m by (simp add: run_program_def handle_def)
  moreover have "reports ((out @ out2) @ rep) = reports out @ [getResults ds3]"
    using make_report_eq(1) [OF m] ds_run_reports [OF s(1)] by simp
  ultimately show ?thesis
    using s(2) n each
    by (intro exI [of _ "(out @ out2) @ rep"] exI [of _ ds'])
       (simp add: nth_append reports_session_report [OF p(3,4)] del: append_assoc)
qed

theorem program_interrupted_witness:
  "\<exists>out ds'. run_program (demo_main True) demo_config = Some (Inr 0, out, ds') \<and> length (reports out) = 1 \<and>
     total_sends (last (reports out)) = 4 \<and> sent_by_threads demo_config (demo_session True) 2 (last (reports out)) \<and>
     r_counter_received (last (reports out)) = 1"
proof -
  have l: "me_sessions (demo_main True) = [] @ demo_session True # []" "rates demo_config = [] @ ''2'' # []"
    by (simp_all add: demo_main_ok demo_config_ok)
  from program_interrupted [OF demo_config_ok(1-3) _ _ _ demo_main_ok(2,3,7,8) _ l] show ?thesis
    by (auto simp: demo_config_ok demo_main_ok demo_session_ok demo_fresh_ok session_report_def)
qed

end
