(* ===== verification/Program.thy ===== *)
theory Program
  imports Session_Plan
begin

text \<open>
  \<open>DNSSender::main\<close> from the command line to the end of the program: what the parameters and the files
  establish is what the sessions rely on.
\<close>

subsection \<open>From the command line to a configuration\<close>

text \<open>
  What is used of name resolution: \<open>GetHostByName\<close> is called with \<open>af_inet\<close> and returns IPv4 addresses.
\<close>

definition hosts_ipv4 :: "arg_lib \<Rightarrow> bool" where
  "hosts_ipv4 lib \<longleftrightarrow> (\<forall>name ips ip. GetHostByName lib name = Inr ips \<and> ip \<in> set ips \<longrightarrow> family ip = IPv4)"

lemma openFiles_frame:
  assumes "openFiles csv full io ql ds = Inr (0, out, ds')"
  shows "same_setup ds ds'" and "threadpool ds' = threadpool ds" and "Receiver ds' = Receiver ds"
    and "Timeslices ds' = Timeslices ds" and "openQueryFile io ql (QueryFilename ds) (payload ds) = Inr (payload ds')"
  using assms
  by (auto simp: openFiles_def openCSVFile_def append_csv_def Let_def same_setup_def split: sum.splits option.splits if_splits)

text \<open>The configuration that an accepted command line and the files it names give.\<close>

lemma main_configures:
  assumes "getParameter lib (DNSSender_new noip nonet st) = Some (0, out1, ds1)" and "openFiles csv full io ql ds1 = Inr (0, out2, ds)"
    and "hosts_ipv4 lib" and "mkquery_ok ql" and "addr (ds_TargetIP ds) \<noteq> -1"
    and "spoofFromPcap ds \<longrightarrow> payloadIsPcap (payload ds)"
    and "ds_spoofingEnabled ds \<and> \<not> spoofFromPcap ds \<longrightarrow> prefixlen (ds_SourceNet ds) \<noteq> 0"
  shows "config_ok ds" and "threadpool ds = []" and "Receiver ds = None" and "1 \<le> TargetPort ds" and "TargetPort ds \<le> 65535"
proof -
  let ?new = "DNSSender_new noip nonet st"
  obtain a b where t: "getTarget lib (?new\<lparr>ignoreResponses := HaveArgv lib ''--ignore'',
        InterfaceName := (if HaveArgv lib ''-e'' then GetArgv lib ''-e'' else InterfaceName ?new)\<rparr>) = (Inr (), a)"
      and s: "getSource lib a = (Inr (), b)" and o: "getOptions lib b = Some (0, out1, ds1)"
    using getParameter_steps [OF assms(1)] by blast
  note g = getTarget_ok [OF t] getSource_ok [OF s] getOptions_ok [OF o] and f = openFiles_frame [OF assms(2)]
  have obj: "same_objects ?new ds1" using g(1,2,3) by (simp add: same_objects_def)
  then have pf: "payload ds1 = PayloadFile_new" and "Timeslices ds = 1" "threadpool ds1 = []" "Receiver ds1 = None"
    using f(4) by (simp_all add: same_objects_def DNSSender_new_def)
  moreover obtain ips where "GetHostByName lib (split_colon lib (GetArgv lib ''-z'') ! 0) = Inr (ds_TargetIP a # ips)"
    using g(1) by blast
  then have "family (ds_TargetIP a) = IPv4" using assms(3) unfolding hosts_ipv4_def by (meson list.set_intros(1))
  then have "family (ds_TargetIP ds) = IPv4" using g(2) g(5) f(1) by (simp add: same_setup_def)
  moreover have "0 \<le> ds_DnssecRate b" "ds_DnssecRate b \<le> 100" using g(1,2) by (simp_all add: DNSSender_new_def)
  then have "0 \<le> ds_DnssecRate ds" "ds_DnssecRate ds \<le> 100" using g(16) f(1) by (simp_all add: same_setup_def)
  ultimately show "config_ok ds" "threadpool ds = []" "Receiver ds = None"
    using openQueryFile_ready [OF assms(4) f(5) [unfolded pf]] assms(5-7) f(2,3) by (simp_all add: config_ok_def)
  show "1 \<le> TargetPort ds" "TargetPort ds \<le> 65535" using g(1,2) g(4) f(1) by (simp_all add: same_setup_def)
qed

lemma ds_main_run:
  assumes "\<not> HaveArgv (me_lib me) ''-h''" and "\<not> HaveArgv (me_lib me) ''--help''" and "2 \<le> me_argc me"
    and "getParameter (me_lib me) ds0 = Some (0, out1, ds1)"
    and "openFiles (me_csv me) (me_full me) (me_io me) (me_ql me) ds1 = Inr (0, out2, ds)"
  shows "ds_main me ds0 = run_program me ds"
  using assms by (simp add: ds_main_def)

subsection \<open>The whole program\<close>

text \<open>
  \<open>src/src/main.cpp\<close>: the function \<open>main\<close> constructs a \<open>DNSSender\<close> and calls its \<open>main\<close>. The options of the
  resolver that it sets are part of \<open>res_mkquery\<close>, a parameter.
\<close>

definition program_main ::
  "main_env \<Rightarrow> ip_address \<Rightarrow> ip_network \<Rightarrow> system_stat \<Rightarrow> (int result \<times> printed list \<times> dns_sender) option" where
  "program_main me noip nonet st = ds_main me (DNSSender_new noip nonet st)"


text \<open>
  A command line for the witnesses: a source address, a target, two seconds, two queries per second, a
  payload file and a CSV file.
\<close>

definition demo_line :: arg_lib where
  "demo_line = demo_args\<lparr>HaveArgv := (\<lambda>s. s = ''-q'' \<or> s = ''-z''),
     GetArgv := (\<lambda>s. if s = ''-l'' \<or> s = ''-r'' then ''2'' else if s = ''-p'' then ''queries.txt''
       else if s = ''-c'' then ''out.csv'' else []),
     toInt := (\<lambda>s. if s = ''2'' then 2 else 0), match_range := (\<lambda>_. None),
     GetHostByName := (\<lambda>_. Inr [\<lparr>family = IPv4, addr = 0x0100a8c0\<rparr>])\<rparr>"

definition demo_call :: main_env where
  "demo_call = (demo_main False)\<lparr>me_lib := demo_line\<rparr>"

definition demo_new :: dns_sender where
  "demo_new = DNSSender_new \<lparr>family = IPv4, addr = 0\<rparr> \<lparr>net_first = \<lparr>family = IPv4, addr = 0\<rparr>, prefixlen = 0\<rparr> demo_stat"

lemma demo_open: "openQueryFile demo_io demo_lib ''queries.txt'' PayloadFile_new = Inr demo_payload"
proof -
  have "fs_open demo_io ''queries.txt'' = Some [1]" "\<not> detectPcap demo_io [1]"
    by (simp_all add: demo_io_def detectPcap_def)
  then show ?thesis
    by (simp add: openQueryFile_def loadAndCompile_eq [OF demo_lib_ok] demo_messages demo_payload_def PayloadFile_new_def)
qed

text \<open>The configuration that it gives: that of the witnesses before, with the names of the files.\<close>

definition demo_files :: dns_sender where
  "demo_files = demo_config\<lparr>ds_SourceIP := \<lparr>family = IPv4, addr = 0x0100a8c0\<rparr>, QueryFilename := ''queries.txt'',
     CSVFileName := ''out.csv'', CSVFile := Some csv_header\<rparr>"

lemma demo_files_ok: "rates demo_files = [''2'']" "Runtime demo_files = 2" "ignoreResponses demo_files = False"
    "TargetPort demo_files = 53" "addr (ds_TargetIP demo_files) = 0x0100a8c0" "spoofFromPcap demo_files = False"
    "ds_spoofingEnabled demo_files = False"
    "rate_ok 2 demo_files" "session_ends (demo_session stop) 2 demo_files"
    "session_unbroken (demo_session stop) 2 demo_files" "session_packets 2 demo_files = 4"
proof -
  show "rates demo_files = [''2'']" "Runtime demo_files = 2" "ignoreResponses demo_files = False"
    "TargetPort demo_files = 53" "addr (ds_TargetIP demo_files) = 0x0100a8c0" "spoofFromPcap demo_files = False"
    "ds_spoofingEnabled demo_files = False"
    by (simp_all add: demo_files_def demo_config_ok) (simp_all add: demo_config_def demo_sender_def DNSSender_new_def)
  show "rate_ok 2 demo_files" "session_ends (demo_session stop) 2 demo_files"
    "session_unbroken (demo_session stop) 2 demo_files" "session_packets 2 demo_files = 4"
    using demo_session_ok(1-4)
    by (simp_all add: demo_files_def rate_ok_def session_ends_def session_unbroken_def session_packets_def thread_plan_def)
qed

lemma demo_call_ok:
  obtains ds1 where "getParameter (me_lib demo_call) demo_new = Some (0, [], ds1)"
    and "openFiles (me_csv demo_call) (me_full demo_call) (me_io demo_call) (me_ql demo_call) ds1 = Inr (0, [], demo_files)"
proof -
  let ?ds = "demo_new\<lparr>TargetPort := 53, ds_TargetIP := \<lparr>family = IPv4, addr = 0x0100a8c0\<rparr>,
     ds_SourceIP := \<lparr>family = IPv4, addr = 0x0100a8c0\<rparr>, Runtime := 2, CSVFileName := ''out.csv'',
     QueryFilename := ''queries.txt'', rates := [''2'']\<rparr>"
  have "getParameter (me_lib demo_call) demo_new = Some (0, [], ?ds)"
    by (simp add: getParameter_def getTarget_def getSource_def getOptions_def getQueryRates_def or_default_def demo_call_def
        demo_line_def demo_args_def demo_new_def DNSSender_new_def)
  moreover have "openFiles (me_csv demo_call) (me_full demo_call) (me_io demo_call) (me_ql demo_call) ?ds = Inr (0, [], demo_files)"
    using demo_open
    by (simp add: openFiles_def openCSVFile_def append_csv_def demo_call_def demo_main_def demo_new_def DNSSender_new_def demo_files_def
        demo_config_def demo_sender_def)
  ultimately show ?thesis by (rule that)
qed

lemma demo_call_env: "me_thread demo_call = demo_fresh" "me_receiver demo_call = Inr demo_receiver"
    "me_interface demo_call = Inr ()" "me_sessions demo_call = [demo_session False]" "toInt (me_lib demo_call) ''2'' = 2"
    "\<not> HaveArgv (me_lib demo_call) ''-h''" "\<not> HaveArgv (me_lib demo_call) ''--help''" "2 \<le> me_argc demo_call"
    "hosts_ipv4 (me_lib demo_call)" "mkquery_ok (me_ql demo_call)" "\<forall>c l. me_full demo_call c l = None"
  using demo_lib_ok by (simp_all add: demo_call_def demo_main_def demo_line_def hosts_ipv4_def)

lemmas demo_call_simps = demo_call_env demo_files_ok demo_main_ok demo_session_ok(5,6) demo_fresh_ok


lemma demo_call_runs: "\<exists>out ds'. ds_main demo_call demo_new = Some (Inr 0, out, ds') \<and> length (reports out) = 1"
proof (rule demo_call_ok)
  fix ds1
  assume a: "getParameter (me_lib demo_call) demo_new = Some (0, [], ds1)"
    "openFiles (me_csv demo_call) (me_full demo_call) (me_io demo_call) (me_ql demo_call) ds1 = Inr (0, [], demo_files)"
  note c = main_configures [OF a [unfolded demo_new_def] demo_call_env(9,10)]
  show ?thesis
    unfolding ds_main_run [OF demo_call_env(6-8) a]
    using run_program_completes [OF c _ demo_call_env(2,3) demo_main_ok(7,8)]
    by (auto simp: demo_call_simps Let_def)
qed

subsection \<open>Errors\<close>

text \<open>What tells the user why the program ended: an error message, or an exception that was printed.\<close>

definition explains :: "printed \<Rightarrow> bool" where
  "explains p = (case p of Exception e \<Rightarrow> True | Lines (l # ls) \<Rightarrow> prefix ''ERROR: '' l | _ \<Rightarrow> False)"

lemma refuse_eq:
  "refuse lib msg ds = (rc, out, ds') \<longleftrightarrow> rc = 1 \<and> out = [Lines [msg, []], ds_help (PACKAGE_VERSION lib)] \<and> ds' = ds"
  by (auto simp: refuse_def)

lemma getOptions_refuses:
  assumes "getOptions lib ds = Some (rc, out, ds')" and "rc \<noteq> 0"
  shows "rc = 1 \<and> explains (hd out) \<and> out \<noteq> [] \<and> last out = ds_help (PACKAGE_VERSION lib) \<and> same_objects ds ds'"
  using assms by (auto simp: getOptions_def refuse_eq Let_def explains_def same_objects_def split: if_splits)

lemma getParameter_refuses:
  assumes "getParameter lib ds = Some (rc, out, ds')" and "rc \<noteq> 0"
  shows "rc = 1 \<and> explains (hd out) \<and> out \<noteq> [] \<and> last out = ds_help (PACKAGE_VERSION lib) \<and> same_objects ds ds'"
proof (cases "HaveArgv lib ''-q'' = HaveArgv lib ''-s''")
  case True
  then show ?thesis
    using assms by (auto simp: getParameter_def refuse_eq explains_def same_objects_def split: if_splits)
next
  case False
  let ?ds = "ds\<lparr>ignoreResponses := HaveArgv lib ''--ignore'',
    InterfaceName := (if HaveArgv lib ''-e'' then GetArgv lib ''-e'' else InterfaceName ds)\<rparr>"
  obtain r1 ds1 where t: "getTarget lib ?ds = (r1, ds1)" by fastforce
  obtain r2 ds2 where s: "getSource lib ds1 = (r2, ds2)" by fastforce
  have o1: "same_objects ds ds1" and o2: "same_objects ds1 ds2"
    using addresses_objects(1) [OF t] addresses_objects(2) [OF s] by (simp_all add: same_objects_def)
  have g: "(case (case (r1, ds1) of (Inl e, ds) \<Rightarrow> (Inl e, ds) | (Inr _, ds) \<Rightarrow> getSource lib ds) of
      (Inl e, ds) \<Rightarrow> Some (1, [Lines [''ERROR: missing or invalid parameter''], Exception e, Lines [[]],
        ds_help (PACKAGE_VERSION lib)], ds)
    | (Inr _, ds) \<Rightarrow> getOptions lib ds) = Some (rc, out, ds')"
    using assms(1) False unfolding t [symmetric] getParameter_def Let_def by auto
  show ?thesis
  proof (cases r1)
    case (Inl e)
    then show ?thesis using g o1 by (auto simp: explains_def)
  next
    case (Inr u)
    then show ?thesis
      using g s o1 o2 getOptions_refuses [of lib ds2 rc out ds'] assms(2)
      by (cases r2) (auto simp: explains_def same_objects_def)
  qed
qed

text \<open>
  C16. A command line that is refused: the program says what is wrong, shows its usage and ends with 1; it has
  opened no file, created no thread and no receiver.
\<close>

theorem refused_call:
  assumes "\<not> HaveArgv (me_lib me) ''-h''" and "\<not> HaveArgv (me_lib me) ''--help''" and "2 \<le> me_argc me"
    and "getParameter (me_lib me) (DNSSender_new noip nonet st) = Some (rc, out, ds)" and "rc \<noteq> 0"
  shows "program_main me noip nonet st = Some (Inr 1, out, ds) \<and> explains (hd out) \<and>
    last out = ds_help (PACKAGE_VERSION (me_lib me)) \<and> CSVFile ds = None \<and> threadpool ds = [] \<and> Receiver ds = None \<and>
    payload ds = PayloadFile_new"
  using getParameter_refuses [OF assms(4,5)] assms
  by (simp add: program_main_def ds_main_def same_objects_def DNSSender_new_def)

text \<open>A command line for the witnesses that does not name a target.\<close>

definition demo_refused :: main_env where
  "demo_refused = demo_call\<lparr>me_lib := demo_line\<lparr>HaveArgv := (\<lambda>s. s = ''-q'')\<rparr>\<rparr>"

lemma demo_refused_ok: "\<not> HaveArgv (me_lib demo_refused) ''-h''" "\<not> HaveArgv (me_lib demo_refused) ''--help''"
    "2 \<le> me_argc demo_refused" "\<exists>out ds. getParameter (me_lib demo_refused) (DNSSender_new noip nonet st) = Some (1, out, ds)"
  using demo_call_env(8) by (simp_all add: demo_refused_def getParameter_def getTarget_def)

theorem refused_call_witness:
  "\<exists>out ds. program_main demo_refused \<lparr>family = IPv4, addr = 0\<rparr> \<lparr>net_first = \<lparr>family = IPv4, addr = 0\<rparr>, prefixlen = 0\<rparr> demo_stat =
       Some (Inr 1, out, ds) \<and> explains (hd out) \<and> CSVFile ds = None"
proof -
  obtain out ds where "getParameter (me_lib demo_refused) (DNSSender_new \<lparr>family = IPv4, addr = 0\<rparr>
      \<lparr>net_first = \<lparr>family = IPv4, addr = 0\<rparr>, prefixlen = 0\<rparr> demo_stat) = Some (1, out, ds)"
    using demo_refused_ok(4) by blast
  from refused_call [OF demo_refused_ok(1-3) this] show ?thesis by auto
qed

lemma openFiles_fails: "openFiles csv full io ql ds = Inr (rc, out, ds') \<Longrightarrow> rc \<noteq> 0 \<Longrightarrow> rc = 1 \<and> (\<exists>p\<in>set out. explains p)"
  by (auto simp: openFiles_def explains_def split: sum.splits prod.splits if_splits)

lemma handle_explains: "handle me e out ds = (Inr rc, out', ds') \<Longrightarrow> rc \<noteq> 0 \<Longrightarrow> rc = 1 \<and> (\<exists>p\<in>set out'. explains p)"
  by (auto simp: handle_def explains_def split: if_splits sum.splits prod.splits)

lemma prepare_receiver_fails:
  "prepare_receiver me ds = Inr (rc, out, ds') \<Longrightarrow> rc \<noteq> 0 \<Longrightarrow> rc = 1 \<and> (\<exists>p\<in>set out. explains p)"
  by (auto simp: prepare_receiver_def explains_def Let_def split: if_splits sum.splits)

lemma run_program_explains:
  assumes "run_program me ds = Some (Inr rc, out, ds')" and "rc \<noteq> 0"
  shows "rc = 1 \<and> (\<exists>p\<in>set out. explains p)"
proof -
  have h: "rc = 1 \<and> (\<exists>p\<in>set out. explains p)" if "Some (handle me e o1 d) = Some (Inr rc, out, ds')" for e o1 d
    using that handle_explains [of me e o1 d rc out ds'] assms(2) by simp
  show ?thesis
  proof (cases "prepare_receiver me ds")
    case (Inl e)
    then show ?thesis using assms(1) h by (simp add: run_program_def)
  next
    case (Inr x)
    obtain rc0 out0 ds1 where x: "prepare_receiver me ds = Inr (rc0, out0, ds1)" using Inr by (cases x) auto
    obtain r2 ds2 where t: "prepareThreads (me_thread me) ds1 = (r2, ds2)" by fastforce
    show ?thesis
    proof (cases "rc0 = 0")
      case True
      show ?thesis
        using assms x t True h
        by (cases r2) (auto simp: run_program_def split: option.splits sum.splits prod.splits)
    qed (use assms x prepare_receiver_fails [OF x] in \<open>auto simp: run_program_def\<close>)
  qed
qed

text \<open>
  C15. The exit status: whenever the program returns, it returns 0 or 1, and with 1 it has told why: its
  output contains an error message or the exception that ended it. It never fails silently.
\<close>

theorem failure_explained:
  assumes "program_main me noip nonet st = Some (Inr rc, out, ds)"
  shows "rc = 0 \<or> rc = 1 \<and> (\<exists>p\<in>set out. explains p)"
proof (cases "HaveArgv (me_lib me) ''-h'' \<or> HaveArgv (me_lib me) ''--help'' \<or> me_argc me < 2")
  case True
  then show ?thesis using assms by (auto simp: program_main_def ds_main_def)
next
  case False
  let ?new = "DNSSender_new noip nonet st"
  obtain rc1 out1 ds1 where p: "getParameter (me_lib me) ?new = Some (rc1, out1, ds1)"
    using assms False by (cases "getParameter (me_lib me) ?new") (auto simp: program_main_def ds_main_def)
  show ?thesis
  proof (cases "rc1 = 0")
    case True
    then obtain rc2 out2 ds2 where f: "openFiles (me_csv me) (me_full me) (me_io me) (me_ql me) ds1 = Inr (rc2, out2, ds2)"
      using assms False p
      by (cases "openFiles (me_csv me) (me_full me) (me_io me) (me_ql me) ds1") (auto simp: program_main_def ds_main_def)
    show ?thesis
      using assms False p True f openFiles_fails [OF f] run_program_explains [of me ds2 rc out ds]
      by (cases "rc2 = 0") (auto simp: program_main_def ds_main_def)
  next
    case nz: False
    note g = getParameter_refuses [OF p nz]
    have "rc = 1" "out = out1" using assms False p nz by (simp_all add: program_main_def ds_main_def)
    then show ?thesis using g hd_in_set [of out1] by blast
  qed
qed

theorem failure_explained_witness:
  "\<exists>out ds. program_main demo_refused \<lparr>family = IPv4, addr = 0\<rparr> \<lparr>net_first = \<lparr>family = IPv4, addr = 0\<rparr>, prefixlen = 0\<rparr> demo_stat =
       Some (Inr 1, out, ds) \<and> (\<exists>p\<in>set out. explains p)"
proof -
  obtain out ds where "getParameter (me_lib demo_refused) (DNSSender_new \<lparr>family = IPv4, addr = 0\<rparr>
      \<lparr>net_first = \<lparr>family = IPv4, addr = 0\<rparr>, prefixlen = 0\<rparr> demo_stat) = Some (1, out, ds)"
    using demo_refused_ok(4) by blast
  then have r: "program_main demo_refused \<lparr>family = IPv4, addr = 0\<rparr> \<lparr>net_first = \<lparr>family = IPv4, addr = 0\<rparr>, prefixlen = 0\<rparr> demo_stat =
      Some (Inr 1, out, ds)"
    using demo_refused_ok(1-3) by (simp add: program_main_def ds_main_def)
  from r failure_explained [OF r] show ?thesis by simp
qed

text \<open>
  A full disk: a line that cannot be written after a session ends the program with 1, but after an
  interrupt the exception is thrown inside the handler and is caught by none.
\<close>

lemma interrupt_write_failure:
  assumes "presentResults (me_strerror me) (me_nan me) (getResults ds) ds = Inr (text, ds1)"
    and "CSVFile ds1 = Some c" and "csv_line (me_nan me) (Runtime ds1) (getResults ds) = Inr l" and "me_full me c l = Some n"
  shows "fst (handle me OperationInterruptedException out ds) = Inl UncaughtException"
    and "fst (make_report me ds) = Inl Ppl7Exception" and "fst (handle me Ppl7Exception out ds) = Inr 1"
  using assms by (simp_all add: handle_def make_report_def saveResultsToCsv_def append_csv_def uncaught_def)

subsection \<open>The CSV file\<close>

text \<open>
  C14. The CSV file of a run of the program, whatever its outcome: the file keeps its content, or gets the
  header if it was empty, and grows by the lines of the reported sessions, in the order of the reports
  and with the results that were reported. When the program ends with 0, also after an interrupt, it has
  exactly one line per report; otherwise at most the line of the last report is missing or cut off.
\<close>

theorem main_csv_lines:
  assumes "ds_main me ds = Some (r, out, ds')" and "\<not> HaveArgv (me_lib me) ''-h''"
    and "\<not> HaveArgv (me_lib me) ''--help''" and "2 \<le> me_argc me"
    and "getParameter (me_lib me) ds = Some (0, out1, ds1)"
    and "openFiles (me_csv me) (me_full me) (me_io me) (me_ql me) ds1 = Inr (0, out2, ds2)"
    and "GetArgv (me_lib me) ''-c'' \<noteq> []" and "me_csv me (GetArgv (me_lib me) ''-c'') = Inr content"
  shows "\<exists>ls part. CSVFile ds' = Some ((if content = [] then csv_header else content) @ concat ls @ part) \<and>
    (\<forall>k<length ls. csv_line (me_nan me) (Runtime ds') (reports out ! k) = Inr (ls ! k)) \<and>
    length ls \<le> length (reports out) \<and> length (reports out) \<le> Suc (length ls) \<and>
    (r = Inr 0 \<longrightarrow> length (reports out) = length ls \<and> part = []) \<and>
    (part \<noteq> [] \<longrightarrow> (\<exists>l. csv_line (me_nan me) (Runtime ds') (last (reports out)) = Inr l \<and> prefix part l))"
proof -
  let ?c = "if content = [] then csv_header else content"
  have "CSVFileName ds1 = GetArgv (me_lib me) ''-c''"
    using getParameter_steps [OF assms(5)] getOptions_ok(12) by metis
  then have "CSVFile ds2 = Some ?c" using openFiles_csv [OF assms(6)] assms(7,8) by simp
  moreover have "run_program me ds2 = Some (r, out, ds')" using assms(1) ds_main_run [OF assms(2-6)] by simp
  ultimately obtain c' where c: "CSVFile ds' = Some c'" "csv_grown (r = Inr 0) (me_nan me) (Runtime ds') ?c c' (reports out)"
    using run_program_csv by metis
  then obtain ls part where g: "c' = ?c @ concat ls @ part"
      "list_all2 (\<lambda>x l. csv_line (me_nan me) (Runtime ds') x = Inr l) (take (length ls) (reports out)) ls"
      "length (reports out) \<le> Suc (length ls)" "r = Inr 0 \<longrightarrow> length (reports out) = length ls"
      "part \<noteq> [] \<longrightarrow> length (reports out) = Suc (length ls) \<and>
        (\<exists>l. csv_line (me_nan me) (Runtime ds') (last (reports out)) = Inr l \<and> prefix part l)"
    unfolding csv_grown_def by blast
  have "length ls \<le> length (reports out)" using list_all2_lengthD [OF g(2)] by simp
  moreover have "\<forall>k<length ls. csv_line (me_nan me) (Runtime ds') (reports out ! k) = Inr (ls ! k)"
    using list_all2_nthD2 [OF g(2)] by simp
  moreover have "r = Inr 0 \<longrightarrow> part = []" using g(4,5) by auto
  ultimately show ?thesis using c(1) g by (intro exI [of _ ls] exI [of _ part]) simp
qed

theorem main_csv_lines_witness:
  "\<exists>out ds' l. ds_main demo_call demo_new = Some (Inr 0, out, ds') \<and> CSVFile ds' = Some (csv_header @ l) \<and>
     csv_line ''nan'' (Runtime ds') (hd (reports out)) = Inr l"
proof (rule demo_call_ok)
  fix ds1
  assume a: "getParameter (me_lib demo_call) demo_new = Some (0, [], ds1)"
    "openFiles (me_csv demo_call) (me_full demo_call) (me_io demo_call) (me_ql demo_call) ds1 = Inr (0, [], demo_files)"
  obtain out ds' where r: "ds_main demo_call demo_new = Some (Inr 0, out, ds')" "length (reports out) = 1"
    using demo_call_runs by blast
  have c: "GetArgv (me_lib demo_call) ''-c'' \<noteq> []" "me_csv demo_call (GetArgv (me_lib demo_call) ''-c'') = Inr []" "me_nan demo_call = ''nan''"
    by (simp_all add: demo_call_def demo_line_def demo_main_def)
  obtain ls part where "CSVFile ds' = Some ((if [] = ([] :: string) then csv_header else []) @ concat ls @ part) \<and>
      (\<forall>k<length ls. csv_line ''nan'' (Runtime ds') (reports out ! k) = Inr (ls ! k)) \<and>
      (Inr 0 = (Inr 0 :: int result) \<longrightarrow> length (reports out) = length ls \<and> part = [])"
    using main_csv_lines [OF r(1) demo_call_env(6-8) a c(1,2)] unfolding c(3) by blast
  moreover from this have "length ls = 1" using r(2) by simp
  ultimately have g: "CSVFile ds' = Some (csv_header @ concat ls @ part)" "part = []" "length ls = 1"
      "csv_line ''nan'' (Runtime ds') (reports out ! 0) = Inr (ls ! 0)"
    by simp_all
  obtain l where "ls = [l]" using g(3) by (auto simp: length_Suc_conv)
  moreover have "reports out \<noteq> []" using r(2) by auto
  ultimately show ?thesis using r(1) g by (auto simp: hd_conv_nth)
qed

end
