(* ===== verification/Thread_Pool.thy ===== *)
theory Thread_Pool
  imports Sender_Run
begin

text \<open>
  The sender threads together. They run concurrently and share one object, the payload, which they
  touch in \<open>PayloadFile::getQuery\<close> (\<open>src/src/payload_file.cpp\<close>) between \<open>QueryMutex.lock()\<close> and
  \<open>QueryMutex.unlock()\<close>; everything else that \<open>DNSSenderThread::sendPacket\<close> does works on members of
  the thread. The theory models \<open>getQuery\<close> statement by statement, with the mutex and a program point
  for every thread, and all interleavings of these statements. It shows mutual exclusion, that an
  interleaving is equivalent to a sequence of whole calls of \<open>sendPacket\<close>, that the queries are handed
  out in turn to all threads together, and that no thread is ever stuck. The proofs go through an
  abstract machine in which a draw is one step.
\<close>

subsection \<open>The threads and the mutex\<close>

text \<open>
  Where a thread is in \<open>sendPacket\<close>: not in a call of \<open>getQuery\<close> and without a query; behind \<open>lock\<close>;
  behind the binding of \<open>bap\<close>; behind \<open>++it\<close>; behind the test for the end, with its outcome; behind
  the \<open>if\<close>; behind \<open>unlock\<close>, with the query that was returned and is not yet sent.
\<close>

datatype thread_pc =
  Outside | Locked | Bound bytes | Advanced bytes | Tested bool bytes | Settled bytes | Drawn bytes

record conc =
  conc_threads :: "sender_thread list"
  conc_pc :: "nat \<Rightarrow> thread_pc"
  QueryMutex :: "nat option"
  conc_payload :: payload_file

datatype conc_event =
  Lock nat | Read nat bytes | Advance nat | Test nat | Reset nat | Unlock nat | Transmit nat send_env

text \<open>
  One statement of one thread. A thread that does not get the mutex waits, so it has no step; the step
  \<open>Read\<close> dereferences the iterator and needs it to point at an element; the last step is the rest of
  \<open>sendPacket\<close> behind the call of \<open>getQuery\<close>.
\<close>

inductive conc_step :: "conc \<Rightarrow> conc_event \<Rightarrow> conc \<Rightarrow> bool" where
  lock: "i < length (conc_threads s) \<Longrightarrow> conc_pc s i = Outside \<Longrightarrow> QueryMutex s = None \<Longrightarrow>
    conc_step s (Lock i) (s\<lparr>conc_pc := (conc_pc s)(i := Locked), QueryMutex := Some i\<rparr>)"
| read: "conc_pc s i = Locked \<Longrightarrow> it_pos (conc_payload s) < length (querycache (conc_payload s)) \<Longrightarrow>
    q = querycache (conc_payload s) ! it_pos (conc_payload s) \<Longrightarrow>
    conc_step s (Read i q) (s\<lparr>conc_pc := (conc_pc s)(i := Bound q)\<rparr>)"
| advance: "conc_pc s i = Bound q \<Longrightarrow>
    conc_step s (Advance i) (s\<lparr>conc_pc := (conc_pc s)(i := Advanced q),
      conc_payload := (conc_payload s)\<lparr>it_pos := it_pos (conc_payload s) + 1\<rparr>\<rparr>)"
| test: "conc_pc s i = Advanced q \<Longrightarrow> at_end = (it_pos (conc_payload s) = length (querycache (conc_payload s))) \<Longrightarrow>
    conc_step s (Test i) (s\<lparr>conc_pc := (conc_pc s)(i := Tested at_end q)\<rparr>)"
| reset: "conc_pc s i = Tested at_end q \<Longrightarrow> pf = (if at_end then (conc_payload s)\<lparr>it_pos := 0\<rparr> else conc_payload s) \<Longrightarrow>
    conc_step s (Reset i) (s\<lparr>conc_pc := (conc_pc s)(i := Settled q), conc_payload := pf\<rparr>)"
| unlock: "conc_pc s i = Settled q \<Longrightarrow>
    conc_step s (Unlock i) (s\<lparr>conc_pc := (conc_pc s)(i := Drawn q), QueryMutex := None\<rparr>)"
| transmit: "conc_pc s i = Drawn q \<Longrightarrow> send_query env q (conc_threads s ! i) = (Inr (), th) \<Longrightarrow>
    conc_step s (Transmit i env) (s\<lparr>conc_pc := (conc_pc s)(i := Outside), conc_threads := (conc_threads s)[i := th]\<rparr>)"

inductive_cases conc_stepE: "conc_step s e s'"

inductive conc_steps :: "conc \<Rightarrow> conc_event list \<Rightarrow> conc \<Rightarrow> bool" where
  conc_none: "conc_steps s [] s"
| conc_more: "conc_step s e s' \<Longrightarrow> conc_steps s' es s'' \<Longrightarrow> conc_steps s (e # es) s''"

definition idle_conc :: "sender_thread list \<Rightarrow> payload_file \<Rightarrow> conc" where
  "idle_conc ths pf = \<lparr>conc_threads = ths, conc_pc = (\<lambda>_. Outside), QueryMutex = None, conc_payload = pf\<rparr>"

text \<open>The program points between \<open>lock\<close> and \<open>unlock\<close>.\<close>

fun critical :: "thread_pc \<Rightarrow> bool" where
  "critical Outside = False"
| "critical (Drawn q) = False"
| "critical _ = True"

text \<open>The queries that are bound, in their order.\<close>

fun reads :: "conc_event list \<Rightarrow> bytes list" where
  "reads [] = []"
| "reads (Read i q # es) = q # reads es"
| "reads (e # es) = reads es"

subsection \<open>The abstract machine\<close>

text \<open>
  The machine that the mutex implements: a draw is one step, a whole call of \<open>getQuery\<close>. A thread is
  between two packets, or it holds a query that it has drawn and not yet sent.
\<close>

record pool =
  pool_threads :: "sender_thread list"
  pool_pending :: "nat \<rightharpoonup> bytes"
  pool_payload :: payload_file

datatype pool_event = Draw nat | Send nat send_env

inductive pool_step :: "pool \<Rightarrow> pool_event \<Rightarrow> pool \<Rightarrow> bool" where
  draw: "i < length (pool_threads s) \<Longrightarrow> pool_pending s i = None \<Longrightarrow> getQuery (pool_payload s) = Inr (q, pf) \<Longrightarrow>
    pool_step s (Draw i) (s\<lparr>pool_pending := (pool_pending s)(i \<mapsto> q), pool_payload := pf\<rparr>)"
| send: "i < length (pool_threads s) \<Longrightarrow> pool_pending s i = Some q \<Longrightarrow>
    send_query env q (pool_threads s ! i) = (Inr (), th) \<Longrightarrow>
    pool_step s (Send i env) (s\<lparr>pool_pending := (pool_pending s)(i := None), pool_threads := (pool_threads s)[i := th]\<rparr>)"

inductive_cases DrawE [elim!]: "pool_step s (Draw i) s'"
inductive_cases SendE [elim!]: "pool_step s (Send i env) s'"

inductive pool_steps :: "pool \<Rightarrow> pool_event list \<Rightarrow> pool \<Rightarrow> bool" where
  none: "pool_steps s [] s"
| more: "pool_step s e s' \<Longrightarrow> pool_steps s' es s'' \<Longrightarrow> pool_steps s (e # es) s''"

inductive_cases pool_steps_NilE [elim!]: "pool_steps s [] s'"
inductive_cases pool_steps_ConsE [elim!]: "pool_steps s (e # es) s'"

definition idle_pool :: "sender_thread list \<Rightarrow> payload_file \<Rightarrow> pool" where
  "idle_pool ths pf = \<lparr>pool_threads = ths, pool_pending = Map.empty, pool_payload = pf\<rparr>"

text \<open>The coarse steps: whole calls of \<open>sendPacket\<close>, in the order of a schedule of thread numbers.\<close>

fun pool_run ::
  "(nat \<times> send_env) list \<Rightarrow> sender_thread list \<Rightarrow> payload_file \<Rightarrow>
   (unit result \<times> sender_thread list \<times> payload_file) option" where
  "pool_run [] ths pf = Some (Inr (), ths, pf)"
| "pool_run ((i, env) # sched) ths pf =
     (if i < length ths then
        case sendPacket [env] (ths ! i) pf of
          Some (Inr _, th, pf) \<Rightarrow> pool_run sched (ths[i := th]) pf
        | Some (Inl e, th, pf) \<Rightarrow> Some (Inl e, ths[i := th], pf)
        | None \<Rightarrow> None
      else None)"

subsection \<open>Whole calls are enough\<close>

text \<open>The schedule of an interleaving: the order of the draws, each with the environment of its send.\<close>

fun next_env :: "nat \<Rightarrow> pool_event list \<Rightarrow> send_env option" where
  "next_env i [] = None"
| "next_env i (Draw j # es) = next_env i es"
| "next_env i (Send j env # es) = (if i = j then Some env else next_env i es)"

fun atomic :: "pool_event list \<Rightarrow> (nat \<times> send_env) list" where
  "atomic [] = []"
| "atomic (Draw i # es) = (case next_env i es of Some env \<Rightarrow> (i, env) # atomic es | None \<Rightarrow> atomic es)"
| "atomic (Send i env # es) = atomic es"

text \<open>A thread that holds a query, as it will be when that query is sent.\<close>

definition completed :: "pool_event list \<Rightarrow> pool \<Rightarrow> nat \<Rightarrow> sender_thread" where
  "completed es s i =
     (case (pool_pending s i, next_env i es) of
        (Some q, Some env) \<Rightarrow> snd (send_query env q (pool_threads s ! i))
      | _ \<Rightarrow> pool_threads s ! i)"

definition completed_threads :: "pool_event list \<Rightarrow> pool \<Rightarrow> sender_thread list" where
  "completed_threads es s = map (completed es s) [0..<length (pool_threads s)]"

lemma completed_threads_idle: "pool_pending s = Map.empty \<Longrightarrow> completed_threads es s = pool_threads s"
  by (rule nth_equalityI) (simp_all add: completed_threads_def completed_def)

lemma pool_step_length: "pool_step s e s' \<Longrightarrow> length (pool_threads s') = length (pool_threads s)"
  by (auto elim!: pool_step.cases)

lemma completed_Draw:
  assumes "pool_step s (Draw i) s'" and "j \<noteq> i"
  shows "completed (Draw i # es) s j = completed es s' j"
  using assms by (auto simp: completed_def split: option.splits)

lemma completed_Send:
  assumes "pool_step s (Send i env) s'" and "j < length (pool_threads s)"
  shows "completed (Send i env # es) s j = completed es s' j"
  using assms by (cases "j = i") (auto simp: completed_def split: option.splits)

lemma pending_is_sent:
  assumes "pool_steps s es s'" and "pool_pending s' = Map.empty" and "pool_pending s i = Some q"
  shows "\<exists>env th. next_env i es = Some env \<and> send_query env q (pool_threads s ! i) = (Inr (), th)"
  using assms
proof (induction rule: pool_steps.induct)
  case (more s e s' es s'')
  show ?case
  proof (cases e)
    case (Draw j)
    with more.hyps(1) more.prems(2) have "pool_pending s' i = Some q" "pool_threads s' = pool_threads s"
      by (auto split: if_splits)
    then show ?thesis using more.IH more.prems(1) Draw by simp
  next
    case (Send j env)
    show ?thesis
    proof (cases "j = i")
      case True
      then show ?thesis using more.hyps(1) more.prems(2) Send by auto
    next
      case False
      with more.hyps(1) more.prems(2) Send have "pool_pending s' i = Some q" "pool_threads s' ! i = pool_threads s ! i"
        by auto
      then show ?thesis using more.IH more.prems(1) Send False by simp
    qed
  qed
qed simp

lemma completed_threads_Draw:
  assumes "pool_step s (Draw i) s'" and "next_env i es = Some env"
    and "send_query env q (pool_threads s ! i) = (Inr (), th)" and "pool_pending s' i = Some q"
  shows "completed_threads es s' = (completed_threads (Draw i # es) s)[i := th]"
    and "completed_threads (Draw i # es) s ! i = pool_threads s ! i"
proof -
  have i: "i < length (pool_threads s)" "pool_pending s i = None" "pool_threads s' = pool_threads s"
    using assms(1) by auto
  show "completed_threads es s' = (completed_threads (Draw i # es) s)[i := th]"
  proof (rule nth_equalityI)
    fix j
    assume "j < length (completed_threads es s')"
    then have j: "j < length (pool_threads s)" by (simp add: completed_threads_def i)
    then show "completed_threads es s' ! j = (completed_threads (Draw i # es) s)[i := th] ! j"
      using assms i completed_Draw [OF assms(1), of j es]
      by (cases "j = i") (simp_all add: completed_threads_def, simp add: completed_def)
  qed (simp add: completed_threads_def i)
  show "completed_threads (Draw i # es) s ! i = pool_threads s ! i"
    using i by (simp add: completed_threads_def completed_def)
qed

lemma pool_steps_atomic:
  assumes "pool_steps s es s'" and "pool_pending s' = Map.empty"
  shows "pool_run (atomic es) (completed_threads es s) (pool_payload s) = Some (Inr (), pool_threads s', pool_payload s')"
  using assms
proof (induction rule: pool_steps.induct)
  case (none s)
  then show ?case by (simp add: completed_threads_idle)
next
  case (more s e s' es s'')
  note IH = more.IH [OF more.prems]
  show ?case
  proof (cases e)
    case (Draw i)
    with more.hyps(1) obtain q where d: "i < length (pool_threads s)" "pool_pending s' i = Some q"
        "getQuery (pool_payload s) = Inr (q, pool_payload s')" "pool_threads s' = pool_threads s"
      by auto
    obtain env th where e: "next_env i es = Some env" "send_query env q (pool_threads s ! i) = (Inr (), th)"
      using pending_is_sent [OF more.hyps(2) more.prems d(2)] d(4) by auto
    note c = completed_threads_Draw [OF more.hyps(1) [unfolded Draw] e d(2)]
    have "sendPacket [env] (completed_threads (Draw i # es) s ! i) (pool_payload s) = Some (Inr (), th, pool_payload s')"
      unfolding sendPacket_once c(2) by (simp add: try_send_def d(3) e(2))
    moreover have "i < length (completed_threads (Draw i # es) s)" by (simp add: completed_threads_def d)
    ultimately show ?thesis using IH by (simp add: Draw e(1) c(1))
  next
    case (Send i env)
    have "completed_threads (Send i env # es) s = completed_threads es s'"
      using completed_Send [OF more.hyps(1) [unfolded Send]] pool_step_length [OF more.hyps(1)]
      by (simp add: completed_threads_def)
    moreover have "pool_payload s' = pool_payload s" using more.hyps(1) Send by auto
    ultimately show ?thesis using IH by (simp add: Send)
  qed
qed

subsection \<open>Mutual exclusion\<close>

definition mutex_inv :: "conc \<Rightarrow> bool" where
  "mutex_inv s \<longleftrightarrow> (\<forall>i. critical (conc_pc s i) \<longleftrightarrow> QueryMutex s = Some i) \<and>
     (\<forall>i. conc_pc s i \<noteq> Outside \<longrightarrow> i < length (conc_threads s)) \<and>
     (\<forall>i at_end q. conc_pc s i = Tested at_end q \<longrightarrow>
        at_end = (it_pos (conc_payload s) = length (querycache (conc_payload s))))"

lemma mutex_inv_idle: "mutex_inv (idle_conc ths pf)"
  by (simp add: mutex_inv_def idle_conc_def)

lemma mutex_owner:
  assumes "mutex_inv s"
  shows "critical (conc_pc s i) \<Longrightarrow> QueryMutex s = Some i" and "QueryMutex s = Some i \<Longrightarrow> critical (conc_pc s i)"
    and "conc_pc s i \<noteq> Outside \<Longrightarrow> i < length (conc_threads s)"
  using assms by (auto simp: mutex_inv_def)

lemma owner_points:
  assumes "mutex_inv s"
  shows "conc_pc s i = Locked \<Longrightarrow> QueryMutex s = Some i" and "conc_pc s i = Bound q \<Longrightarrow> QueryMutex s = Some i"
    and "conc_pc s i = Advanced q \<Longrightarrow> QueryMutex s = Some i" and "conc_pc s i = Tested at_end q \<Longrightarrow> QueryMutex s = Some i"
    and "conc_pc s i = Settled q \<Longrightarrow> QueryMutex s = Some i"
  using mutex_owner(1) [OF assms, of i] by simp_all

lemma exclusive_step:
  assumes "conc_step s e s'" and "mutex_inv s"
  shows "critical (conc_pc s' j) \<longleftrightarrow> QueryMutex s' = Some j"
proof -
  have "critical (conc_pc s j) \<longleftrightarrow> QueryMutex s = Some j" using assms(2) by (simp add: mutex_inv_def)
  with assms(1) show ?thesis
    by (cases rule: conc_step.cases) (auto simp: owner_points [OF assms(2)])
qed

lemma tested_step:
  assumes "conc_step s e s'" and "mutex_inv s" and "conc_pc s' j = Tested at_end q"
  shows "at_end = (it_pos (conc_payload s') = length (querycache (conc_payload s')))"
proof -
  have "at_end = (it_pos (conc_payload s) = length (querycache (conc_payload s)))" "QueryMutex s = Some j"
    if "conc_pc s j = Tested at_end q"
    using assms(2) that owner_points(4) [OF assms(2) that] unfolding mutex_inv_def by blast+
  with assms(1,3) show ?thesis
    by (cases rule: conc_step.cases) (auto dest: owner_points [OF assms(2)] split: if_splits)
qed

lemma mutex_inv_step:
  assumes "conc_step s e s'" and "mutex_inv s"
  shows "mutex_inv s'"
  unfolding mutex_inv_def
proof (intro conjI allI impI)
  fix i
  assume "conc_pc s' i \<noteq> Outside"
  with assms(1) show "i < length (conc_threads s')"
    by (cases rule: conc_step.cases) (auto intro: mutex_owner(3) [OF assms(2)] split: if_splits)
qed (rule exclusive_step [OF assms], rule tested_step [OF assms])

lemma mutex_inv_steps: "conc_steps s es s' \<Longrightarrow> mutex_inv s \<Longrightarrow> mutex_inv s'"
  by (induction rule: conc_steps.induct) (simp_all add: mutex_inv_step)

subsection \<open>The mutex implements the abstract machine\<close>

text \<open>
  The draw takes effect when \<open>bap\<close> is bound. From there on the abstract payload is the one that the
  thread in the critical section will leave behind.
\<close>

fun pending :: "thread_pc \<Rightarrow> bytes option" where
  "pending Outside = None"
| "pending Locked = None"
| "pending (Bound q) = Some q"
| "pending (Advanced q) = Some q"
| "pending (Tested at_end q) = Some q"
| "pending (Settled q) = Some q"
| "pending (Drawn q) = Some q"

fun settled :: "thread_pc \<Rightarrow> payload_file \<Rightarrow> payload_file" where
  "settled (Bound q) pf =
     pf\<lparr>it_pos := (if it_pos pf + 1 = length (querycache pf) then 0 else it_pos pf + 1)\<rparr>"
| "settled (Advanced q) pf = (if it_pos pf = length (querycache pf) then pf\<lparr>it_pos := 0\<rparr> else pf)"
| "settled (Tested at_end q) pf = (if at_end then pf\<lparr>it_pos := 0\<rparr> else pf)"
| "settled pc pf = pf"

definition abs_pool :: "conc \<Rightarrow> pool" where
  "abs_pool s =
     \<lparr>pool_threads = conc_threads s,
      pool_pending = (\<lambda>i. pending (conc_pc s i)),
      pool_payload = (case QueryMutex s of None \<Rightarrow> conc_payload s | Some i \<Rightarrow> settled (conc_pc s i) (conc_payload s))\<rparr>"

fun abs_event :: "conc_event \<Rightarrow> pool_event list" where
  "abs_event (Read i q) = [Draw i]"
| "abs_event (Transmit i env) = [Send i env]"
| "abs_event _ = []"

definition abs_events :: "conc_event list \<Rightarrow> pool_event list" where
  "abs_events es = concat (map abs_event es)"

lemma abs_events_simps [simp]: "abs_events [] = []" "abs_events (e # es) = abs_event e @ abs_events es"
  by (simp_all add: abs_events_def)

text \<open>The whole calls of an interleaving, in the order in which they bind their queries.\<close>

definition calls :: "conc_event list \<Rightarrow> (nat \<times> send_env) list" where
  "calls es = atomic (abs_events es)"

lemma abs_idle [simp]: "abs_pool (idle_conc ths pf) = idle_pool ths pf"
  by (simp add: abs_pool_def idle_conc_def idle_pool_def)

lemma pool_steps_one: "pool_step s e s' \<Longrightarrow> pool_steps s [e] s'"
  by (rule pool_steps.more) (assumption, rule pool_steps.none)

lemma abs_silent:
  assumes "conc_step s e s'" and "mutex_inv s" and "abs_event e = []"
  shows "abs_pool s' = abs_pool s"
  using assms(1,3)
  by (cases rule: conc_step.cases) (auto simp: abs_pool_def fun_eq_iff owner_points [OF assms(2)])

lemma abs_read:
  assumes "conc_step s (Read i q) s'" and "mutex_inv s"
  shows "pool_step (abs_pool s) (Draw i) (abs_pool s')" and "getQuery (pool_payload (abs_pool s)) = Inr (q, pool_payload (abs_pool s'))"
proof -
  have r: "conc_pc s i = Locked" "it_pos (conc_payload s) < length (querycache (conc_payload s))"
      "q = querycache (conc_payload s) ! it_pos (conc_payload s)" "s' = s\<lparr>conc_pc := (conc_pc s)(i := Bound q)\<rparr>"
    using assms(1) by (auto elim!: conc_stepE)
  have o: "QueryMutex s = Some i" "i < length (conc_threads s)"
    using mutex_owner [OF assms(2), of i] r(1) by simp_all
  show g: "getQuery (pool_payload (abs_pool s)) = Inr (q, pool_payload (abs_pool s'))"
    using r o by (simp add: abs_pool_def getQuery_def Let_def)
  have "abs_pool s' = (abs_pool s)\<lparr>pool_pending := (pool_pending (abs_pool s))(i \<mapsto> q), pool_payload := pool_payload (abs_pool s')\<rparr>"
    using r o by (auto simp: abs_pool_def fun_eq_iff)
  then show "pool_step (abs_pool s) (Draw i) (abs_pool s')"
    using pool_step.draw [OF _ _ g, of i] r o by (simp add: abs_pool_def)
qed

lemma abs_transmit:
  assumes "conc_step s (Transmit i env) s'" and "mutex_inv s"
  shows "pool_step (abs_pool s) (Send i env) (abs_pool s')"
proof -
  obtain q th where r: "conc_pc s i = Drawn q" "send_query env q (conc_threads s ! i) = (Inr (), th)"
      "s' = s\<lparr>conc_pc := (conc_pc s)(i := Outside), conc_threads := (conc_threads s)[i := th]\<rparr>"
    using assms(1) by (auto elim!: conc_stepE)
  have i: "i < length (conc_threads s)" and o: "QueryMutex s \<noteq> Some i"
    using mutex_owner [OF assms(2), of i] r(1) by auto
  have "abs_pool s' = (abs_pool s)\<lparr>pool_pending := (pool_pending (abs_pool s))(i := None), pool_threads := (pool_threads (abs_pool s))[i := th]\<rparr>"
    using r(3) o by (auto simp: abs_pool_def fun_eq_iff split: option.splits)
  then show ?thesis using pool_step.send [of i "abs_pool s" q env th] r i by (simp add: abs_pool_def)
qed

lemma abs_step:
  assumes "conc_step s e s'" and "mutex_inv s"
  shows "pool_steps (abs_pool s) (abs_event e) (abs_pool s')"
  using assms abs_silent [OF assms] abs_read(1) abs_transmit
  by (cases e) (auto intro: pool_steps_one pool_steps.none)

lemma pool_steps_append: "pool_steps s es s' \<Longrightarrow> pool_steps s' es' s'' \<Longrightarrow> pool_steps s (es @ es') s''"
  by (induction rule: pool_steps.induct) (simp_all add: pool_steps.more)

lemma abs_steps:
  assumes "conc_steps s es s'" and "mutex_inv s"
  shows "pool_steps (abs_pool s) (abs_events es) (abs_pool s')"
  using assms
proof (induction rule: conc_steps.induct)
  case (conc_more s e s' es s'')
  then show ?case using pool_steps_append [OF abs_step] mutex_inv_step by simp
qed (simp add: pool_steps.none)

text \<open>A whole call of \<open>sendPacket\<close>, statement by statement.\<close>

definition whole_call :: "bytes \<Rightarrow> nat \<times> send_env \<Rightarrow> conc_event list" where
  "whole_call q = (\<lambda>(i, env). [Lock i, Read i q, Advance i, Test i, Reset i, Unlock i, Transmit i env])"

lemma conc_steps_append: "conc_steps s es s' \<Longrightarrow> conc_steps s' es' s'' \<Longrightarrow> conc_steps s (es @ es') s''"
  by (induction rule: conc_steps.induct) (simp_all add: conc_more)

lemma getQuery_statements:
  assumes "i < length ths" and "pcs i = Outside" and "getQuery pf = Inr (q, pf')"
  shows "conc_steps \<lparr>conc_threads = ths, conc_pc = pcs, QueryMutex = None, conc_payload = pf\<rparr>
    [Lock i, Read i q, Advance i, Test i, Reset i, Unlock i]
    \<lparr>conc_threads = ths, conc_pc = pcs(i := Drawn q), QueryMutex = None, conc_payload = pf'\<rparr>"
proof -
  let ?S = "\<lambda>pc m pf. \<lparr>conc_threads = ths, conc_pc = pcs(i := pc), QueryMutex = m, conc_payload = pf\<rparr>"
  let ?idle = "\<lparr>conc_threads = ths, conc_pc = pcs, QueryMutex = None, conc_payload = pf\<rparr>"
  let ?last = "it_pos pf + 1 = length (querycache pf)" and ?pf1 = "pf\<lparr>it_pos := it_pos pf + 1\<rparr>"
  have g: "it_pos pf < length (querycache pf)" "q = querycache pf ! it_pos pf" "pf' = (if ?last then ?pf1\<lparr>it_pos := 0\<rparr> else ?pf1)"
    using assms(3) by (auto simp: getQuery_def Let_def split: if_splits)
  have "conc_step ?idle (Lock i) (?S Locked (Some i) pf)"
    using conc_step.lock [of i ?idle] assms(1,2) by simp
  moreover have "conc_step (?S Locked (Some i) pf) (Read i q) (?S (Bound q) (Some i) pf)"
    using conc_step.read [of "?S Locked (Some i) pf" i q] g by simp
  moreover have "conc_step (?S (Bound q) (Some i) pf) (Advance i) (?S (Advanced q) (Some i) ?pf1)"
    using conc_step.advance [of "?S (Bound q) (Some i) pf" i q] by simp
  moreover have "conc_step (?S (Advanced q) (Some i) ?pf1) (Test i) (?S (Tested ?last q) (Some i) ?pf1)"
    using conc_step.test [of "?S (Advanced q) (Some i) ?pf1" i q ?last] by simp
  moreover have "conc_step (?S (Tested ?last q) (Some i) ?pf1) (Reset i) (?S (Settled q) (Some i) pf')"
    using conc_step.reset [of "?S (Tested ?last q) (Some i) ?pf1" i ?last q pf'] g(3) by simp
  moreover have "conc_step (?S (Settled q) (Some i) pf') (Unlock i) (?S (Drawn q) None pf')"
    using conc_step.unlock [of "?S (Settled q) (Some i) pf'" i q] by simp
  ultimately show ?thesis by - (rule conc_more, assumption | rule conc_none)+
qed

lemma whole_call_steps:
  assumes "i < length ths" and "sendPacket [env] (ths ! i) pf = Some (Inr (), th, pf')"
  obtains q where "conc_steps (idle_conc ths pf) (whole_call q (i, env)) (idle_conc (ths[i := th]) pf')"
proof -
  obtain q where q: "getQuery pf = Inr (q, pf')" "send_query env q (ths ! i) = (Inr (), th)"
    using assms(2) unfolding sendPacket_once by (auto simp: try_send_def split: sum.splits prod.splits)
  let ?s = "\<lparr>conc_threads = ths, conc_pc = (\<lambda>_. Outside)(i := Drawn q), QueryMutex = None, conc_payload = pf'\<rparr>"
  have "conc_step ?s (Transmit i env) (idle_conc (ths[i := th]) pf')"
    using conc_step.transmit [of ?s i q env th] q(2) fun_upd_idem [of "\<lambda>_. Outside" i Outside] by (simp add: idle_conc_def)
  then have "conc_steps ?s [Transmit i env] (idle_conc (ths[i := th]) pf')" by (rule conc_more) (rule conc_none)
  then show ?thesis
    using that [of q] conc_steps_append [OF getQuery_statements [OF assms(1) refl q(1)]]
    by (simp add: whole_call_def idle_conc_def)
qed

lemma calls_whole_call [simp]: "calls (whole_call q (i, env) @ es) = (i, env) # calls es"
  by (simp add: calls_def whole_call_def)

lemma pool_run_steps:
  assumes "pool_run sched ths pf = Some (Inr (), ths', pf')"
  shows "\<exists>es. calls es = sched \<and> conc_steps (idle_conc ths pf) es (idle_conc ths' pf')"
  using assms
proof (induction sched ths pf rule: pool_run.induct)
  case (1 ths pf)
  then show ?case by (intro exI [of _ "[]"]) (auto intro: conc_none simp: calls_def)
next
  case (2 i env sched ths pf)
  obtain th pf1 where s: "i < length ths" "sendPacket [env] (ths ! i) pf = Some (Inr (), th, pf1)"
      "pool_run sched (ths[i := th]) pf1 = Some (Inr (), ths', pf')"
    using "2.prems" by (cases "try_send env (ths ! i) pf") (auto simp: sendPacket_once simp del: sendPacket.simps
        split: if_splits sum.splits)
  obtain es where es: "calls es = sched" "conc_steps (idle_conc (ths[i := th]) pf1) es (idle_conc ths' pf')"
    using "2.IH" [OF s(1,2) refl refl] s(3) by auto
  obtain q where "conc_steps (idle_conc ths pf) (whole_call q (i, env)) (idle_conc (ths[i := th]) pf1)"
    using whole_call_steps [OF s(1,2)] .
  then have "conc_steps (idle_conc ths pf) (whole_call q (i, env) @ es) (idle_conc ths' pf')"
    using es(2) by (rule conc_steps_append)
  then show ?case using es(1) by (intro exI [of _ "whole_call q (i, env) @ es"]) simp
qed

lemma conc_steps_calls:
  assumes "conc_steps (idle_conc ths pf) es (idle_conc ths' pf')"
  shows "pool_run (calls es) ths pf = Some (Inr (), ths', pf')"
proof -
  have "pool_steps (idle_pool ths pf) (abs_events es) (idle_pool ths' pf')"
    using abs_steps [OF assms mutex_inv_idle] by simp
  then show ?thesis
    using pool_steps_atomic [of "idle_pool ths pf" "abs_events es" "idle_pool ths' pf'"] completed_threads_idle [of "idle_pool ths pf"]
    by (simp add: idle_pool_def calls_def)
qed

text \<open>
  C5. The mutex of \<open>getQuery\<close> does its work. In every state that the interleaved statements of the
  threads reach, at most one thread is between \<open>lock\<close> and \<open>unlock\<close>; and concurrent sending is
  equivalent to a sequence of whole \<open>sendPacket\<close> calls: for every interleaving after which no thread is
  in a call, running whole calls one after the other, in the order in which the queries were bound,
  leads to the same threads and the same payload, and every sequence of whole calls is such an
  interleaving.
\<close>

theorem conc_linearizable:
  "(\<nexists>es s i j. conc_steps (idle_conc ths pf) es s \<and> critical (conc_pc s i) \<and> critical (conc_pc s j) \<and> i \<noteq> j) \<and>
   (pool_run sched ths pf = Some (Inr (), ths', pf') \<longleftrightarrow>
      (\<exists>es. calls es = sched \<and> conc_steps (idle_conc ths pf) es (idle_conc ths' pf')))"
proof (intro conjI iffI)
  show "\<nexists>es s i j. conc_steps (idle_conc ths pf) es s \<and> critical (conc_pc s i) \<and> critical (conc_pc s j) \<and> i \<noteq> j"
    using mutex_owner(1) [OF mutex_inv_steps [OF _ mutex_inv_idle]] by (metis option.inject)
qed (rule pool_run_steps, auto dest: conc_steps_calls)

subsection \<open>What one thread sees\<close>

text \<open>
  The moments of thread \<open>i\<close> in a schedule: for each of its packets the number of draws of the others
  since its last one. \<open>n\<close> counts the draws that have not been attributed yet.
\<close>

fun view :: "nat \<Rightarrow> nat \<Rightarrow> (nat \<times> send_env) list \<Rightarrow> moment list" where
  "view i n [] = []"
| "view i n ((j, env) # sched) =
     (if j = i then \<lparr>others = n, attempts = [env]\<rparr> # view i 0 sched else view i (Suc n) sched)"

lemma sendPacket_payload: "sendPacket [env] th pf = Some (Inr (), th', pf') \<Longrightarrow> pf' = other_draw pf"
  by (cases "getQuery pf")
     (auto simp: sendPacket_once try_send_def other_draw_def simp del: sendPacket.simps split: prod.splits)

lemma pool_run_Cons:
  assumes "pool_run ((j, env) # sched) ths pf = Some (Inr (), ths', pf')"
  obtains th where "j < length ths" and "sendPacket [env] (ths ! j) pf = Some (Inr (), th, other_draw pf)"
    and "pool_run sched (ths[j := th]) (other_draw pf) = Some (Inr (), ths', pf')"
proof -
  obtain th pf1 where s: "j < length ths" "sendPacket [env] (ths ! j) pf = Some (Inr (), th, pf1)"
      "pool_run sched (ths[j := th]) pf1 = Some (Inr (), ths', pf')"
    using assms by (cases "try_send env (ths ! j) pf")
      (auto simp: sendPacket_once simp del: sendPacket.simps split: if_splits sum.splits)
  then show ?thesis using that sendPacket_payload [OF s(2)] by simp
qed

lemma pool_run_length: "pool_run sched ths pf = Some (Inr (), ths', pf') \<Longrightarrow> length ths' = length ths"
proof (induction sched arbitrary: ths pf)
  case (Cons e sched)
  obtain j env where e: "e = (j, env)" by fastforce
  show ?case using Cons.prems unfolding e by (rule pool_run_Cons) (use Cons.IH in force)
qed simp

lemma pool_run_view:
  assumes "pool_run sched ths ((other_draw ^^ n) pf) = Some (Inr (), ths', pf')" and "i < length ths"
  shows "\<exists>pf1. send_queries (length (view i n sched)) (view i n sched) (ths ! i) pf = Some (Inr (), ths' ! i, pf1)"
  using assms
proof (induction sched arbitrary: n ths pf)
  case (Cons e sched)
  obtain j env where e: "e = (j, env)" by fastforce
  obtain th where th: "j < length ths" "sendPacket [env] (ths ! j) ((other_draw ^^ n) pf) = Some (Inr (), th, other_draw ((other_draw ^^ n) pf))"
      "pool_run sched (ths[j := th]) (other_draw ((other_draw ^^ n) pf)) = Some (Inr (), ths', pf')"
    using Cons.prems(1) unfolding e by (rule pool_run_Cons)
  show ?case
  proof (cases "j = i")
    case True
    have "send_at \<lparr>others = n, attempts = [env]\<rparr> (ths ! i) pf = Some (Inr (), th, other_draw ((other_draw ^^ n) pf))"
      using th(2) True unfolding send_at_def by simp
    moreover have "\<exists>pf1. send_queries (length (view i 0 sched)) (view i 0 sched) th (other_draw ((other_draw ^^ n) pf)) =
        Some (Inr (), ths' ! i, pf1)"
      using Cons.IH [of "ths[j := th]" 0] th Cons.prems(2) True by simp
    ultimately show ?thesis by (simp add: e True)
  next
    case False
    then show ?thesis
      using Cons.IH [of "ths[j := th]" "Suc n" pf] th(3) Cons.prems(2) by (simp add: e)
  qed
qed simp

text \<open>
  In every interleaving of all threads, thread \<open>i\<close> ends in the state in which its own loop ends when
  it sends alone, provided that before each of its packets the payload is advanced by the number of
  queries the others drew in between. This is why the theory \<open>Sender_Run\<close> describes the others by the
  number of their draws.
\<close>

lemma conc_thread_view:
  assumes "conc_steps (idle_conc ths pf) es (idle_conc ths' pf')" and "i < length ths"
  shows "\<exists>pf1. send_queries (length (view i 0 (calls es))) (view i 0 (calls es)) (ths ! i) pf =
    Some (Inr (), ths' ! i, pf1)"
  using pool_run_view [of "calls es" ths 0] conc_steps_calls [OF assms(1)] assms(2) by simp

subsection \<open>All threads together\<close>

definition pool_inv :: "sender_thread list \<Rightarrow> payload_file \<Rightarrow> bool" where
  "pool_inv ths pf \<longleftrightarrow> ths \<noteq> [] \<and> (\<forall>th\<in>set ths. thread_inv th \<and> supplied th pf)"

definition scheduled :: "nat \<Rightarrow> (nat \<times> send_env) list \<Rightarrow> bool" where
  "scheduled n sched \<longleftrightarrow> (\<forall>(i, env)\<in>set sched. i < n)"

lemma other_draw_supplied1: "supplied th pf \<Longrightarrow> supplied th (other_draw pf)"
  and other_draw_cycle1: "supplied th pf \<Longrightarrow> payload_cycle (other_draw pf) = rotate1 (payload_cycle pf)"
  using other_draw_supplied [of th pf 1] by simp_all

lemma pool_inv_update:
  assumes "pool_inv ths pf" and "thread_inv th" and "supplied th pf'" and "supplied (ths ! j) pf \<Longrightarrow> pf' = other_draw pf"
    and "j < length ths"
  shows "pool_inv (ths[j := th]) pf'"
proof -
  have "pf' = other_draw pf" using assms by (auto simp: pool_inv_def)
  then show ?thesis
    using assms other_draw_supplied1 by (auto simp: pool_inv_def dest!: set_update_subset_insert [THEN subsetD])
qed

lemma pool_run_step:
  assumes "pool_inv ths pf" and "j < length ths"
  obtains th where "sendPacket [env] (ths ! j) pf = Some (Inr (), th, other_draw pf)"
    and "pool_inv (ths[j := th]) (other_draw pf)" and "sent env (hd (payload_cycle pf)) (ths ! j) th"
    and "same_config (ths ! j) th" and "payload_cycle (other_draw pf) = rotate1 (payload_cycle pf)"
proof -
  have inv: "thread_inv (ths ! j)" "supplied (ths ! j) pf" using assms by (auto simp: pool_inv_def)
  obtain th pf' where th: "sendPacket [env] (ths ! j) pf = Some (Inr (), th, pf')" "thread_inv th" "supplied th pf'"
      "same_config (ths ! j) th" "sent env (hd (payload_cycle pf)) (ths ! j) th"
    using sendPacket_ok [OF inv] by metis
  have pf': "pf' = other_draw pf" using th(1) by (rule sendPacket_payload)
  then show ?thesis
    using that [of th] th pool_inv_update [OF assms(1) th(2,3) _ assms(2)] other_draw_cycle1 [OF inv(2)] by simp
qed

lemma sum_list_increment:
  "j < length xs \<Longrightarrow> sum_list (xs[j := xs ! j + c]) = sum_list xs + (c :: 'a :: comm_monoid_add)"
  by (induction xs arbitrary: j) (auto simp: ac_simps split: nat.splits)

lemma pool_run_ok:
  assumes "pool_inv ths pf" and "scheduled (length ths) sched"
  shows "\<exists>ths' pf'. pool_run sched ths pf = Some (Inr (), ths', pf') \<and> pool_inv ths' pf' \<and> length ths' = length ths \<and>
    payload_cycle pf' = rotate (length sched) (payload_cycle pf) \<and>
    sum_list (map attempted ths') = sum_list (map attempted ths) + of_nat (length sched)"
  using assms
proof (induction sched arbitrary: ths pf)
  case (Cons e sched)
  obtain j env where e: "e = (j, env)" by fastforce
  have j: "j < length ths" and sc: "scheduled (length ths) sched" using Cons.prems(2) by (auto simp: e scheduled_def)
  obtain th where th: "sendPacket [env] (ths ! j) pf = Some (Inr (), th, other_draw pf)"
      "pool_inv (ths[j := th]) (other_draw pf)" "sent env (hd (payload_cycle pf)) (ths ! j) th"
      "payload_cycle (other_draw pf) = rotate1 (payload_cycle pf)"
    using pool_run_step [OF Cons.prems(1) j] by metis
  have "sum_list (map attempted (ths[j := th])) = sum_list (map attempted ths) + 1"
    using j sent_attempted [OF th(3)] sum_list_increment [of j "map attempted ths" 1] by (simp add: map_update)
  moreover obtain ths' pf' where "pool_run sched (ths[j := th]) (other_draw pf) = Some (Inr (), ths', pf')"
      "pool_inv ths' pf'" "length ths' = length ths"
      "payload_cycle pf' = rotate (length sched) (payload_cycle (other_draw pf))"
      "sum_list (map attempted ths') = sum_list (map attempted (ths[j := th])) + of_nat (length sched)"
    using Cons.IH [OF th(2)] sc by auto
  ultimately show ?case
    using j th(1,4) by (simp add: e rotate1_rotate_swap del: sendPacket.simps)
qed simp


lemma pool_run_append:
  assumes "pool_run s1 ths pf = Some (Inr (), ths1, pf1)"
  shows "pool_run (s1 @ s2) ths pf = pool_run s2 ths1 pf1"
  using assms
proof (induction s1 arbitrary: ths pf)
  case (Cons e s1)
  obtain j env where e: "e = (j, env)" by fastforce
  show ?case
    using Cons.prems unfolding e
    by (rule pool_run_Cons) (use Cons.IH in \<open>simp del: sendPacket.simps\<close>)
qed simp

lemma pool_run_nth:
  assumes "pool_inv ths pf" and "scheduled (length ths) sched" and "k < length sched" and "sched ! k = (i, env)"
  obtains ths1 pf1 th pf2 where "pool_run (take k sched) ths pf = Some (Inr (), ths1, pf1)"
    and "pool_run (take (Suc k) sched) ths pf = Some (Inr (), ths1[i := th], pf2)" and "i < length ths1"
    and "sent env (payload_cycle pf ! (k mod length (payload_cycle pf))) (ths1 ! i) th"
proof -
  have "scheduled (length ths) (take k sched)" and i: "i < length ths"
    using assms(2-4) nth_mem [OF assms(3)] by (auto simp: scheduled_def dest: in_set_takeD)
  then obtain ths1 pf1 where r: "pool_run (take k sched) ths pf = Some (Inr (), ths1, pf1)" "pool_inv ths1 pf1"
      "length ths1 = length ths" "payload_cycle pf1 = rotate k (payload_cycle pf)"
    using pool_run_ok [OF assms(1)] assms(3) by fastforce
  obtain th where th: "sendPacket [env] (ths1 ! i) pf1 = Some (Inr (), th, other_draw pf1)"
      "sent env (hd (payload_cycle pf1)) (ths1 ! i) th"
    using pool_run_step [OF r(2)] i r(3) by metis
  have "payload_cycle pf \<noteq> []" using assms(1) by (auto simp: pool_inv_def supplied_def payload_ready_def payload_cycle_def)
  then have "hd (payload_cycle pf1) = payload_cycle pf ! (k mod length (payload_cycle pf))"
    by (simp add: r(4) hd_rotate_conv_nth)
  moreover have "pool_run (take (Suc k) sched) ths pf = Some (Inr (), ths1[i := th], other_draw pf1)"
    unfolding take_Suc_conv_app_nth [OF assms(3)] pool_run_append [OF r(1)] using th(1) i r(3) assms(4)
    by (simp del: sendPacket.simps)
  ultimately show ?thesis using that r(1,3) th(2) i by simp
qed

lemma card_residue:
  assumes "j < n"
  shows "card {k. k < N \<and> k mod n = j} = N div n + (if j < N mod n then 1 else 0)"
proof (induction N)
  case (Suc N)
  have "{k. k < Suc N \<and> k mod n = j} = {k. k < N \<and> k mod n = j} \<union> (if N mod n = j then {N} else {})"
    by (auto simp: less_Suc_eq)
  then have "card {k. k < Suc N \<and> k mod n = j} = card {k. k < N \<and> k mod n = j} + (if N mod n = j then 1 else 0)"
    by (auto simp: card_insert_if)
  also have "\<dots> = Suc N div n + (if j < Suc N mod n then 1 else 0)"
    using Suc.IH assms mod_less_divisor [of n N] by (auto simp: div_Suc mod_Suc)
  finally show ?case .
qed simp

text \<open>Two threads and two queries.\<close>

lemma demo_pool_ok: "pool_inv [demo_thread, demo_thread] demo_payload"
  using demo_thread_ok by (simp add: pool_inv_def)

subsection \<open>Well-formed states\<close>

text \<open>The queries that threads hold are well-formed.\<close>

definition pool_wf :: "pool \<Rightarrow> bool" where
  "pool_wf s \<longleftrightarrow> pool_inv (pool_threads s) (pool_payload s) \<and>
     (\<forall>i q. pool_pending s i = Some q \<longrightarrow> i < length (pool_threads s) \<and> query_wf (th_payloadIsPcap (pool_threads s ! i)) q)"

lemma pool_draw_ok:
  assumes "pool_wf s" and "i < length (pool_threads s)"
  shows "\<exists>q. getQuery (pool_payload s) = Inr (q, other_draw (pool_payload s)) \<and>
    query_wf (th_payloadIsPcap (pool_threads s ! i)) q \<and> pool_inv (pool_threads s) (other_draw (pool_payload s))"
proof -
  have sup: "\<forall>th\<in>set (pool_threads s). thread_inv th \<and> supplied th (pool_payload s)"
    using assms(1) by (simp add: pool_wf_def pool_inv_def)
  then have "supplied (pool_threads s ! i) (pool_payload s)" using assms(2) by simp
  then obtain pf' where "getQuery (pool_payload s) = Inr (hd (payload_cycle (pool_payload s)), pf')"
      "query_wf (th_payloadIsPcap (pool_threads s ! i)) (hd (payload_cycle (pool_payload s)))"
    by (rule supplied_query)
  moreover from this have "other_draw (pool_payload s) = pf'" by (simp add: other_draw_def)
  ultimately show ?thesis using assms(1) sup other_draw_supplied1 by (auto simp: pool_wf_def pool_inv_def)
qed

lemma pool_wf_step: "pool_step s e s' \<Longrightarrow> pool_wf s \<Longrightarrow> pool_wf s'"
proof (induction rule: pool_step.induct)
  case (draw i s q pf)
  then show ?case using pool_draw_ok [OF draw.prems draw.hyps(1)] by (auto simp: pool_wf_def split: if_splits)
next
  case (send i s q env th)
  have w: "thread_inv (pool_threads s ! i)" "query_wf (th_payloadIsPcap (pool_threads s ! i)) q"
    "supplied (pool_threads s ! i) (pool_payload s)"
    using send by (auto simp: pool_wf_def pool_inv_def)
  have th: "thread_inv th" "same_config (pool_threads s ! i) th"
    using send_query_ok [OF w(1,2), of env] send.hyps(3) by auto
  then have "supplied th (pool_payload s)" using w(3) by (simp add: supplied_def same_config_def)
  then show ?case
    using send.prems send.hyps(1) th
    by (auto simp: pool_wf_def pool_inv_def nth_list_update same_config_def split: if_splits
        dest!: set_update_subset_insert [THEN subsetD])
qed

lemma pool_wf_steps: "pool_steps s es s' \<Longrightarrow> pool_wf s \<Longrightarrow> pool_wf s' \<and> length (pool_threads s') = length (pool_threads s)"
  by (induction rule: pool_steps.induct) (simp_all add: pool_wf_step pool_step_length)

lemma conc_wf:
  assumes "pool_inv ths pf" and "conc_steps (idle_conc ths pf) es s"
  shows "mutex_inv s" and "pool_wf (abs_pool s)" and "length (conc_threads s) = length ths"
proof -
  have "pool_wf (idle_pool ths pf)" using assms(1) by (simp add: pool_wf_def idle_pool_def)
  then have "pool_wf (abs_pool s) \<and> length (pool_threads (abs_pool s)) = length (pool_threads (idle_pool ths pf))"
    using pool_wf_steps abs_steps [OF assms(2) mutex_inv_idle] by simp
  then show "pool_wf (abs_pool s)" "length (conc_threads s) = length ths" by (simp_all add: abs_pool_def idle_pool_def)
qed (rule mutex_inv_steps [OF assms(2) mutex_inv_idle])

subsection \<open>The queries are handed out in turn\<close>

lemma reads_step:
  assumes "conc_step s e s'" and "mutex_inv s" and "pool_wf (abs_pool s)"
  shows "abs_event e = [] \<and> reads (e # es) = reads es \<and> abs_pool s' = abs_pool s \<or>
    (\<exists>i env. e = Transmit i env \<and> reads (e # es) = reads es \<and> pool_payload (abs_pool s') = pool_payload (abs_pool s)) \<or>
    reads (e # es) = hd (payload_cycle (pool_payload (abs_pool s))) # reads es \<and>
    payload_cycle (pool_payload (abs_pool s')) = rotate1 (payload_cycle (pool_payload (abs_pool s)))"
proof (cases e)
  case (Read i q)
  have "payload_ready (pool_payload (abs_pool s))"
    using assms(3) by (auto simp: pool_wf_def pool_inv_def supplied_def neq_Nil_conv)
  then show ?thesis
    using getQuery_step [of "pool_payload (abs_pool s)"] abs_read(2) [OF assms(1) [unfolded Read] assms(2)] Read by auto
next
  case (Transmit i env)
  then show ?thesis using abs_transmit [OF assms(1) [unfolded Transmit] assms(2)] by auto
qed (use abs_silent [OF assms(1,2)] in simp_all)

lemma nth_rotate1: "0 < length xs \<Longrightarrow> rotate1 xs ! (k mod length xs) = xs ! (Suc k mod length xs)"
  using nth_rotate [of "k mod length xs" xs 1] by (simp add: mod_Suc_eq)

lemma reads_in_turn:
  assumes "conc_steps s es s'" and "mutex_inv s" and "pool_wf (abs_pool s)"
    and "cycle = payload_cycle (pool_payload (abs_pool s))"
  shows "reads es = map (\<lambda>k. cycle ! (k mod length cycle)) [0..<length (reads es)]"
  using assms
proof (induction arbitrary: cycle rule: conc_steps.induct)
  case (conc_more s e s' es s'')
  let ?c = "payload_cycle (pool_payload (abs_pool s'))"
  have w: "mutex_inv s'" "pool_wf (abs_pool s')"
    using mutex_inv_step [OF conc_more.hyps(1)] pool_wf_steps [OF abs_step [OF conc_more.hyps(1)]] conc_more.prems by auto
  note IH = conc_more.IH [OF w refl]
  consider "reads (e # es) = reads es" "?c = cycle" | "reads (e # es) = hd cycle # reads es" "?c = rotate1 cycle"
    using reads_step [OF conc_more.hyps(1) conc_more.prems(1,2), of es] conc_more.prems(3) by auto
  then show ?case
  proof cases
    case 1
    then show ?thesis using IH by simp
  next
    case 2
    have "cycle \<noteq> []"
      using conc_more.prems(2,3) by (auto simp: pool_wf_def pool_inv_def supplied_def payload_ready_def payload_cycle_def)
    then have "reads es = map (\<lambda>k. cycle ! (Suc k mod length cycle)) [0..<length (reads es)]"
      using IH nth_rotate1 [of cycle] 2(2) by simp
    then show ?thesis
      using \<open>cycle \<noteq> []\<close> 2(1) by (simp add: upt_conv_Cons map_Suc_upt [symmetric] comp_def hd_conv_nth del: upt_Suc)
  qed
qed simp

lemma length_atomic:
  assumes "pool_steps s es s'" and "pool_pending s' = Map.empty"
  shows "length (atomic es) = length (filter (\<lambda>e. \<exists>i. e = Draw i) es)"
  using assms
proof (induction rule: pool_steps.induct)
  case (more s e s' es s'')
  show ?case
  proof (cases e)
    case (Draw i)
    with more.hyps(1) obtain q where "pool_pending s' i = Some q" by auto
    then obtain env where "next_env i es = Some env" using pending_is_sent [OF more.hyps(2) more.prems] by blast
    then show ?thesis using more.IH more.prems Draw by simp
  next
    case (Send i env)
    then show ?thesis using more.IH more.prems by simp
  qed
qed simp

lemma draws_reads: "length (filter (\<lambda>e. \<exists>i. e = Draw i) (abs_events es)) = length (reads es)"
  by (induction es rule: reads.induct) simp_all

lemma length_calls:
  assumes "conc_steps (idle_conc ths pf) es (idle_conc ths' pf')"
  shows "length (calls es) = length (reads es)"
  using length_atomic [OF abs_steps [OF assms mutex_inv_idle]] draws_reads [of es]
  by (simp add: calls_def idle_pool_def)

lemma calls_scheduled:
  assumes "pool_run sched ths pf = Some (Inr (), ths', pf')"
  shows "scheduled (length ths) sched"
  using assms
proof (induction sched arbitrary: ths pf)
  case (Cons e sched)
  obtain j env where e: "e = (j, env)" by fastforce
  show ?case
    using Cons.prems unfolding e by (rule pool_run_Cons) (use Cons.IH in \<open>fastforce simp: scheduled_def\<close>)
qed (simp add: scheduled_def)

text \<open>
  C6. Round robin over all threads together. For threads that are configured (destination set, source
  from the capture only with a capture payload) and a payload that is loaded, and for every
  interleaving of their statements, finished or not, the queries come out of \<open>getQuery\<close> in the order
  of the payload, over and over: none is lost or handed out twice, whoever asks. When no thread is in
  a call, packet number \<open>k\<close> of the whole program has been sent, with query \<open>k\<close> modulo the number of
  queries, by the thread that drew it, without touching the others, and the counters of all threads
  have grown by the number of packets; of \<open>N\<close> packets each query gets \<open>N div n\<close>, the first \<open>N mod n\<close>
  of them one more.
\<close>

theorem conc_round_robin:
  assumes "pool_inv ths pf" and "conc_steps (idle_conc ths pf) es s" and "n = length (payload_cycle pf)"
  shows "reads es = map (\<lambda>k. payload_cycle pf ! (k mod n)) [0..<length (reads es)] \<and>
    (\<forall>ths' pf'. s = idle_conc ths' pf' \<longrightarrow> length (calls es) = length (reads es) \<and>
      sum_list (map attempted ths') = sum_list (map attempted ths) + of_nat (length (reads es)) \<and>
      (\<forall>k<length (reads es). \<exists>ths1 pf1 th pf2. pool_run (take k (calls es)) ths pf = Some (Inr (), ths1, pf1) \<and>
        pool_run (take (Suc k) (calls es)) ths pf = Some (Inr (), ths1[fst (calls es ! k) := th], pf2) \<and>
        sent (snd (calls es ! k)) (payload_cycle pf ! (k mod n)) (ths1 ! fst (calls es ! k)) th)) \<and>
    (\<forall>j<n. card {k. k < length (reads es) \<and> k mod n = j} = length (reads es) div n + (if j < length (reads es) mod n then 1 else 0))"
proof (intro conjI allI impI)
  show "reads es = map (\<lambda>k. payload_cycle pf ! (k mod n)) [0..<length (reads es)]"
    using reads_in_turn [OF assms(2) mutex_inv_idle, of "payload_cycle pf"] conc_wf(2) [OF assms(1) conc_none] assms(3)
    by (simp add: idle_pool_def)
next
  fix ths' pf'
  assume "s = idle_conc ths' pf'"
  note c = assms(2) [unfolded this]
  show len: "length (calls es) = length (reads es)" by (rule length_calls [OF c])
  note run = conc_steps_calls [OF c] and sched = calls_scheduled [OF conc_steps_calls [OF c]]
  show "sum_list (map attempted ths') = sum_list (map attempted ths) + of_nat (length (reads es))"
    using pool_run_ok [OF assms(1) sched] run len by auto
  fix k
  assume "k < length (reads es)"
  then show "\<exists>ths1 pf1 th pf2. pool_run (take k (calls es)) ths pf = Some (Inr (), ths1, pf1) \<and>
        pool_run (take (Suc k) (calls es)) ths pf = Some (Inr (), ths1[fst (calls es ! k) := th], pf2) \<and>
        sent (snd (calls es ! k)) (payload_cycle pf ! (k mod n)) (ths1 ! fst (calls es ! k)) th"
    using pool_run_nth [OF assms(1) sched, of k "fst (calls es ! k)" "snd (calls es ! k)"] assms(3) len by (metis prod.collapse)
qed (rule card_residue)

text \<open>
  Two threads: the second one waits for the mutex, then draws the second query while the first one
  has not sent its query yet, and sends before it.
\<close>

definition demo_trace :: "conc_event list" where
  "demo_trace =
     [Lock 0, Read 0 (replicate 12 0 @ [15]), Advance 0, Test 0, Reset 0, Unlock 0,
      Lock 1, Read 1 (replicate 12 0 @ [1]), Advance 1, Test 1, Reset 1, Unlock 1,
      Transmit 1 demo_env, Transmit 0 demo_env]"

lemma demo_draws:
  "conc_steps (idle_conc [demo_thread, demo_thread] demo_payload) (take 12 demo_trace)
     \<lparr>conc_threads = [demo_thread, demo_thread],
      conc_pc = (\<lambda>_. Outside)(0 := Drawn (replicate 12 0 @ [15]), Suc 0 := Drawn (replicate 12 0 @ [1])),
      QueryMutex = None, conc_payload = demo_payload\<lparr>it_pos := 0\<rparr>\<rparr>"
proof -
  have g: "getQuery demo_payload = Inr (replicate 12 0 @ [15], demo_payload\<lparr>it_pos := 1\<rparr>)"
    "getQuery (demo_payload\<lparr>it_pos := 1\<rparr>) = Inr (replicate 12 0 @ [1], demo_payload\<lparr>it_pos := 0\<rparr>)"
    by (simp_all add: getQuery_def demo_payload_def)
  show ?thesis
    using conc_steps_append [OF getQuery_statements [of 0 "[demo_thread, demo_thread]" "\<lambda>_. Outside", OF _ _ g(1)]
        getQuery_statements [of 1 "[demo_thread, demo_thread]" "(\<lambda>_. Outside)(0 := Drawn (replicate 12 0 @ [15]))", OF _ _ g(2)]]
    by (simp add: idle_conc_def demo_trace_def)
qed

lemma demo_interleaving:
  "\<exists>ths' pf'. conc_steps (idle_conc [demo_thread, demo_thread] demo_payload) demo_trace (idle_conc ths' pf')"
proof -
  let ?q = "replicate 12 0 @ [15] :: bytes" and ?q' = "replicate 12 0 @ [1] :: bytes"
  let ?S = "\<lambda>ths pcs. \<lparr>conc_threads = ths, conc_pc = pcs, QueryMutex = None, conc_payload = demo_payload\<lparr>it_pos := 0\<rparr>\<rparr>"
  have inv: "thread_inv demo_thread" and wf: "query_wf (th_payloadIsPcap demo_thread) q" if "q \<in> {?q, ?q'}" for q
    using demo_thread_ok that by (auto simp: query_wf_def demo_thread_def DNSSenderThread_new_def)
  obtain a b where ab: "send_query demo_env ?q demo_thread = (Inr (), a)" "send_query demo_env ?q' demo_thread = (Inr (), b)"
    using send_query_ok [OF inv wf] by (metis insertI1 insertI2)
  let ?p0 = "(\<lambda>_. Outside)(0 := Drawn ?q)" and ?p1 = "(\<lambda>_. Outside)(0 := Drawn ?q, Suc 0 := Drawn ?q')"
  have "conc_step (?S [demo_thread, demo_thread] ?p1) (Transmit 1 demo_env) (?S [demo_thread, b] (?p1(1 := Outside)))"
    using conc_step.transmit [of "?S [demo_thread, demo_thread] ?p1" 1 ?q' demo_env b] ab(2) by simp
  moreover have "conc_step (?S [demo_thread, b] (?p1(1 := Outside))) (Transmit 0 demo_env) (idle_conc [a, b] (demo_payload\<lparr>it_pos := 0\<rparr>))"
    using conc_step.transmit [of "?S [demo_thread, b] (?p1(1 := Outside))" 0 ?q demo_env a] ab(1)
    by (simp add: idle_conc_def fun_upd_twist fun_upd_idem)
  ultimately have "conc_steps (?S [demo_thread, demo_thread] ?p1) [Transmit 1 demo_env, Transmit 0 demo_env]
      (idle_conc [a, b] (demo_payload\<lparr>it_pos := 0\<rparr>))"
    by - (rule conc_more, assumption | rule conc_none)+
  from conc_steps_append [OF demo_draws this] show ?thesis
    by (intro exI [of _ "[a, b]"] exI [of _ "demo_payload\<lparr>it_pos := 0\<rparr>"]) (simp add: demo_trace_def)
qed

theorem conc_round_robin_witness:
  "reads demo_trace = [replicate 12 0 @ [15], replicate 12 0 @ [1]] \<and> length (calls demo_trace) = 2 \<and>
   (\<exists>ths1 pf1 th pf2. pool_run [(0, demo_env)] [demo_thread, demo_thread] demo_payload = Some (Inr (), ths1, pf1) \<and>
     pool_run [(0, demo_env), (1, demo_env)] [demo_thread, demo_thread] demo_payload = Some (Inr (), ths1[1 := th], pf2) \<and>
     sent demo_env (replicate 12 0 @ [1]) (ths1 ! 1) th)"
proof -
  obtain ths' pf' where d: "conc_steps (idle_conc [demo_thread, demo_thread] demo_payload) demo_trace (idle_conc ths' pf')"
    using demo_interleaving by (elim exE) (rule that)
  have r: "length (payload_cycle demo_payload) = 2" "payload_cycle demo_payload ! Suc 0 = replicate 12 0 @ [1]"
    "calls demo_trace = [(0, demo_env), (1, demo_env)]" "length (reads demo_trace) = 2"
    by (simp_all add: payload_cycle_def demo_payload_def demo_trace_def calls_def)
  note c = conc_round_robin [OF demo_pool_ok d r(1) [symmetric], unfolded r(3,4)]
  let ?c = "[(0 :: nat, demo_env), (1, demo_env)]"
  have "\<forall>k<2. \<exists>ths1 pf1 th pf2. pool_run (take k ?c) [demo_thread, demo_thread] demo_payload =
      Some (Inr (), ths1, pf1) \<and>
    pool_run (take (Suc k) ?c) [demo_thread, demo_thread] demo_payload =
      Some (Inr (), ths1[fst (?c ! k) := th], pf2) \<and>
    sent (snd (?c ! k)) (payload_cycle demo_payload ! (k mod 2))
      (ths1 ! fst (?c ! k)) th"
    by (rule c [THEN conjunct2, THEN conjunct1, THEN spec, THEN spec, THEN mp, OF refl, THEN conjunct2, THEN conjunct2])
  from this [rule_format, of 1] show ?thesis using r by (simp add: demo_trace_def)
qed

subsection \<open>No thread is ever stuck\<close>

text \<open>The next statement of a thread; \<open>env\<close> is the environment of a packet that is sent.\<close>

fun next_statement :: "send_env \<Rightarrow> nat \<Rightarrow> thread_pc \<Rightarrow> payload_file \<Rightarrow> conc_event" where
  "next_statement env i Outside pf = Lock i"
| "next_statement env i Locked pf = Read i (querycache pf ! it_pos pf)"
| "next_statement env i (Bound q) pf = Advance i"
| "next_statement env i (Advanced q) pf = Test i"
| "next_statement env i (Tested at_end q) pf = Reset i"
| "next_statement env i (Settled q) pf = Unlock i"
| "next_statement env i (Drawn q) pf = Transmit i env"

lemma conc_can_go_on:
  assumes "mutex_inv s" and "pool_wf (abs_pool s)" and "i < length (conc_threads s)"
    and "conc_pc s i \<noteq> Outside \<or> QueryMutex s = None"
  shows "\<exists>s'. conc_step s (next_statement env i (conc_pc s i) (conc_payload s)) s'"
proof (cases "conc_pc s i")
  case Locked
  have "QueryMutex s = Some i" using mutex_owner(1) [OF assms(1)] Locked by simp
  then have "payload_ready (conc_payload s)"
    using assms(2) Locked by (auto simp: pool_wf_def pool_inv_def supplied_def neq_Nil_conv abs_pool_def)
  then show ?thesis using conc_step.read [OF Locked _ refl] Locked by (auto simp: payload_ready_def)
next
  case (Drawn q)
  then have "thread_inv (conc_threads s ! i)" "query_wf (th_payloadIsPcap (conc_threads s ! i)) q"
    using assms(2,3) by (auto simp: pool_wf_def pool_inv_def abs_pool_def)
  then obtain th where "send_query env q (conc_threads s ! i) = (Inr (), th)" using send_query_ok by blast
  then show ?thesis using conc_step.transmit [OF Drawn] Drawn by auto
qed (use assms(3,4) in \<open>auto intro: conc_step.intros\<close>)

text \<open>How many statements the owner of the mutex is away from giving it back.\<close>

fun to_unlock :: "thread_pc \<Rightarrow> nat" where
  "to_unlock Locked = 5"
| "to_unlock (Bound q) = 4"
| "to_unlock (Advanced q) = 3"
| "to_unlock (Tested at_end q) = 2"
| "to_unlock (Settled q) = 1"
| "to_unlock _ = 0"

lemma owner_step:
  assumes "conc_step s (next_statement env j (conc_pc s j) (conc_payload s)) s'" and "critical (conc_pc s j)"
    and "QueryMutex s = Some j"
  shows "to_unlock (conc_pc s j) = Suc (to_unlock (conc_pc s' j))"
    and "QueryMutex s' = (if critical (conc_pc s' j) then Some j else None)"
    and "k \<noteq> j \<Longrightarrow> conc_pc s' k = conc_pc s k" and "conc_threads s' = conc_threads s"
  using assms by (cases "conc_pc s j"; auto elim!: conc_stepE)+

lemma owner_unlocks:
  assumes "mutex_inv s" and "pool_wf (abs_pool s)" and "QueryMutex s = Some j"
  shows "\<exists>us s'. conc_steps s us s' \<and> length us = to_unlock (conc_pc s j) \<and> QueryMutex s' = None \<and>
    (\<forall>k. k \<noteq> j \<longrightarrow> conc_pc s' k = conc_pc s k) \<and> conc_threads s' = conc_threads s"
  using assms
proof (induction "to_unlock (conc_pc s j)" arbitrary: s)
  case 0
  then show ?case using mutex_owner(2) [OF 0(2,4)] by (cases "conc_pc s j") simp_all
next
  case (Suc n)
  have c: "critical (conc_pc s j)" "j < length (conc_threads s)" "conc_pc s j \<noteq> Outside"
    using mutex_owner [OF Suc.prems(1), of j] Suc.prems(3) by (auto, metis critical.simps(1))
  obtain env :: send_env where True by blast
  obtain s1 where s1: "conc_step s (next_statement env j (conc_pc s j) (conc_payload s)) s1"
    using conc_can_go_on [OF Suc.prems(1,2) c(2)] c(3) by blast
  note o = owner_step [OF s1 c(1) Suc.prems(3)]
  have w: "mutex_inv s1" "pool_wf (abs_pool s1)"
    using mutex_inv_step [OF s1 Suc.prems(1)] pool_wf_steps [OF abs_step [OF s1 Suc.prems(1)] Suc.prems(2)] by simp_all
  show ?case
  proof (cases "critical (conc_pc s1 j)")
    case True
    then obtain us s' where "conc_steps s1 us s'" "length us = n" "QueryMutex s' = None"
        "\<forall>k. k \<noteq> j \<longrightarrow> conc_pc s' k = conc_pc s1 k" "conc_threads s' = conc_threads s1"
      using Suc.hyps(1) [of s1] Suc.hyps(2) o(1,2) w by auto
    then show ?thesis
      using conc_more [OF s1] o(3,4) Suc.hyps(2)
      by (intro exI [of _ "next_statement env j (conc_pc s j) (conc_payload s) # us"] exI [of _ s']) simp
  next
    case False
    then have "n = 0" using Suc.hyps(2) o(1) by (cases "conc_pc s1 j") simp_all
    then show ?thesis
      using conc_more [OF s1 conc_none] o(2-4) Suc.hyps(2) False
      by (intro exI [of _ "[next_statement env j (conc_pc s j) (conc_payload s)]"] exI [of _ s1]) simp
  qed
qed

text \<open>
  C24. No deadlock and no dying thread. For threads that are configured (destination set, source from
  the capture only with a capture payload) and a payload that is loaded: in every state that their
  interleaved statements reach, each thread that does not wait for the mutex can execute its next
  statement, whatever the random numbers, the clock and the kernel do, so no call of \<open>getQuery\<close> reads
  past the end and no call of \<open>sendPacket\<close> throws. A thread waits only while the mutex is taken, and
  then its owner gives it back after at most five further statements of its own.
\<close>

theorem conc_progress:
  assumes "pool_inv ths pf" and "conc_steps (idle_conc ths pf) es s" and "i < length ths"
  shows "(conc_pc s i \<noteq> Outside \<or> QueryMutex s = None \<longrightarrow>
      (\<exists>s'. conc_step s (next_statement env i (conc_pc s i) (conc_payload s)) s')) \<and>
    (\<forall>j. QueryMutex s = Some j \<longrightarrow> (\<exists>us s'. conc_steps s us s' \<and> length us \<le> 5 \<and> QueryMutex s' = None \<and>
      (\<forall>k. k \<noteq> j \<longrightarrow> conc_pc s' k = conc_pc s k) \<and> conc_threads s' = conc_threads s))"
proof (intro conjI allI impI)
  note w = conc_wf [OF assms(1,2)]
  show "\<exists>s'. conc_step s (next_statement env i (conc_pc s i) (conc_payload s)) s'"
    if "conc_pc s i \<noteq> Outside \<or> QueryMutex s = None"
    using conc_can_go_on [OF w(1,2) _ that] w(3) assms(3) by simp
  fix j
  assume "QueryMutex s = Some j"
  moreover have "to_unlock (conc_pc s j) \<le> 5" by (cases "conc_pc s j") simp_all
  ultimately show "\<exists>us s'. conc_steps s us s' \<and> length us \<le> 5 \<and> QueryMutex s' = None \<and>
      (\<forall>k. k \<noteq> j \<longrightarrow> conc_pc s' k = conc_pc s k) \<and> conc_threads s' = conc_threads s"
    using owner_unlocks [OF w(1,2)] by metis
qed

text \<open>The first thread has its query, the second one is behind \<open>lock\<close>.\<close>

lemma demo_locked:
  "conc_steps (idle_conc [demo_thread, demo_thread] demo_payload) (take 7 demo_trace)
     \<lparr>conc_threads = [demo_thread, demo_thread],
      conc_pc = (\<lambda>_. Outside)(0 := Drawn (replicate 12 0 @ [15]), Suc 0 := Locked),
      QueryMutex = Some 1, conc_payload = demo_payload\<lparr>it_pos := 1\<rparr>\<rparr>"
proof -
  let ?s = "\<lparr>conc_threads = [demo_thread, demo_thread], conc_pc = (\<lambda>_. Outside)(0 := Drawn (replicate 12 0 @ [15])),
    QueryMutex = None, conc_payload = demo_payload\<lparr>it_pos := 1\<rparr>\<rparr>"
  have g: "getQuery demo_payload = Inr (replicate 12 0 @ [15], demo_payload\<lparr>it_pos := 1\<rparr>)"
    by (simp add: getQuery_def demo_payload_def)
  have "conc_steps ?s [Lock 1] \<lparr>conc_threads = [demo_thread, demo_thread],
      conc_pc = (\<lambda>_. Outside)(0 := Drawn (replicate 12 0 @ [15]), Suc 0 := Locked),
      QueryMutex = Some 1, conc_payload = demo_payload\<lparr>it_pos := 1\<rparr>\<rparr>"
    using conc_more [OF conc_step.lock [of 1 ?s] conc_none] by simp
  from conc_steps_append [OF getQuery_statements [of 0 "[demo_thread, demo_thread]" "\<lambda>_. Outside", OF _ _ g] this]
  show ?thesis by (simp add: idle_conc_def demo_trace_def)
qed

theorem conc_progress_witness:
  "\<exists>s. conc_steps (idle_conc [demo_thread, demo_thread] demo_payload) (take 7 demo_trace) s \<and>
     (\<exists>s'. conc_step s (Transmit 0 demo_env) s') \<and>
     (\<exists>us s'. conc_steps s us s' \<and> length us \<le> 5 \<and> QueryMutex s' = None)"
  using demo_locked conc_progress [OF demo_pool_ok demo_locked, of 0 demo_env] by auto

end
