(* ===== verification/Bpf_Receiver.thy ===== *)
theory Bpf_Receiver
  imports Raw_Socket_Receiver
begin

text \<open>
  \<open>src/src/raw_socket_receiver.cpp\<close>, the FreeBSD side: the filter program that \<open>setSource\<close> hands to
  the kernel, and the loops over the buffers the packet filter device fills. The machine that runs
  the program is part of the kernel; its documented instruction semantics is the contract
  \<open>bpf_machine\<close>.
\<close>

subsection \<open>The filter program\<close>

text \<open>The instructions the program is made of; the last two numbers of a jump count the skipped instructions.\<close>

datatype bpf_size = BPF_W | BPF_H | BPF_B

datatype bpf_insn =
    BPF_LD_ABS bpf_size nat
  | BPF_JEQ u32 nat nat
  | BPF_RET u32

definition filter_program :: "ip_address \<Rightarrow> int \<Rightarrow> bpf_insn list" where
  "filter_program ip port =
     (let sip = htonl (addr ip)
      in [BPF_LD_ABS BPF_H 12,
          BPF_JEQ 0x0800 0 7,
          BPF_LD_ABS BPF_W 26,
          BPF_JEQ sip 0 5,
          BPF_LD_ABS BPF_B 23,
          BPF_JEQ 17 0 3,
          BPF_LD_ABS BPF_H 34,
          BPF_JEQ (word_of_int port) 0 1,
          BPF_RET (-1),
          BPF_RET 0])"

text \<open>\<open>setSource\<close> on FreeBSD; \<open>ret\<close> is the return value of the \<open>ioctl\<close> that installs the program.\<close>

definition bpf_setSource :: "int \<Rightarrow> ip_address \<Rightarrow> int \<Rightarrow> receiver \<Rightarrow> (receiver \<times> bpf_insn list) result" where
  "bpf_setSource ret ip port r =
     (let r = rcv_setSource ip port r
      in if ret < 0 then Inl FailedToInitializePacketfilter else Inr (r, filter_program ip port))"

subsection \<open>Captured buffers\<close>

text \<open>
  \<open>struct bpf_hdr\<close> on 64-bit FreeBSD: a time stamp of 16 bytes, \<open>bh_caplen\<close> at 16, \<open>bh_datalen\<close> at
  20, \<open>bh_hdrlen\<close> at 24. \<open>BPF_WORDALIGN\<close> rounds up to a multiple of eight; the sum of its argument
  is computed in 32 bits.
\<close>

definition bpf_wordalign :: "u64 \<Rightarrow> u64" where
  "bpf_wordalign x = (x + 7) AND NOT 7"

text \<open>
  \<open>read_buffer\<close>: \<open>mem\<close> is the memory from the first record on, \<open>don\<close> the bytes that are done and
  \<open>now don\<close> the clock of that round. A chunk of size zero would be repeated for ever: \<open>None\<close>.
\<close>

function read_buffer ::
  "(nat \<Rightarrow> timeval option) \<Rightarrow> bytes \<Rightarrow> nat \<Rightarrow> nat \<Rightarrow> counter \<Rightarrow> counter result option" where
  "read_buffer now mem sz don c =
     (if \<not> don < sz then Some (Inr c)
      else if length mem < don + 26 then Some (Inl UndefinedBehaviour)
      else
        let bh_caplen = load32 (don + 16) mem; bh_datalen = load32 (don + 20) mem; bh_hdrlen = load16 (don + 24) mem
        in if bh_caplen = 0 \<or> bh_hdrlen = 0 then Some (Inr c)
           else
             let chunk_size = bpf_wordalign (ucast (bh_caplen + ucast bh_hdrlen))
             in case count_packet (now don) c (drop (don + unat bh_hdrlen) mem) (chunk_size - ucast bh_datalen) of
                  Inl e \<Rightarrow> Some (Inl e)
                | Inr c \<Rightarrow> if chunk_size = 0 then None else read_buffer now mem sz (don + unat chunk_size) c)"
  by pat_completeness auto
termination
  by (relation "measure (\<lambda>(now, mem, sz, don, c). sz - don)")      (auto intro!: diff_less_mono2 simp: unat_gt_0)

declare read_buffer.simps [simp del]






text \<open>\<open>receive\<close> with one buffer of 8192 bytes; \<open>None\<close> of the argument: \<open>read\<close> failed.\<close>

definition receive_bpf ::
  "(nat \<Rightarrow> timeval option) \<Rightarrow> bytes option \<Rightarrow> receiver \<Rightarrow> counter \<Rightarrow> (receiver \<times> counter result) option" where
  "receive_bpf now delivered r c =
     (case delivered of
        None \<Rightarrow> Some (r, Inr c)
      | Some f \<Rightarrow>
          let d = take 8192 f; mem = blit 0 d (rbuffer r); r = r\<lparr>rbuffer := mem\<rparr>
          in if length d < 34 then Some (r, Inr c)
             else case read_buffer now mem (length d) 0 c of
                    None \<Rightarrow> None
                  | Some x \<Rightarrow> Some (r, x))"

subsection \<open>The machine of the packet filter\<close>

text \<open>
  The value a load instruction fetches, in network order; a load outside of the packet ends the
  program with the result zero.
\<close>

definition bpf_fetch :: "bpf_size \<Rightarrow> nat \<Rightarrow> bytes \<Rightarrow> u32 option" where
  "bpf_fetch s off f =
     (case s of
        BPF_W \<Rightarrow> if off + 4 \<le> length f then Some (word_of_nat (65536 * be16 off f + be16 (off + 2) f)) else None
      | BPF_H \<Rightarrow> if off + 2 \<le> length f then Some (word_of_nat (be16 off f)) else None
      | BPF_B \<Rightarrow> if off < length f then Some (ucast (f ! off)) else None)"

text \<open>The reference for the filter: an IPv4 frame from the server's address, UDP, from its port.\<close>

definition udp_frame_from :: "u32 \<Rightarrow> nat \<Rightarrow> bytes \<Rightarrow> bool" where
  "udp_frame_from src port f \<longleftrightarrow>
     36 \<le> length f \<and> be16 12 f = 0x0800 \<and> load32 26 f = src \<and> f ! 23 = 17 \<and> be16 34 f = port"

text \<open>
  A machine runs a program on a packet from an instruction on, with a value in its accumulator; it
  returns a number, the bytes to keep of the packet, or nothing when a jump leaves the program.
\<close>

locale bpf_machine =
  fixes run :: "bpf_insn list \<Rightarrow> bytes \<Rightarrow> nat \<Rightarrow> u32 \<Rightarrow> u32 option"
  assumes run_step: "pc < length prog \<Longrightarrow> run prog f pc acc =
    (case prog ! pc of
       BPF_LD_ABS s off \<Rightarrow> (case bpf_fetch s off f of None \<Rightarrow> Some 0 | Some v \<Rightarrow> run prog f (pc + 1) v)
     | BPF_JEQ k jt jf \<Rightarrow> run prog f (pc + 1 + (if acc = k then jt else jf)) acc
     | BPF_RET k \<Rightarrow> Some k)"
    and run_outside: "\<not> pc < length prog \<Longrightarrow> run prog f pc acc = None"
begin

lemma filter_run:
  "run (filter_program ip port) f 0 acc =
     Some (if 36 \<le> length f \<and> bpf_fetch BPF_H 12 f = Some 0x0800 \<and> bpf_fetch BPF_W 26 f = Some (htonl (addr ip)) \<and>
         bpf_fetch BPF_B 23 f = Some 17 \<and> bpf_fetch BPF_H 34 f = Some (word_of_int port)
      then -1 else 0)"
proof -
  let ?p = "filter_program ip port"
  have reject: "run ?p f 9 a = Some 0" and accept: "run ?p f 8 a = Some (-1)" for a
    using run_step [of 9 ?p f a] run_step [of 8 ?p f a] by (simp_all add: filter_program_def)
  have pt: "run ?p f 6 a = Some (if bpf_fetch BPF_H 34 f = Some (word_of_int port) then -1 else 0)" for a
    using run_step [of 6 ?p f a] run_step [of 7 ?p f] accept reject
    by (auto simp: filter_program_def split: option.splits)
  have pr: "run ?p f 4 a = (if bpf_fetch BPF_B 23 f = Some 17 then run ?p f 6 17 else Some 0)" for a
    using run_step [of 4 ?p f a] run_step [of 5 ?p f] reject
    by (auto simp: filter_program_def split: option.splits)
  have ad: "run ?p f 2 a = (if bpf_fetch BPF_W 26 f = Some (htonl (addr ip)) then run ?p f 4 (htonl (addr ip)) else Some 0)" for a
    using run_step [of 2 ?p f a] run_step [of 3 ?p f] reject
    by (auto simp: filter_program_def split: option.splits)
  have "run ?p f 0 acc = (if bpf_fetch BPF_H 12 f = Some 0x0800 then run ?p f 2 0x0800 else Some 0)"
    using run_step [of 0 ?p f acc] run_step [of 1 ?p f] reject
    by (auto simp: filter_program_def split: option.splits simp flip: numeral_2_eq_2)
  moreover have "36 \<le> length f" if "bpf_fetch BPF_H 34 f = Some (word_of_int port)"
    using that by (auto simp: bpf_fetch_def split: if_splits)
  ultimately show ?thesis by (auto simp: ad pr pt)
qed

end

text \<open>An interpreter that meets the contract.\<close>

function bpf_exec :: "bpf_insn list \<Rightarrow> bytes \<Rightarrow> nat \<Rightarrow> u32 \<Rightarrow> u32 option" where
  "bpf_exec prog f pc acc =
     (if pc < length prog then
        case prog ! pc of
          BPF_LD_ABS s off \<Rightarrow> (case bpf_fetch s off f of None \<Rightarrow> Some 0 | Some v \<Rightarrow> bpf_exec prog f (pc + 1) v)
        | BPF_JEQ k jt jf \<Rightarrow> bpf_exec prog f (pc + 1 + (if acc = k then jt else jf)) acc
        | BPF_RET k \<Rightarrow> Some k
      else None)"
  by pat_completeness auto
termination
  by (relation "measure (\<lambda>(prog, f, pc, acc). length prog - pc)") auto

declare bpf_exec.simps [simp del]

interpretation bpf: bpf_machine bpf_exec
  by unfold_locales (simp_all add: bpf_exec.simps)

lemma fetch_word: "off + 4 \<le> length f \<Longrightarrow> bpf_fetch BPF_W off f = Some (htonl (load32 off f))"
proof -
  assume "off + 4 \<le> length f"
  moreover have "unat (htonl (load32 off f)) = 65536 * be16 off f + be16 (off + 2) f"
    by (simp add: htonl_def load32_def unat_le32 be16_load16)
  then have "word_of_nat (65536 * be16 off f + be16 (off + 2) f) = htonl (load32 off f)"
    by (metis of_nat_unat ucast_id)
  ultimately show ?thesis by (simp add: bpf_fetch_def)
qed

lemma be16_lt: "be16 off f < 65536"
  by (simp add: be16_load16)

lemma fetch_half: "off + 2 \<le> length f \<Longrightarrow> n < 65536 \<Longrightarrow> bpf_fetch BPF_H off f = Some (word_of_nat n) \<longleftrightarrow> be16 off f = n"
proof -
  assume a: "off + 2 \<le> length f" "n < 65536"
  have "unat (word_of_nat k :: u32) = k" if "k < 65536" for k
    using that by (simp add: unat_of_nat)
  then have "(word_of_nat (be16 off f) :: u32) = word_of_nat n \<longleftrightarrow> be16 off f = n"
    using a(2) be16_lt [of off f] by (metis word_unat_eq_iff)
  then show ?thesis using a(1) by (simp add: bpf_fetch_def)
qed

lemma filter_accepts:
  assumes "0 \<le> port" and "port < 65536"
  shows "bpf_exec (filter_program ip port) f 0 acc = Some (if udp_frame_from (addr ip) (nat port) f then -1 else 0)"
proof (cases "36 \<le> length f")
  case True
  have "(word_of_int port :: u32) = word_of_nat (nat port)" using assms(1) by simp
  then have "bpf_fetch BPF_H 34 f = Some (word_of_int port) \<longleftrightarrow> be16 34 f = nat port"
    using fetch_half [of 34 f "nat port"] True assms by simp
  moreover have "bpf_fetch BPF_H 12 f = Some 0x0800 \<longleftrightarrow> be16 12 f = 0x0800"
    using fetch_half [of 12 f 2048] True by simp
  moreover have "bpf_fetch BPF_W 26 f = Some (htonl (addr ip)) \<longleftrightarrow> load32 26 f = addr ip"
    using True by (simp add: fetch_word htonl_inject)
  moreover have "bpf_fetch BPF_B 23 f = Some 17 \<longleftrightarrow> f ! 23 = 17"
  proof -
    have "(ucast (f ! 23) :: u32) = 17 \<longleftrightarrow> unat (f ! 23) = 17"
      by (simp only: word_unat_eq_iff unat_ucast_mod) (simp add: less_trans [OF byte_lt])
    then show ?thesis using True by (simp add: bpf_fetch_def word_unat_eq_iff)
  qed
  ultimately show ?thesis by (simp add: bpf.filter_run udp_frame_from_def True)
next
  case False
  then show ?thesis by (simp add: bpf.filter_run udp_frame_from_def)
qed

text \<open>
  C22. The filter program answers every frame, for every address and port: it returns the number that
  keeps a whole packet exactly for the frames that carry an IPv4 packet from the server's address with
  protocol UDP and the server's port as source port, and zero for all others, the ones that are too
  short included. In particular no jump of it leaves the program, which would give no number at all.
\<close>

theorem bpf_filter_correct:
  assumes "0 \<le> port" and "port < 65536" and "bpf_setSource ret ip port r = Inr (r', prog)"
  shows "bpf_exec prog f 0 0 = Some (if udp_frame_from (addr ip) (nat port) f then -1 else 0)"
  using filter_accepts [OF assms(1,2)] assms(3) by (auto simp: bpf_setSource_def Let_def split: if_splits)

theorem bpf_filter_correct_witness:
  "\<exists>r' prog. bpf_setSource 0 \<lparr>family = IPv4, addr = 0x0100a8c0\<rparr> 53 (rt_socket demo_receiver) = Inr (r', prog) \<and>
     bpf_exec prog (demo_answer 17 0 0) 0 0 = Some (-1) \<and> bpf_exec prog (demo_answer 6 0 0) 0 0 = Some 0"
proof -
  obtain r' prog where s: "bpf_setSource 0 \<lparr>family = IPv4, addr = 0x0100a8c0\<rparr> 53 (rt_socket demo_receiver) = Inr (r', prog)"
    by (simp add: bpf_setSource_def Let_def)
  have "udp_frame_from 0x0100a8c0 53 (demo_answer p 0 0) \<longleftrightarrow> p = 17" for p
    using demo_answer_ok [of p 0 0] by (simp add: udp_frame_from_def frame_from_def)
  then show ?thesis
    using s bpf_filter_correct [OF _ _ s, of "demo_answer 17 0 0"] bpf_filter_correct [OF _ _ s, of "demo_answer 6 0 0"]
    by auto
qed

text \<open>
  The two platforms differ: the Linux receiver does not test the protocol, so a TCP segment from
  port 53 of the server, which the FreeBSD filter rejects, is counted as an answer.
\<close>

theorem linux_counts_non_udp:
  "\<exists>f t'. f ! 23 = 6 \<and> rt_run [demo_round f True] demo_receiver = Some (Inr (), t') \<and> getPacketsReceived t' = 1 \<and>
     bpf_exec (filter_program (SourceIP (rt_socket demo_receiver)) 53) f 0 0 = Some 0"
proof -
  let ?f = "demo_answer 6 0 0" and ?t = "demo_receiver\<lparr>rt_counter := Counter_clear (rt_counter demo_receiver)\<rparr>"
  have l: "listens 0x0100a8c0 53 (rt_socket ?t)" using demo_receiver_ok(1) by simp
  have "full_frames ([] @ [demo_round ?f True])" "rcv_stop (demo_round ?f True)" "\<forall>x\<in>set []. \<not> rcv_stop x"
    by (simp_all add: full_frames_def demo_round_def demo_answer_ok)
  from rcv_loop_eq [OF l this(1,3,2), of "[]"]
  obtain s where r: "rt_run [demo_round ?f True] demo_receiver = Some (Inr (), demo_receiver\<lparr>rt_socket := s,
      rt_counter := fold observe (answers 0x0100a8c0 53 [demo_round ?f True]) (Counter_clear (rt_counter demo_receiver))\<rparr>)"
    by (auto simp: rt_run_def)
  have "answers 0x0100a8c0 53 [demo_round ?f True] = [(Some \<lparr>tv_sec = 1, tv_usec = 500\<rparr>, ?f)]"
    by (simp add: answers_def round_answers_def demo_round_def demo_answer_ok)
  with r obtain t' where "rt_run [demo_round ?f True] demo_receiver = Some (Inr (), t')" "getPacketsReceived t' = 1"
    by (auto simp: getPacketsReceived_def observe_def Counter_clear_def)
  moreover have "bpf_exec (filter_program ip 53) ?f 0 0 = Some 0" for ip
    using filter_accepts [of 53 ip ?f 0] by (simp add: udp_frame_from_def demo_answer_ok)
  ultimately show ?thesis using demo_answer_ok(5) [of 6 0 0] by blast
qed

subsection \<open>What is counted from a captured buffer\<close>

text \<open>
  The reference: the bytes the device writes for a captured frame \<open>f\<close> with time stamp \<open>ts\<close>: the
  header, the frame, and padding up to a multiple of eight.
\<close>

definition align8 :: "nat \<Rightarrow> nat" where
  "align8 n = (n + 7) div 8 * 8"

definition le_bytes32 :: "u32 \<Rightarrow> bytes" where
  "le_bytes32 w = [lo8 (lo16 w), hi8 (lo16 w), lo8 (hi16 w), hi8 (hi16 w)]"

definition chunk_of :: "bytes \<Rightarrow> nat" where
  "chunk_of f = align8 (26 + length f)"

definition bpf_record :: "bytes \<Rightarrow> bytes \<Rightarrow> bytes" where
  "bpf_record ts f =
     ts @ le_bytes32 (word_of_nat (length f)) @ le_bytes32 (word_of_nat (length f)) @ [26, 0] @ f @
     replicate (chunk_of f - (26 + length f)) 0"

definition capturable :: "bytes \<times> bytes \<Rightarrow> bool" where
  "capturable r \<longleftrightarrow> length (fst r) = 16 \<and> 46 \<le> length (snd r) \<and> length (snd r) < 65536"

lemma align8_ge: "n \<le> align8 n"
  by (simp add: align8_def)

lemma length_bpf_record: "capturable (ts, f) \<Longrightarrow> length (bpf_record ts f) = chunk_of f"
  using align8_ge [of "26 + length f"] by (simp add: bpf_record_def capturable_def le_bytes32_def chunk_of_def)

lemma unat_and_not_7: "unat (x AND NOT 7 :: u64) = unat x div 8 * 8"
proof -
  have m: "(7 :: u64) = mask 3" by (simp add: mask_numeral)
  have "x AND NOT (mask 3) = push_bit 3 (drop_bit 3 x)" by (intro bit_word_eqI) (auto simp: bit_simps)
  then have "x AND NOT 7 = drop_bit 3 x * 8" unfolding m by (simp add: push_bit_eq_mult)
  moreover have "unat x div 8 * 8 < 18446744073709551616"
    using u64_lt [of x] by (meson div_times_less_eq_dividend le_less_trans)
  ultimately show ?thesis by (simp add: unat_word_ariths unat_drop_bit_div)
qed

lemma unat_wordalign: "n < 2 ^ 32 \<Longrightarrow> bpf_wordalign (word_of_nat n) = word_of_nat (align8 n)"
proof -
  assume n: "n < 2 ^ 32"
  have "unat (word_of_nat n + 7 :: u64) = n + 7"
    using n by (simp add: unat_word_ariths unat_of_nat)
  then have "unat (bpf_wordalign (word_of_nat n)) = align8 n"
    by (simp only: bpf_wordalign_def unat_and_not_7 align8_def)
  then show ?thesis by (metis of_nat_unat ucast_id)
qed

lemma load_record:
  assumes "capturable (ts, f)" and "mem = pre @ bpf_record ts f @ post"
  shows "load32 (length pre + 16) mem = word_of_nat (length f)" and "load32 (length pre + 20) mem = word_of_nat (length f)"
    and "load16 (length pre + 24) mem = 26" and "length pre + 26 \<le> length mem"
    and "drop (length pre + 26) mem = f @ replicate (chunk_of f - (26 + length f)) 0 @ post"
proof -
  have "le16 26 0 = 26" by (simp add: le16_def)
  then show "load32 (length pre + 16) mem = word_of_nat (length f)"
    and "load32 (length pre + 20) mem = word_of_nat (length f)"
    and "load16 (length pre + 24) mem = 26" and "length pre + 26 \<le> length mem"
    and "drop (length pre + 26) mem = f @ replicate (chunk_of f - (26 + length f)) 0 @ post"
    using assms by (simp_all add: bpf_record_def capturable_def le_bytes32_def load32_def load16_def nth_append)
qed

lemma read_buffer_record:
  assumes cap: "capturable (ts, f)" and mem: "mem = pre @ bpf_record ts f @ post" and "length pre < sz"
  shows "read_buffer now mem sz (length pre) c = read_buffer now mem sz (length pre + chunk_of f)
    ((observe (now (length pre), f) c)\<lparr>bytes_rcv := bytes_rcv c + word_of_nat (chunk_of f - length f)\<rparr>)"
proof -
  note l = load_record [OF cap mem]
  have f: "46 \<le> length f" "length f < 65536" using cap by (simp_all add: capturable_def)
  have u: "(word_of_nat (length f) :: u32) + 26 = word_of_nat (26 + length f)" by simp
  have w: "(ucast (word_of_nat k :: u32) :: u64) = word_of_nat k" if "k < 2 ^ 32" for k
    using that by (simp add: word_unat_eq_iff unat_ucast_mod unat_of_nat)
  have chunk: "bpf_wordalign (ucast ((word_of_nat (length f) :: u32) + 26)) = word_of_nat (chunk_of f)"
  proof -
    have k: "26 + length f < 2 ^ 32" using f by simp
    show ?thesis unfolding u w [OF k] unat_wordalign [OF k] chunk_of_def ..
  qed
  have ge: "26 + length f \<le> chunk_of f" unfolding chunk_of_def by (rule align8_ge)
  have "chunk_of f \<le> 26 + length f + 7" unfolding chunk_of_def align8_def by simp
  then have lt: "chunk_of f < 2 ^ 32" using f by simp
  then have uc: "unat (word_of_nat (chunk_of f) :: u64) = chunk_of f" by (intro unat_of_nat_u64) simp
  then have nz: "(word_of_nat (chunk_of f) :: u64) \<noteq> 0" using ge f by (metis add_is_0 le_zero_eq unat_0 zero_neq_numeral)
  have n0: "(word_of_nat (length f) :: u32) \<noteq> 0"
    using f by (auto simp: word_unat_eq_iff unat_of_nat)
  have sz: "(word_of_nat (chunk_of f) :: u64) - ucast (word_of_nat (length f) :: u32) = word_of_nat (chunk_of f - length f)"
    using ge f by (simp add: w of_nat_diff)
  show ?thesis
    by (subst read_buffer.simps)
       (use assms(3) l f in \<open>simp add: Let_def not_less chunk sz uc nz n0 count_packet_append\<close>)
qed

fun captured :: "(nat \<Rightarrow> timeval option) \<Rightarrow> nat \<Rightarrow> (bytes \<times> bytes) list \<Rightarrow> counter \<Rightarrow> counter" where
  "captured now don [] c = c"
| "captured now don ((ts, f) # rs) c =
     captured now (don + chunk_of f) rs
       ((observe (now don, f) c)\<lparr>bytes_rcv := bytes_rcv c + word_of_nat (chunk_of f - length f)\<rparr>)"

definition records :: "(bytes \<times> bytes) list \<Rightarrow> bytes" where
  "records rs = concat (map (\<lambda>(ts, f). bpf_record ts f) rs)"

lemma records_simps [simp]: "records [] = []" "records ((ts, f) # rs) = bpf_record ts f @ records rs"
  by (simp_all add: records_def)

lemma read_buffer_records:
  assumes "\<forall>r\<in>set rs. capturable r" and "mem = pre @ records rs @ rest" and "sz = length pre + length (records rs)"
  shows "read_buffer now mem sz (length pre) c = Some (Inr (captured now (length pre) rs c))"
  using assms
proof (induction rs arbitrary: pre c)
  case Nil
  then show ?case by (simp add: read_buffer.simps)
next
  case (Cons r rs)
  obtain ts f where r: "r = (ts, f)" by (cases r)
  have cap: "capturable (ts, f)" using Cons.prems(1) r by simp
  have mem: "mem = pre @ bpf_record ts f @ records rs @ rest" using Cons.prems(2) r by simp
  have len: "length (bpf_record ts f) = chunk_of f" by (rule length_bpf_record [OF cap])
  then have lt: "length pre < sz"
    using align8_ge [of "26 + length f"] Cons.prems(3) by (simp add: r chunk_of_def)
  show ?case
    using read_buffer_record [OF cap mem lt, of now c] Cons.IH [of "pre @ bpf_record ts f"] Cons.prems(1,3)
    by (simp add: mem len r)
qed

lemma captured_counts:
  assumes "length (rcodes c) = 16"
  shows "length (rcodes (captured now don rs c)) = 16 \<and> num_pkgs (captured now don rs c) = num_pkgs c + of_nat (length rs) \<and>
    bytes_rcv (captured now don rs c) = bytes_rcv c + of_nat (sum_list (map (\<lambda>(ts, f). chunk_of f - length f) rs)) \<and>
    (\<forall>i<16. rcodes (captured now don rs c) ! i =
      rcodes c ! i + of_nat (length (filter (\<lambda>(ts, f). frame_rcode f = i) rs)))"
  using assms
proof (induction now don rs c rule: captured.induct)
  case (2 now don ts f rs c)
  have l: "length (rcodes (observe (now don, f) c)) = 16" using "2.prems" by (simp add: observe_def)
  have "frame_rcode f < 16" by (simp add: frame_rcode_def)
  then show ?case
    using "2.IH" "2.prems" l by (auto simp: observe_def nth_list_update algebra_simps)
qed simp

text \<open>
  C32. The loop over a captured buffer visits every record exactly once and ends: each frame is one
  packet with its response code. The size it adds is not the length of the frame but what is left of
  the record without it, the header and the padding.
\<close>

theorem read_buffer_counts:
  assumes "\<forall>r\<in>set rs. capturable r" and "mem = concat (map (\<lambda>(ts, f). bpf_record ts f) rs)"
    and "length (rcodes c) = 16"
  shows "\<exists>c'. read_buffer now mem (length mem) 0 c = Some (Inr c') \<and>
    num_pkgs c' = num_pkgs c + of_nat (length rs) \<and>
    bytes_rcv c' = bytes_rcv c + of_nat (sum_list (map (\<lambda>(ts, f). align8 (26 + length f) - length f) rs)) \<and>
    (\<forall>i<16. rcodes c' ! i = rcodes c ! i + of_nat (length (filter (\<lambda>(ts, f). frame_rcode f = i) rs)))"
  using read_buffer_records [OF assms(1), of mem "[]" "[]" _ now c] captured_counts [OF assms(3), of now 0 rs] assms(2)
  by (simp add: chunk_of_def records_def)

theorem read_buffer_counts_witness:
  "\<exists>c'. read_buffer (\<lambda>_. None) (concat (map (\<lambda>(ts, f). bpf_record ts f) [(replicate 16 0, demo_answer 17 0 0)])) 88 0
       (Counter_new (replicate 16 0)) = Some (Inr c') \<and> num_pkgs c' = 1 \<and> bytes_rcv c' = 28"
proof -
  let ?rs = "[(replicate 16 0, demo_answer 17 0 0)]" and ?c = "Counter_new (replicate 16 0)"
  have c: "capturable (replicate 16 0, demo_answer 17 0 0)" by (simp add: capturable_def demo_answer_ok)
  then have "\<forall>r\<in>set ?rs. capturable r" by simp
  moreover have "length (concat (map (\<lambda>(ts, f). bpf_record ts f) ?rs)) = 88"
    using length_bpf_record [OF c] by (simp add: chunk_of_def demo_answer_ok align8_def)
  moreover have "length (rcodes ?c) = 16" "num_pkgs ?c = 0" "bytes_rcv ?c = 0" by (simp_all add: Counter_new_def)
  ultimately show ?thesis
    using read_buffer_counts [of ?rs _ ?c "\<lambda>_. None", OF _ refl] by (simp add: demo_answer_ok align8_def) blast
qed













end
