(* ===== verification/Lifetime.thy ===== *)
theory Lifetime
  imports Dns_Prelude
begin

text \<open>
  The memory and the descriptors of the program's objects: the constructors and destructors of
  \<open>RawSocketSender\<close>, \<open>Packet\<close>, \<open>DNSSenderThread\<close> and \<open>RawSocketReceiver\<close> (on Linux and on FreeBSD, with
  the packet filter device) and of the objects that \<open>DNSSender::main\<close> creates. Every constructor acquires
  several resources and may fail after each of them; the contract of a class says that a constructor
  that throws leaves nothing behind and that the destructor returns exactly what the constructor took.
\<close>

subsection \<open>The operating system\<close>

text \<open>
  The allocated blocks, the open descriptors and the next address. A call of \<open>open\<close> or \<open>socket\<close> returns
  the lowest descriptor that is not open.
\<close>

record os =
  blocks :: "nat list"
  fds :: "int list"
  brk :: nat

text \<open>
  The outcomes of the system calls: of the allocation at an address, of \<open>socket\<close> for the descriptor it
  would return, of \<open>open\<close> for the packet filter devices, and the return values of \<open>setsockopt\<close>, \<open>fcntl\<close>
  and \<open>ioctl\<close> for a descriptor.
\<close>

datatype ioctl =
    BIOCSETBUFMODE_ZBUF
  | BIOCSETBUFMODE_BUFFER
  | BIOCSTSTAMP
  | BIOCSETZBUF nat
  | BIOCSBLEN nat
  | BIOCSETIF string
  | BIOCPROMISC
  | BIOCSETF

record sys_env =
  sys_alloc :: "nat \<Rightarrow> bool"
  sys_socket :: "int \<Rightarrow> bool"
  sys_open :: "nat \<Rightarrow> bool"
  sys_setsockopt :: "int \<Rightarrow> int"
  sys_fcntl :: "int \<Rightarrow> int"
  sys_ioctl :: "int \<Rightarrow> ioctl \<Rightarrow> int"

text \<open>Actions: they change the state and return or throw.\<close>

type_synonym 'a act = "os \<Rightarrow> 'a result \<times> os"

definition ret :: "'a \<Rightarrow> 'a act" where
  "ret a s = (Inr a, s)"

definition throw :: "exn \<Rightarrow> 'a act" where
  "throw e s = (Inl e, s)"

definition bindA :: "'a act \<Rightarrow> ('a \<Rightarrow> 'b act) \<Rightarrow> 'b act" where
  "bindA c f s = (case c s of (Inl e, s) \<Rightarrow> (Inl e, s) | (Inr a, s) \<Rightarrow> f a s)"

text \<open>\<open>try\<close> and \<open>catch\<close>: the handler does not run after undefined behaviour.\<close>

definition attempt :: "'a act \<Rightarrow> ('a \<Rightarrow> 'b act) \<Rightarrow> (exn \<Rightarrow> 'b act) \<Rightarrow> 'b act" where
  "attempt c f g s =
     (case c s of
        (Inr a, s) \<Rightarrow> f a s
      | (Inl e, s) \<Rightarrow> if e = UndefinedBehaviour then (Inl e, s) else g e s)"

definition malloc :: "sys_env \<Rightarrow> nat option act" where
  "malloc env s =
     (let p = brk s
      in if sys_alloc env p then (Inr (Some p), s\<lparr>blocks := p # blocks s, brk := p + 1\<rparr>)
         else (Inr None, s\<lparr>brk := p + 1\<rparr>))"

definition free :: "nat \<Rightarrow> unit act" where
  "free p s =
     (if p \<in> set (blocks s) then (Inr (), s\<lparr>blocks := removeAll p (blocks s)\<rparr>) else (Inl UndefinedBehaviour, s))"

text \<open>The allocation of every constructor: no memory is an exception.\<close>

definition alloc :: "sys_env \<Rightarrow> nat act" where
  "alloc env = bindA (malloc env) (\<lambda>p. case p of None \<Rightarrow> throw OutOfMemoryException | Some p \<Rightarrow> ret p)"

definition lowest_free :: "int list \<Rightarrow> int" where
  "lowest_free ds = hd (filter (\<lambda>n. n \<notin> set ds) (map int [0..<Suc (length ds)]))"

definition open_fd :: "(int \<Rightarrow> bool) \<Rightarrow> int act" where
  "open_fd ok s = (let fd = lowest_free (fds s) in if ok fd then (Inr fd, s\<lparr>fds := fd # fds s\<rparr>) else (Inr (-1), s))"

definition close_fd :: "int \<Rightarrow> unit act" where
  "close_fd fd s = (Inr (), s\<lparr>fds := removeAll fd (fds s)\<rparr>)"

subsection \<open>The senders\<close>

text \<open>An object is given by what it owns: the address of its buffer and its descriptor.\<close>

definition RawSocketSender_ctor :: "sys_env \<Rightarrow> (nat \<times> int) act" where
  "RawSocketSender_ctor env =
     bindA (alloc env) (\<lambda>buffer.
     bindA (open_fd (sys_socket env)) (\<lambda>sd.
       if sd = -1 then bindA (free buffer) (\<lambda>_. throw Ppl7Exception)
       else if sys_setsockopt env sd < 0 then bindA (close_fd sd) (\<lambda>_. bindA (free buffer) (\<lambda>_. throw Ppl7Exception))
       else ret (buffer, sd)))"

definition RawSocketSender_dtor :: "nat \<times> int \<Rightarrow> unit act" where
  "RawSocketSender_dtor ob = bindA (close_fd (snd ob)) (\<lambda>_. free (fst ob))"

definition Packet_ctor :: "sys_env \<Rightarrow> nat act" where
  "Packet_ctor env = alloc env"

definition Packet_dtor :: "nat \<Rightarrow> unit act" where
  "Packet_dtor buffer = free buffer"

text \<open>
  A class with two parts: when the second constructor throws, the first part is destroyed; the
  destructor runs in the opposite order. A body of a constructor that acquires a resource is the last
  part. \<open>new\<close> is the same with the storage of the object as the first part.
\<close>

definition members :: "'a act \<Rightarrow> ('a \<Rightarrow> unit act) \<Rightarrow> 'b act \<Rightarrow> ('a \<times> 'b) act" where
  "members ctor1 dtor1 ctor2 =
     bindA ctor1 (\<lambda>a. attempt ctor2 (\<lambda>b. ret (a, b)) (\<lambda>e. bindA (dtor1 a) (\<lambda>_. throw e)))"

definition members_dtor :: "('a \<Rightarrow> unit act) \<Rightarrow> ('b \<Rightarrow> unit act) \<Rightarrow> 'a \<times> 'b \<Rightarrow> unit act" where
  "members_dtor dtor1 dtor2 ob = bindA (dtor2 (snd ob)) (\<lambda>_. dtor1 (fst ob))"

definition DNSSenderThread_ctor :: "sys_env \<Rightarrow> ((nat \<times> int) \<times> nat \<times> nat) act" where
  "DNSSenderThread_ctor env =
     members (RawSocketSender_ctor env) RawSocketSender_dtor (members (Packet_ctor env) Packet_dtor (alloc env))"

definition DNSSenderThread_dtor :: "(nat \<times> int) \<times> nat \<times> nat \<Rightarrow> unit act" where
  "DNSSenderThread_dtor = members_dtor RawSocketSender_dtor (members_dtor Packet_dtor free)"

subsection \<open>The receiver on Linux\<close>

definition Receiver_ctor_linux :: "sys_env \<Rightarrow> (nat \<times> int) act" where
  "Receiver_ctor_linux env =
     bindA (alloc env) (\<lambda>buffer.
     bindA (open_fd (sys_socket env)) (\<lambda>sd.
       if sd = -1 then bindA (free buffer) (\<lambda>_. throw Ppl7Exception)
       else if sys_fcntl env sd < 0 then bindA (close_fd sd) (\<lambda>_. bindA (free buffer) (\<lambda>_. throw Ppl7Exception))
       else ret (buffer, sd)))"

definition Receiver_dtor_linux :: "nat \<times> int \<Rightarrow> unit act" where
  "Receiver_dtor_linux ob = bindA (close_fd (snd ob)) (\<lambda>_. free (fst ob))"

subsection \<open>The receiver on FreeBSD\<close>












subsection \<open>The objects of the program\<close>

text \<open>
  The loop of \<open>prepareThreads\<close> from round \<open>i\<close> on: an object is constructed, its setters and
  \<open>addThread\<close> run (\<open>config i\<close> is their outcome in round \<open>i\<close>), and then it is in the pool. The result
  is the pool, the object whose setter threw, which nothing points to any more, and how the loop
  ended.
\<close>

fun make_all ::
  "'o act \<Rightarrow> (nat \<Rightarrow> unit result) \<Rightarrow> nat \<Rightarrow> nat \<Rightarrow> os \<Rightarrow> ('o list \<times> 'o list \<times> unit result) \<times> os" where
  "make_all ctor config i 0 s = (([], [], Inr ()), s)"
| "make_all ctor config i (Suc n) s =
     (case ctor s of
        (Inl e, s) \<Rightarrow> (([], [], Inl e), s)
      | (Inr ob, s) \<Rightarrow>
          (case config i of
             Inl e \<Rightarrow> (([], [ob], Inl e), s)
           | Inr _ \<Rightarrow> (case make_all ctor config (i + 1) n s of ((obs, lost, r), s) \<Rightarrow> ((ob # obs, lost, r), s))))"

text \<open>
  The part of \<open>DNSSender::main\<close> that creates objects: the receiver, unless responses are ignored, which
  is then given its source and bound to the interface (\<open>bind\<close>), and the threads. The receiver is a
  member of \<open>DNSSender\<close> from its construction on.
\<close>

definition main_objects ::
  "'r act \<Rightarrow> ('r \<Rightarrow> unit result) \<Rightarrow> 't act \<Rightarrow> (nat \<Rightarrow> unit result) \<Rightarrow> bool \<Rightarrow> nat \<Rightarrow> os \<Rightarrow>
   ('r option \<times> 't list \<times> 't list \<times> unit result) \<times> os" where
  "main_objects newR bind newT config ignore n s =
     (if ignore then (case make_all newT config 0 n s of (x, s) \<Rightarrow> ((None, x), s))
      else
        case newR s of
          (Inl e, s) \<Rightarrow> ((None, [], [], Inl e), s)
        | (Inr ob, s) \<Rightarrow>
            (case bind ob of
               Inl e \<Rightarrow> ((Some ob, [], [], Inl e), s)
             | Inr _ \<Rightarrow> (case make_all newT config 0 n s of (x, s) \<Rightarrow> ((Some ob, x), s))))"

text \<open>
  The end of \<open>main\<close> and \<open>~DNSSender\<close>. Only when the sessions end without an exception is
  \<open>threadpool.destroyAllThreads()\<close> reached, which leaves the pool empty; the body of the destructor
  deletes the receiver; the members follow, and the first of them, the pool, comes last.
  \<open>destroyAll\<close> and \<open>pool_dtor\<close> are the two routines of \<open>ppl7::ThreadPool\<close>.
\<close>

definition main_release ::
  "('t list \<Rightarrow> unit act) \<Rightarrow> ('t list \<Rightarrow> unit act) \<Rightarrow> ('r \<Rightarrow> unit act) \<Rightarrow> bool \<Rightarrow> 'r option \<Rightarrow> 't list \<Rightarrow> unit act" where
  "main_release destroyAll pool_dtor delR normal rcv ts =
     bindA (if normal then destroyAll ts else ret ()) (\<lambda>_.
     bindA (case rcv of None \<Rightarrow> ret () | Some ob \<Rightarrow> delR ob) (\<lambda>_.
       pool_dtor (if normal then [] else ts)))"

text \<open>
  The objects of the program from the start of \<open>main\<close> to the end of the process' \<open>main\<close>; \<open>session\<close> is
  how the loop over the query rates ends. The result: how the release ends, the pool, the thread whose
  setter threw, and how the creation ended.
\<close>

definition main_lifetime ::
  "'r act \<Rightarrow> ('r \<Rightarrow> unit result) \<Rightarrow> ('r \<Rightarrow> unit act) \<Rightarrow> 't act \<Rightarrow> (nat \<Rightarrow> unit result) \<Rightarrow> ('t list \<Rightarrow> unit act) \<Rightarrow>
   ('t list \<Rightarrow> unit act) \<Rightarrow> unit result \<Rightarrow> bool \<Rightarrow> nat \<Rightarrow> os \<Rightarrow> (unit result \<times> 't list \<times> 't list \<times> unit result) \<times> os" where
  "main_lifetime newR bind delR newT config destroyAll pool_dtor session ignore n s =
     (case main_objects newR bind newT config ignore n s of
        ((rcv, ts, lost, r), s) \<Rightarrow>
          (case main_release destroyAll pool_dtor delR (r = Inr () \<and> session = Inr ()) rcv ts s of
             (x, s) \<Rightarrow> ((x, ts, lost, r), s)))"

text \<open>What \<open>destroyAllThreads\<close> is documented to do: delete every thread of the pool.\<close>

fun delete_all :: "('o \<Rightarrow> unit act) \<Rightarrow> 'o list \<Rightarrow> unit act" where
  "delete_all dtor [] = ret ()"
| "delete_all dtor (ob # obs) = bindA (dtor ob) (\<lambda>_. delete_all dtor obs)"

definition new_object :: "sys_env \<Rightarrow> 'o act \<Rightarrow> (nat \<times> 'o) act" where
  "new_object env ctor = members (alloc env) free ctor"

definition delete_object :: "('o \<Rightarrow> unit act) \<Rightarrow> nat \<times> 'o \<Rightarrow> unit act" where
  "delete_object dtor = members_dtor free dtor"

subsection \<open>Weakest preconditions\<close>

text \<open>
  No undefined behaviour, \<open>Q\<close> after a return and \<open>E\<close> after an exception.
\<close>

definition wp :: "'a act \<Rightarrow> ('a \<Rightarrow> os \<Rightarrow> bool) \<Rightarrow> (exn \<Rightarrow> os \<Rightarrow> bool) \<Rightarrow> os \<Rightarrow> bool" where
  "wp c Q E s = (case c s of (Inl e, s') \<Rightarrow> e \<noteq> UndefinedBehaviour \<and> E e s' | (Inr a, s') \<Rightarrow> Q a s')"

lemma wp_rules [simp]:
  "wp (ret a) Q E s = Q a s"
  "wp (throw e) Q E s = (e \<noteq> UndefinedBehaviour \<and> E e s)"
  "wp (bindA c f) Q E s = wp c (\<lambda>a. wp (f a) Q E) E s"
  "wp (attempt c f g) Q E s = wp c (\<lambda>a. wp (f a) Q E) (\<lambda>e. wp (g e) Q E) s"
  by (auto simp: wp_def ret_def throw_def bindA_def attempt_def split: prod.split sum.split)

lemma wp_calls:
  "wp (malloc env) Q E s =
     (if sys_alloc env (brk s) then Q (Some (brk s)) (s\<lparr>blocks := brk s # blocks s, brk := brk s + 1\<rparr>)
      else Q None (s\<lparr>brk := brk s + 1\<rparr>))"
  "wp (free p) R E s = (p \<in> set (blocks s) \<and> R () (s\<lparr>blocks := removeAll p (blocks s)\<rparr>))"
  "wp (open_fd ok) T E s =
     (if ok (lowest_free (fds s)) then T (lowest_free (fds s)) (s\<lparr>fds := lowest_free (fds s) # fds s\<rparr>) else T (-1) s)"
  "wp (close_fd fd) R E s = R () (s\<lparr>fds := removeAll fd (fds s)\<rparr>)"
  by (simp_all add: wp_def malloc_def free_def open_fd_def close_fd_def Let_def)

lemma wp_alloc:
  "wp (alloc env) Q E s =
     (if sys_alloc env (brk s) then Q (brk s) (s\<lparr>blocks := brk s # blocks s, brk := brk s + 1\<rparr>)
      else E OutOfMemoryException (s\<lparr>brk := brk s + 1\<rparr>))"
  by (simp add: alloc_def wp_calls)

lemma wp_mono:
  "wp c Q E s \<Longrightarrow> (\<And>a s'. Q a s' \<Longrightarrow> Q' a s') \<Longrightarrow> (\<And>e s'. e \<noteq> UndefinedBehaviour \<Longrightarrow> E e s' \<Longrightarrow> E' e s') \<Longrightarrow>
    wp c Q' E' s"
  by (auto simp: wp_def split: prod.splits sum.splits)

lemma wp_nothrow: "wp c Q (\<lambda>e s. False) s \<longleftrightarrow> (\<exists>a s'. c s = (Inr a, s') \<and> Q a s')"
  by (auto simp: wp_def split: prod.splits sum.splits)

lemma wp_case [simp]:
  "wp (case x of None \<Rightarrow> c | Some a \<Rightarrow> f a) Q E s = (case x of None \<Rightarrow> wp c Q E s | Some a \<Rightarrow> wp (f a) Q E s)"
  "wp (if b then c else d) Q E s = (if b then wp c Q E s else wp d Q E s)"
  by (simp_all split: option.split)

lemma lowest_free: "lowest_free ds \<notin> set ds" "0 \<le> lowest_free ds" "lowest_free ds \<noteq> -1"
proof -
  let ?f = "filter (\<lambda>n. n \<notin> set ds) (map int [0..<Suc (length ds)])"
  have "?f \<noteq> []"
  proof
    assume "?f = []"
    then have "\<forall>x\<in>set (map int [0..<Suc (length ds)]). x \<in> set ds" by (simp only: filter_empty_conv not_not)
    then have "int ` {0..<Suc (length ds)} \<subseteq> set ds" by (simp only: set_map set_upt subset_iff Ball_def)
    then have "card (int ` {0..<Suc (length ds)}) \<le> card (set ds)" by (intro card_mono) simp_all
    then show False using card_length [of ds] by (simp add: card_image)
  qed
  then have "lowest_free ds \<in> set ?f" unfolding lowest_free_def by (rule hd_in_set)
  then show "lowest_free ds \<notin> set ds" "0 \<le> lowest_free ds" "lowest_free ds \<noteq> -1" by (auto simp del: upt_Suc)
qed

subsection \<open>Owners\<close>

text \<open>
  \<open>holds s s' m f\<close>: in \<open>s'\<close> exactly the blocks \<open>m\<close> and the descriptors \<open>f\<close> are held in addition to those
  of \<open>s\<close>.
\<close>

definition os_ok :: "os \<Rightarrow> bool" where
  "os_ok s \<longleftrightarrow> (\<forall>p\<in>set (blocks s). p < brk s)"

definition holds :: "os \<Rightarrow> os \<Rightarrow> nat list \<Rightarrow> int list \<Rightarrow> bool" where
  "holds s s' m f \<longleftrightarrow>
     set (blocks s') = set (blocks s) \<union> set m \<and> set (blocks s) \<inter> set m = {} \<and> distinct m \<and>
     set (fds s') = set (fds s) \<union> set f \<and> set (fds s) \<inter> set f = {} \<and> distinct f \<and> os_ok s'"

definition drops :: "os \<Rightarrow> os \<Rightarrow> nat list \<Rightarrow> int list \<Rightarrow> bool" where
  "drops s s' m f \<longleftrightarrow>
     set (blocks s') = set (blocks s) - set m \<and> set (fds s') = set (fds s) - set f \<and> os_ok s'"

lemma holds_drops:
  "holds s s1 m f \<Longrightarrow> drops s1 s2 m f \<Longrightarrow> holds s s2 [] []"
  "holds s s1 m f \<Longrightarrow> holds s1 s2 m' f' \<Longrightarrow> holds s s2 (m @ m') (f @ f')"
  "holds s s1 (m @ m') (f @ f') \<Longrightarrow> drops s1 s2 m f \<Longrightarrow> holds s s2 m' f'"
  "drops s s1 m f \<Longrightarrow> drops s1 s2 m' f' \<Longrightarrow> drops s s2 (m @ m') (f @ f')"
  by (auto simp: holds_def drops_def)

text \<open>The contract of a class.\<close>

locale owner =
  fixes ctor :: "'o act" and dtor :: "'o \<Rightarrow> unit act" and mem :: "'o \<Rightarrow> nat list" and desc :: "'o \<Rightarrow> int list"
  assumes ctor_wp: "os_ok s \<Longrightarrow> wp ctor (\<lambda>ob s'. holds s s' (mem ob) (desc ob)) (\<lambda>e s'. holds s s' [] []) s"
    and dtor_wp: "os_ok s \<Longrightarrow> distinct (mem ob) \<Longrightarrow> set (mem ob) \<subseteq> set (blocks s) \<Longrightarrow>
      wp (dtor ob) (\<lambda>_ s'. drops s s' (mem ob) (desc ob)) (\<lambda>_ _. False) s"
begin

lemma ctor_cases:
  assumes "os_ok s"
  obtains (fails) e s' where "ctor s = (Inl e, s')" and "e \<noteq> UndefinedBehaviour" and "holds s s' [] []"
    | (made) ob s' where "ctor s = (Inr ob, s')" and "holds s s' (mem ob) (desc ob)"
  using ctor_wp [OF assms] that by (auto simp: wp_def split: prod.splits sum.splits)

lemma dtor_drops:
  assumes "os_ok s" and "distinct (mem ob)" and "set (mem ob) \<subseteq> set (blocks s)"
  obtains s' where "dtor ob s = (Inr (), s')" and "drops s s' (mem ob) (desc ob)"
  using dtor_wp [OF assms] that by (auto simp: wp_nothrow)

text \<open>A constructed object can be destroyed, and then everything is as before.\<close>

lemma ctor_dtor:
  assumes "os_ok s" and "ctor s = (Inr ob, s1)"
  obtains s2 where "dtor ob s1 = (Inr (), s2)" and "holds s s2 [] []"
proof -
  have h: "holds s s1 (mem ob) (desc ob)" using ctor_cases [OF assms(1)] assms(2) by (metis Inl_Inr_False Inr_inject Pair_inject)
  then have "os_ok s1" "distinct (mem ob)" "set (mem ob) \<subseteq> set (blocks s1)" by (auto simp: holds_def)
  from dtor_drops [OF this] show ?thesis using that holds_drops(1) [OF h] by blast
qed

text \<open>A pool of such objects.\<close>

lemma make_all_holds:
  assumes "os_ok s" and "\<And>i. config i \<noteq> Inl UndefinedBehaviour" and "make_all ctor config i n s = ((obs, lost, r), s')"
  shows "holds s s' (concat (map mem obs) @ concat (map mem lost)) (concat (map desc obs) @ concat (map desc lost)) \<and>
    r \<noteq> Inl UndefinedBehaviour \<and>
    (lost = [] \<or> (\<exists>ob. lost = [ob]) \<and> length obs < n \<and> r = config (i + length obs) \<and> r \<noteq> Inr ())"
  using assms(1,3)
proof (induction n arbitrary: s obs i)
  case 0
  then show ?case by (auto simp: holds_def)
next
  case (Suc n)
  from \<open>os_ok s\<close> show ?case
  proof (cases rule: ctor_cases)
    case (fails e s1)
    then show ?thesis using Suc.prems(2) by auto
  next
    case (made ob s1)
    show ?thesis
    proof (cases "config i")
      case (Inl e)
      then show ?thesis using Suc.prems(2) made assms(2) [of i] by auto
    next
      case (Inr u)
      obtain obs' lost' r' s2 where m: "make_all ctor config (i + 1) n s1 = ((obs', lost', r'), s2)" by (metis prod.exhaust)
      then have e: "obs = ob # obs'" "lost' = lost" "r' = r" "s2 = s'" using Suc.prems(2) made(1) Inr by auto
      have "os_ok s1" using made(2) by (simp add: holds_def)
      from Suc.IH [OF this m [unfolded e]] show ?thesis using holds_drops(2) [OF made(2)] by (auto simp: e(1))
    qed
  qed
qed

lemma delete_all_drops:
  assumes "os_ok s" and "distinct (concat (map mem obs))" and "set (concat (map mem obs)) \<subseteq> set (blocks s)"
  shows "\<exists>s'. delete_all dtor obs s = (Inr (), s') \<and> drops s s' (concat (map mem obs)) (concat (map desc obs))"
  using assms
proof (induction obs arbitrary: s)
  case Nil
  then show ?case by (auto simp: ret_def drops_def)
next
  case (Cons ob obs)
  have "distinct (mem ob)" "set (mem ob) \<subseteq> set (blocks s)" using Cons.prems by auto
  then obtain s1 where d: "dtor ob s = (Inr (), s1)" "drops s s1 (mem ob) (desc ob)"
    using dtor_drops [OF Cons.prems(1)] by blast
  have "os_ok s1" "distinct (concat (map mem obs))" "set (concat (map mem obs)) \<subseteq> set (blocks s1)"
    using Cons.prems d(2) by (auto simp: drops_def)
  from Cons.IH [OF this] obtain s2 where "delete_all dtor obs s1 = (Inr (), s2)"
      "drops s1 s2 (concat (map mem obs)) (concat (map desc obs))" by blast
  then show ?case using d holds_drops(4) [OF d(2)] by (auto simp: bindA_def)
qed

end


text \<open>Two parts make a class.\<close>

locale two_owners = a: owner ctor1 dtor1 mem1 desc1 + b: owner ctor2 dtor2 mem2 desc2
  for ctor1 :: "'a act" and dtor1 mem1 desc1 and ctor2 :: "'b act" and dtor2 mem2 desc2

sublocale two_owners \<subseteq> pair: owner "members ctor1 dtor1 ctor2" "members_dtor dtor1 dtor2"
  "\<lambda>ob. mem1 (fst ob) @ mem2 (snd ob)" "\<lambda>ob. desc1 (fst ob) @ desc2 (snd ob)"
proof
  fix s :: os
  assume s: "os_ok s"
  show "wp (members ctor1 dtor1 ctor2) (\<lambda>ob s'. holds s s' (mem1 (fst ob) @ mem2 (snd ob)) (desc1 (fst ob) @ desc2 (snd ob)))
      (\<lambda>e s'. holds s s' [] []) s"
    unfolding members_def wp_rules
  proof (rule wp_mono [OF a.ctor_wp [OF s]])
    fix x s1
    assume h: "holds s s1 (mem1 x) (desc1 x)"
    then have ok: "os_ok s1" by (simp add: holds_def)
    show "wp ctor2 (\<lambda>y. \<lambda>s2. holds s s2 (mem1 (fst (x, y)) @ mem2 (snd (x, y))) (desc1 (fst (x, y)) @ desc2 (snd (x, y))))
        (\<lambda>e s2. wp (dtor1 x) (\<lambda>_ s3. e \<noteq> UndefinedBehaviour \<and> holds s s3 [] []) (\<lambda>e s'. holds s s' [] []) s2) s1"
    proof (rule wp_mono [OF b.ctor_wp [OF ok]])
      fix e s2
      assume e: "e \<noteq> UndefinedBehaviour" and "holds s1 s2 [] []"
      with h have h2: "holds s s2 (mem1 x) (desc1 x)" using holds_drops(2) by fastforce
      then have "os_ok s2" "distinct (mem1 x)" "set (mem1 x) \<subseteq> set (blocks s2)" by (auto simp: holds_def)
      then show "wp (dtor1 x) (\<lambda>_ s3. e \<noteq> UndefinedBehaviour \<and> holds s s3 [] []) (\<lambda>e s'. holds s s' [] []) s2"
        by (rule wp_mono [OF a.dtor_wp]) (use e holds_drops(1) [OF h2] in auto)
    qed (use h holds_drops(2) in auto)
  qed
  show "wp (members_dtor dtor1 dtor2 ob) (\<lambda>_ s'. drops s s' (mem1 (fst ob) @ mem2 (snd ob)) (desc1 (fst ob) @ desc2 (snd ob)))
      (\<lambda>_ _. False) s"
    if "distinct (mem1 (fst ob) @ mem2 (snd ob))" "set (mem1 (fst ob) @ mem2 (snd ob)) \<subseteq> set (blocks s)" for ob
    unfolding members_dtor_def wp_rules
  proof (rule wp_mono [OF b.dtor_wp [OF s]])
    show "distinct (mem2 (snd ob))" "set (mem2 (snd ob)) \<subseteq> set (blocks s)" using that by auto
    fix u s1
    assume d: "drops s s1 (mem2 (snd ob)) (desc2 (snd ob))"
    then have "os_ok s1" "distinct (mem1 (fst ob))" "set (mem1 (fst ob)) \<subseteq> set (blocks s1)"
      using that by (auto simp: drops_def)
    then show "wp (dtor1 (fst ob)) (\<lambda>_ s'. drops s s' (mem1 (fst ob) @ mem2 (snd ob)) (desc1 (fst ob) @ desc2 (snd ob)))
        (\<lambda>_ _. False) s1"
      by (rule wp_mono [OF a.dtor_wp]) (use d in \<open>auto simp: drops_def\<close>)
  qed
qed


subsection \<open>The classes keep their contracts\<close>

lemmas owner_simps = wp_calls wp_alloc holds_def drops_def os_ok_def lowest_free less_Suc_eq

lemma block_free: "os_ok s \<Longrightarrow> brk s \<notin> set (blocks s)"
  by (auto simp: os_ok_def)

interpretation raw: owner "alloc env" free "\<lambda>p. [p]" "\<lambda>_. []" for env
  by unfold_locales (use block_free in \<open>auto simp: owner_simps\<close>)

interpretation pk: owner "Packet_ctor env" Packet_dtor "\<lambda>p. [p]" "\<lambda>_. []" for env
  by (unfold Packet_ctor_def Packet_dtor_def [abs_def]) (rule raw.owner_axioms)

interpretation sndr: owner "RawSocketSender_ctor env" RawSocketSender_dtor "\<lambda>ob. [fst ob]" "\<lambda>ob. [snd ob]" for env
  by unfold_locales (use block_free in \<open>auto simp: RawSocketSender_ctor_def RawSocketSender_dtor_def owner_simps\<close>)


interpretation body: two_owners "Packet_ctor env" Packet_dtor "\<lambda>p. [p]" "\<lambda>_. []" "alloc env" free "\<lambda>p. [p]" "\<lambda>_. []" for env
  by unfold_locales














subsection \<open>The objects of the program are released\<close>

context two_owners
begin

lemma pair_owner: "owner (members ctor1 dtor1 ctor2) (members_dtor dtor1 dtor2)
    (\<lambda>ob. mem1 (fst ob) @ mem2 (snd ob)) (\<lambda>ob. desc1 (fst ob) @ desc2 (snd ob))"
  by (rule pair.owner_axioms)

text \<open>What a receiver that may not exist owns.\<close>

definition mem_opt :: "'a option \<Rightarrow> nat list" where
  "mem_opt rcv = (case rcv of None \<Rightarrow> [] | Some ob \<Rightarrow> mem1 ob)"

definition desc_opt :: "'a option \<Rightarrow> int list" where
  "desc_opt rcv = (case rcv of None \<Rightarrow> [] | Some ob \<Rightarrow> desc1 ob)"

text \<open>The receiver and the threads, however their construction ended.\<close>

lemma main_objects_holds:
  assumes "os_ok s" and "\<And>ob. bind ob \<noteq> Inl UndefinedBehaviour" and cfg: "\<And>i. config i \<noteq> Inl UndefinedBehaviour"
    and main: "main_objects ctor1 bind ctor2 config ignore n s = ((rcv, ts, lost, r), s1)"
  shows "holds s s1 (mem_opt rcv @ concat (map mem2 ts) @ concat (map mem2 lost))
      (desc_opt rcv @ concat (map desc2 ts) @ concat (map desc2 lost)) \<and> r \<noteq> Inl UndefinedBehaviour \<and>
    (lost = [] \<or> (\<exists>ob. lost = [ob]) \<and> length ts < n \<and> r = config (length ts) \<and> r \<noteq> Inr ())"
proof (cases ignore)
  case True
  then have "make_all ctor2 config 0 n s = ((ts, lost, r), s1)" "rcv = None"
    using main by (auto simp: main_objects_def split: prod.splits)
  then show ?thesis using b.make_all_holds [OF assms(1) cfg] by (fastforce simp: mem_opt_def desc_opt_def)
next
  case False
  from assms(1) show ?thesis
  proof (cases rule: a.ctor_cases)
    case (fails e s')
    then show ?thesis using False main by (auto simp: main_objects_def mem_opt_def desc_opt_def)
  next
    case (made ob s')
    then have ok: "os_ok s'" by (simp add: holds_def)
    show ?thesis
    proof (cases "bind ob")
      case (Inl e)
      then show ?thesis using False made assms(2) [of ob] main by (auto simp: main_objects_def mem_opt_def desc_opt_def)
    next
      case (Inr u)
      then have "make_all ctor2 config 0 n s' = ((ts, lost, r), s1)" "rcv = Some ob"
        using False made(1) main by (auto simp: main_objects_def split: prod.splits)
      then show ?thesis
        using b.make_all_holds [OF ok cfg] holds_drops(2) [OF made(2)] by (fastforce simp: mem_opt_def desc_opt_def)
    qed
  qed
qed

lemma delete_pool:
  assumes "holds s s1 (m @ concat (map mem2 ts) @ m') (f @ concat (map desc2 ts) @ f')"
  obtains s2 where "delete_all dtor2 ts s1 = (Inr (), s2)" and "holds s s2 (m @ m') (f @ f')"
proof -
  have "os_ok s1" "distinct (concat (map mem2 ts))" "set (concat (map mem2 ts)) \<subseteq> set (blocks s1)"
    using assms by (auto simp: holds_def)
  from b.delete_all_drops [OF this] obtain s2 where
    d: "delete_all dtor2 ts s1 = (Inr (), s2)" "drops s1 s2 (concat (map mem2 ts)) (concat (map desc2 ts))" by blast
  moreover have "holds s s2 (m @ m') (f @ f')" using assms d(2) by (auto simp: holds_def drops_def)
  ultimately show ?thesis using that by blast
qed

lemma delete_receiver:
  assumes "holds s s1 (mem_opt rcv @ m) (desc_opt rcv @ f)"
  obtains s2 where "(case rcv of None \<Rightarrow> ret () | Some ob \<Rightarrow> dtor1 ob) s1 = (Inr (), s2)" and "holds s s2 m f"
proof (cases rcv)
  case None
  then show ?thesis using that assms by (simp add: mem_opt_def desc_opt_def ret_def)
next
  case (Some ob)
  then have "os_ok s1" "distinct (mem1 ob)" "set (mem1 ob) \<subseteq> set (blocks s1)"
    using assms by (auto simp: holds_def mem_opt_def)
  from a.dtor_drops [OF this] obtain s2 where "dtor1 ob s1 = (Inr (), s2)" "drops s1 s2 (mem1 ob) (desc1 ob)" by blast
  then show ?thesis using that Some assms holds_drops(3) by (simp add: mem_opt_def desc_opt_def)
qed

text \<open>
  \<open>deletes\<close>: the destructor of the pool deletes the threads in it. What is left is the thread whose
  setter threw, and the pool when neither routine deletes its threads.
\<close>

lemma main_release_holds:
  assumes "holds s s1 (mem_opt rcv @ concat (map mem2 ts) @ m) (desc_opt rcv @ concat (map desc2 ts) @ f)"
    and "kept = (if normal \<or> deletes then [] else ts)"
  shows "\<exists>s2. main_release (delete_all dtor2) (if deletes then delete_all dtor2 else (\<lambda>_. ret ())) dtor1 normal rcv ts s1 = (Inr (), s2) \<and>
    holds s s2 (concat (map mem2 kept) @ m) (concat (map desc2 kept) @ f)"
proof (cases normal)
  case True
  obtain s2 where "delete_all dtor2 ts s1 = (Inr (), s2)" "holds s s2 (mem_opt rcv @ m) (desc_opt rcv @ f)"
    using delete_pool [OF assms(1)] .
  moreover from this(2) obtain s3 where "(case rcv of None \<Rightarrow> ret () | Some ob \<Rightarrow> dtor1 ob) s2 = (Inr (), s3)" "holds s s3 m f"
    by (rule delete_receiver)
  ultimately show ?thesis using True assms(2) by (simp add: main_release_def bindA_def ret_def)
next
  case False
  obtain s2 where r: "(case rcv of None \<Rightarrow> ret () | Some ob \<Rightarrow> dtor1 ob) s1 = (Inr (), s2)"
      "holds s s2 (concat (map mem2 ts) @ m) (concat (map desc2 ts) @ f)"
    using delete_receiver [OF assms(1)] .
  then obtain s3 where "delete_all dtor2 ts s2 = (Inr (), s3)" "holds s s3 m f"
    using delete_pool [of s s2 "[]" ts m "[]" f] by auto
  with False r show ?thesis using assms(2) by (simp add: main_release_def bindA_def ret_def)
qed

lemma main_released:
  assumes "os_ok s" and "\<And>ob. bind ob \<noteq> Inl UndefinedBehaviour" and "\<And>i. config i \<noteq> Inl UndefinedBehaviour"
  shows "\<exists>ts lost r s2. main_lifetime ctor1 bind dtor1 ctor2 config (delete_all dtor2)
      (if deletes then delete_all dtor2 else (\<lambda>_. ret ())) session ignore n s = ((Inr (), ts, lost, r), s2) \<and>
    r \<noteq> Inl UndefinedBehaviour \<and>
    (lost = [] \<or> (\<exists>ob. lost = [ob]) \<and> length ts < n \<and> r = config (length ts) \<and> r \<noteq> Inr ()) \<and>
    (let left = (if r = Inr () \<and> session = Inr () \<or> deletes then [] else ts) @ lost
     in holds s s2 (concat (map mem2 left)) (concat (map desc2 left)))"
proof -
  obtain rcv ts lost r s1 where o: "main_objects ctor1 bind ctor2 config ignore n s = ((rcv, ts, lost, r), s1)"
    by (metis prod.exhaust)
  note h = main_objects_holds [OF assms o]
  obtain s2 where "main_release (delete_all dtor2) (if deletes then delete_all dtor2 else (\<lambda>_. ret ())) dtor1
      (r = Inr () \<and> session = Inr ()) rcv ts s1 = (Inr (), s2)"
    "holds s s2 (concat (map mem2 (if r = Inr () \<and> session = Inr () \<or> deletes then [] else ts)) @ concat (map mem2 lost))
      (concat (map desc2 (if r = Inr () \<and> session = Inr () \<or> deletes then [] else ts)) @ concat (map desc2 lost))"
    using main_release_holds [OF h [THEN conjunct1] refl, of deletes "r = Inr () \<and> session = Inr ()"] by blast
  then show ?thesis
    using h by (intro exI [of _ ts] exI [of _ lost] exI [of _ r] exI [of _ s2]) (simp add: main_lifetime_def o Let_def del: if_split)
qed

end





text \<open>
  The objects of a run on the two platforms. On FreeBSD \<open>setSource\<close> installs the filter and
  \<open>initInterface\<close> binds the device; on Linux neither makes a system call.
\<close>

type_synonym thread_object = "nat \<times> (nat \<times> int) \<times> nat \<times> nat"

definition linux_main ::
  "sys_env \<Rightarrow> (nat \<Rightarrow> unit result) \<Rightarrow> (thread_object list \<Rightarrow> unit act) \<Rightarrow> (thread_object list \<Rightarrow> unit act) \<Rightarrow>
   unit result \<Rightarrow> bool \<Rightarrow> nat \<Rightarrow> os \<Rightarrow> (unit result \<times> thread_object list \<times> thread_object list \<times> unit result) \<times> os" where
  "linux_main env config destroyAll pool_dtor session ignore n =
     main_lifetime (new_object env (Receiver_ctor_linux env)) (\<lambda>_. Inr ()) (delete_object Receiver_dtor_linux)
       (new_object env (DNSSenderThread_ctor env)) config destroyAll pool_dtor session ignore n"










text \<open>
  No memory for the buffer of the second thread, which is not constructed: the pool holds the first
  one, \<open>destroyAllThreads\<close> is not reached, and the destructor of the pool deletes it.
\<close>

definition demo_sys :: sys_env where
  "demo_sys = \<lparr>sys_alloc = (\<lambda>p. p \<noteq> 9), sys_socket = (\<lambda>_. True), sys_open = (\<lambda>i. i = 2), sys_setsockopt = (\<lambda>_. 0),
     sys_fcntl = (\<lambda>_. 0), sys_ioctl = (\<lambda>_ r. if r = BIOCSETZBUF 8192 then -1 else 0)\<rparr>"

definition demo_os :: os where
  "demo_os = \<lparr>blocks = [], fds = [0, 1, 2], brk = 0\<rparr>"

definition demo_delete :: "thread_object list \<Rightarrow> unit act" where
  "demo_delete = delete_all (delete_object DNSSenderThread_dtor)"


text \<open>
  A setter throws for the second thread: its four blocks and its descriptor stay, although the
  destructor of the pool deletes the first thread.
\<close>

definition demo_config :: "nat \<Rightarrow> unit result" where
  "demo_config i = (if i = 1 then Inl UnsupportedIPFamily else Inr ())"

theorem setter_leaks_thread:
  "linux_main demo_sys demo_config demo_delete demo_delete (Inr ()) True 2 demo_os =
     ((Inr (), [(0, (1, 3), 2, 3)], [(4, (5, 4), 6, 7)], Inl UnsupportedIPFamily),
      \<lparr>blocks = [7, 6, 5, 4], fds = [4, 0, 1, 2], brk = 8\<rparr>)"
  by code_simp

end
