(* ===== verification/System_Bsd.thy ===== *)
theory System_Bsd
  imports System_Stat
begin

text \<open>
  \<open>src/src/system_stat.cpp\<close> on FreeBSD: the samples come from \<open>sysctlbyname\<close>, \<open>kvm_getswapinfo\<close>,
  \<open>clock_gettime\<close> and \<open>getifaddrs\<close>, which are parameters. The object that is filled and the differences
  of two samples are those of \<open>System_Stat\<close>.
\<close>

subsection \<open>Sampling\<close>

text \<open>
  An element of the list of \<open>getifaddrs\<close>: whether its address is of the family \<open>AF_LINK\<close> (\<open>None\<close>: it has no
  address), its name, and the counters of its \<open>if_data\<close>.
\<close>

record ifaddr =
  ifa_link :: "bool option"
  ifa_name :: string
  ifa_receive :: network
  ifa_transmit :: network

text \<open>
  The system calls: whether \<open>kvm_open\<close> succeeds, the time, the values of \<open>kern.cp_time\<close> (\<open>None\<close>: the call
  fails), the size of a page, the swap space (\<open>None\<close>: the call fails) with its total and used pages, the
  uptime (\<open>None\<close>: the call fails), a system variable with the number of bytes that were written, and the
  interfaces.
\<close>

record bsd_env =
  be_kvm_open :: bool
  be_now :: rat
  be_cp_time :: "int list option"
  be_pagesize :: int
  be_swap :: "(u32 \<times> u32) option"
  be_uptime :: "int option"
  be_sysctl :: "string \<Rightarrow> (int \<times> nat) option"
  be_ifaddrs :: "ifaddr list option"

definition getsysctl :: "bsd_env \<Rightarrow> string \<Rightarrow> nat \<Rightarrow> int result" where
  "getsysctl env name len =
     (case be_sysctl env name of
        None \<Rightarrow> Inl SystemCallFailed
      | Some (v, nlen) \<Rightarrow> if nlen \<noteq> len then Inl SystemCallFailed else Inr v)"

text \<open>
  After a failed call the array is freed and then read. A conversion from \<open>long\<close> to \<open>int\<close> keeps 32 bits.
\<close>

definition to_int32 :: "int \<Rightarrow> int" where
  "to_int32 n = signed_take_bit 31 n"

definition sampleCpuUsage_bsd :: "bsd_env \<Rightarrow> cpu \<Rightarrow> cpu result" where
  "sampleCpuUsage_bsd env c =
     (case be_cp_time env of
        Some (u # n # s # w # i # _) \<Rightarrow>
          Inr \<lparr>user = to_int32 u, nice = to_int32 n, system = to_int32 s, idle = to_int32 i, iowait = to_int32 w\<rparr>
      | _ \<Rightarrow> Inl UndefinedBehaviour)"

text \<open>\<open>swapmode\<close>: total and free swap space in bytes; its return value is not used.\<close>

definition swapmode :: "bsd_env \<Rightarrow> int \<times> int" where
  "swapmode env =
     (case be_swap env of
        None \<Rightarrow> (0, 0)
      | Some (tot, used) \<Rightarrow>
          if tot = 0 then (0, 0) else (uint tot * be_pagesize env, uint (tot - used) * be_pagesize env))"

text \<open>The product of the free pages and the size of a page is of type \<open>int\<close>.\<close>

definition sampleSysinfo_bsd :: "bsd_env \<Rightarrow> sysinfo \<Rightarrow> sysinfo result" where
  "sampleSysinfo_bsd env s =
     (let s = (case be_uptime env of None \<Rightarrow> s | Some t \<Rightarrow> s\<lparr>uptime := t\<rparr>);
          (tot, fre) = swapmode env;
          s = s\<lparr>totalswap := tot, freeswap := fre\<rparr>
      in bindE (getsysctl env ''vm.stats.vm.v_free_count'' 4) (\<lambda>tmp.
           if \<not> int_ok (tmp * be_pagesize env) then Inl UndefinedBehaviour
           else
             bindE (getsysctl env ''hw.physmem'' 8) (\<lambda>tmp_l.
               Inr (s\<lparr>freeram := tmp * be_pagesize env, totalram := tmp_l\<rparr>))))"

fun if_loop :: "ifaddr list \<Rightarrow> (string \<rightharpoonup> nif) \<Rightarrow> nif \<Rightarrow> ((string \<rightharpoonup> nif) \<times> nif) result" where
  "if_loop [] ifs tot = Inr (ifs, tot)"
| "if_loop (ifa # as) ifs tot =
     (case ifa_link ifa of
        None \<Rightarrow> Inl UndefinedBehaviour
      | Some False \<Rightarrow> if_loop as ifs tot
      | Some True \<Rightarrow>
          let n = \<lparr>nif_name = ifa_name ifa, nif_receive = ifa_receive ifa, nif_transmit = ifa_transmit ifa\<rparr>
          in if_loop as (map_insert (nif_name n) n ifs)
               (tot\<lparr>nif_receive := net_add (nif_receive tot) (nif_receive n),
                    nif_transmit := net_add (nif_transmit tot) (nif_transmit n)\<rparr>))"

definition sampleNetwork_bsd :: "bsd_env \<Rightarrow> (string \<rightharpoonup> nif) \<Rightarrow> nif \<Rightarrow> ((string \<rightharpoonup> nif) \<times> nif) result" where
  "sampleNetwork_bsd env ifs tot =
     (let tot = tot\<lparr>nif_receive := Network_clear, nif_transmit := Network_clear\<rparr>
      in case be_ifaddrs env of
           None \<Rightarrow> Inl SystemCallFailed
         | Some as \<Rightarrow> if_loop as ifs tot)"

text \<open>\<open>kd\<close>: whether the kernel handle is open; it stays open.\<close>

definition sampleSensorData_bsd :: "bsd_env \<Rightarrow> bool \<Rightarrow> system_stat \<Rightarrow> (bool \<times> system_stat) result" where
  "sampleSensorData_bsd env kd st =
     (if \<not> kd \<and> \<not> be_kvm_open env then Inl KernelAccessFailed
      else
        bindE (sampleCpuUsage_bsd env (stat_cpu st)) (\<lambda>c.
        bindE (sampleSysinfo_bsd env (stat_sysinfo st)) (\<lambda>i.
        bindE (sampleNetwork_bsd env (interfaces st) (net_total st)) (\<lambda>(ifs, tot).
          Inr (True, st\<lparr>sampleTime := be_now env, stat_cpu := c, stat_sysinfo := i, interfaces := ifs, net_total := tot\<rparr>)))))"

subsection \<open>Properties\<close>

text \<open>The interfaces the sample is about.\<close>

definition link_entries :: "ifaddr list \<Rightarrow> nif list" where
  "link_entries as = map (\<lambda>a. \<lparr>nif_name = ifa_name a, nif_receive = ifa_receive a, nif_transmit = ifa_transmit a\<rparr>)
     (filter (\<lambda>a. ifa_link a = Some True) as)"

lemma if_loop_eq:
  assumes "\<forall>a\<in>set as. ifa_link a \<noteq> None"
  shows "if_loop as ifs tot = Inr (add_entries (link_entries as) ifs tot)"
  using assms
proof (induction as arbitrary: ifs tot)
  case Nil
  then show ?case by (simp add: add_entries_def link_entries_def entry_map_def)
next
  case (Cons a as)
  let ?n = "\<lparr>nif_name = ifa_name a, nif_receive = ifa_receive a, nif_transmit = ifa_transmit a\<rparr>"
  obtain l where l: "ifa_link a = Some l" using Cons.prems by auto
  show ?case
    using Cons l entry_map_insert [of _ ?n] by (cases l) (simp_all add: link_entries_def add_entries_def Let_def)
qed

text \<open>
  C37. A sample on FreeBSD: if the system calls succeed, the object holds the processor times cut to 32
  bits, the free and total swap space and memory in bytes, and the totals of all link-level
  interfaces, of which the unknown ones are added to the table. But the number of free bytes is
  computed as an \<open>int\<close>: from 2 GiB of free memory on (524288 pages of 4096 bytes) the behaviour is
  undefined.
\<close>

theorem sampleSensorData_bsd_outcome:
  assumes "kd \<or> be_kvm_open env" and "be_cp_time env = Some (u # n # s # w # i # rest)"
    and "be_sysctl env ''vm.stats.vm.v_free_count'' = Some (pages, 4)" and "be_sysctl env ''hw.physmem'' = Some (ram, 8)"
    and "be_swap env = Some (swap, used)" and "used \<le> swap" and "be_uptime env = Some up"
    and "be_ifaddrs env = Some as" and "\<forall>a\<in>set as. ifa_link a \<noteq> None" and "be_pagesize env = 4096" and "0 \<le> pages"
  shows "sampleSensorData_bsd env kd st =
    (if pages < 524288 then
       let total = add_entries (link_entries as) (interfaces st)
             ((net_total st)\<lparr>nif_receive := Network_clear, nif_transmit := Network_clear\<rparr>)
       in Inr (True, st\<lparr>sampleTime := be_now env,
         stat_cpu := \<lparr>user = to_int32 u, nice = to_int32 n, system = to_int32 s, idle = to_int32 i, iowait = to_int32 w\<rparr>,
         stat_sysinfo := (stat_sysinfo st)\<lparr>uptime := up, totalswap := 4096 * uint swap,
           freeswap := 4096 * (uint swap - uint used), freeram := 4096 * pages, totalram := ram\<rparr>,
         interfaces := fst total, net_total := snd total\<rparr>)
     else Inl UndefinedBehaviour)"
proof -
  have "uint (swap - used) = uint swap - uint used"
    using assms(6) by (simp add: uint_minus_simple_alt)
  moreover have "swap = 0 \<Longrightarrow> used = 0" using assms(6) by simp
  ultimately have sw: "swapmode env = (4096 * uint swap, 4096 * (uint swap - uint used))"
    using assms(5,10) by (auto simp: swapmode_def)
  have "int_ok (pages * 4096) \<longleftrightarrow> pages < 524288" using assms(11) by (auto simp: int_ok_def)
  then have sy: "sampleSysinfo_bsd env si = (if pages < 524288 then
      Inr (si\<lparr>uptime := up, totalswap := 4096 * uint swap, freeswap := 4096 * (uint swap - uint used), freeram := 4096 * pages,
        totalram := ram\<rparr>) else Inl UndefinedBehaviour)" for si
    using assms(3,4,7,10) sw by (simp add: sampleSysinfo_bsd_def getsysctl_def mult.commute)
  show ?thesis
    using assms(1,2,8) if_loop_eq [OF assms(9)]
    by (auto simp: sampleSensorData_bsd_def sampleCpuUsage_bsd_def sy sampleNetwork_bsd_def Let_def split: prod.splits)
qed

text \<open>A machine with two interfaces.\<close>

definition demo_bsd :: "int \<Rightarrow> bsd_env" where
  "demo_bsd pages = \<lparr>be_kvm_open = True, be_now = 5, be_cp_time = Some [2 ^ 32 + 1, 2, 3, 4, 5], be_pagesize = 4096,
     be_swap = Some (10, 4), be_uptime = Some 77,
     be_sysctl = [''vm.stats.vm.v_free_count'' \<mapsto> (pages, 4), ''hw.physmem'' \<mapsto> (8589934592, 8)],
     be_ifaddrs = Some [\<lparr>ifa_link = Some True, ifa_name = ''em0'', ifa_receive = Network_clear\<lparr>net_bytes := 7\<rparr>, ifa_transmit = Network_clear\<rparr>,
       \<lparr>ifa_link = Some False, ifa_name = ''em0'', ifa_receive = Network_clear, ifa_transmit = Network_clear\<rparr>,
       \<lparr>ifa_link = Some True, ifa_name = ''em1'', ifa_receive = Network_clear\<lparr>net_bytes := 4\<rparr>, ifa_transmit = Network_clear\<rparr>]\<rparr>"

theorem sampleSensorData_bsd_outcome_witness:
  "\<exists>st st'. sampleSensorData_bsd (demo_bsd 1000) False st = Inr (True, st') \<and> freeram (stat_sysinfo st') = 4096000 \<and>
     freeswap (stat_sysinfo st') = 24576 \<and> user (stat_cpu st') = 1 \<and> net_bytes (nif_receive (net_total st')) = 11 \<and>
     sampleSensorData_bsd (demo_bsd 524288) False st = Inl UndefinedBehaviour"
proof -
  let ?st = "\<lparr>sampleTime = 0, stat_cpu = \<lparr>user = 0, nice = 0, system = 0, idle = 0, iowait = 0\<rparr>,
     stat_sysinfo = \<lparr>uptime = 0, freeswap = 0, totalswap = 0, freeram = 0, bufferram = 0, totalram = 0, sharedram = 0, procs = 0\<rparr>,
     net_total = \<lparr>nif_name = [], nif_receive = Network_clear, nif_transmit = Network_clear\<rparr>, interfaces = (\<lambda>_. None)\<rparr>"
  have e: "sampleSensorData_bsd (demo_bsd p) False ?st = (if p < 524288 then
      let total = add_entries (link_entries (the (be_ifaddrs (demo_bsd p)))) (interfaces ?st)
             ((net_total ?st)\<lparr>nif_receive := Network_clear, nif_transmit := Network_clear\<rparr>)
       in Inr (True, ?st\<lparr>sampleTime := be_now (demo_bsd p),
         stat_cpu := \<lparr>user = to_int32 (2 ^ 32 + 1), nice = to_int32 2, system = to_int32 3, idle = to_int32 5, iowait = to_int32 4\<rparr>,
         stat_sysinfo := (stat_sysinfo ?st)\<lparr>uptime := 77, totalswap := 4096 * uint (10 :: u32),
           freeswap := 4096 * (uint (10 :: u32) - uint (4 :: u32)), freeram := 4096 * p, totalram := 8589934592\<rparr>,
         interfaces := fst total, net_total := snd total\<rparr>)
     else Inl UndefinedBehaviour)" if "0 \<le> p" for p
    by (rule sampleSensorData_bsd_outcome) (use that in \<open>auto simp: demo_bsd_def\<close>)
  have "to_int32 (2 ^ 32 + 1) = 1" by (simp add: to_int32_def signed_take_bit_def)
  moreover have "net_bytes (nif_receive (snd (add_entries (link_entries (the (be_ifaddrs (demo_bsd 1000)))) ifs
      \<lparr>nif_name = [], nif_receive = Network_clear, nif_transmit = Network_clear\<rparr>))) = 11" for ifs
    by (simp add: add_entries_def link_entries_def demo_bsd_def net_add_def Network_clear_def)
  ultimately show ?thesis
    using e [of 1000] e [of 524288] by - (rule exI [of _ ?st], auto simp: Let_def)
qed

text \<open>
  C38. Both platforms take the same network sample: if the lines of \<open>/proc/net/dev\<close> and the list of
  \<open>getifaddrs\<close> describe the same interfaces, the totals and the table after the sample are the same.
\<close>

theorem sampleNetwork_platforms:
  assumes "proc_net_dev lib = Some lines" and "net_entries lib lines = Inr (link_entries as)"
    and "be_ifaddrs env = Some as" and "\<forall>a\<in>set as. ifa_link a \<noteq> None"
  shows "sampleNetwork_bsd env ifs tot = sampleNetwork lib ifs tot"
  using assms by (simp add: sampleNetwork_bsd_def sampleNetwork_def if_loop_eq net_lines_eq)

text \<open>The same interfaces as lines of the file of Linux.\<close>

definition demo_lines :: net_lib where
  "demo_lines = \<lparr>proc_net_dev = Some [''em0: 7'', ''em1: 4''], net_trim = (\<lambda>s. s), instr_colon = (\<lambda>_. 3), replace_tabs = (\<lambda>s. s),
     strtok_blank = (\<lambda>s. [s]), tok_at = (\<lambda>t i. Inr (if i = 1 then hd t else [])),
     toUnsignedLong = (\<lambda>s. if s = ''em0: 7'' then 7 else if s = ''em1: 4'' then 4 else 0)\<rparr>"

theorem sampleNetwork_platforms_witness:
  "\<exists>ifs tot. sampleNetwork_bsd (demo_bsd 0) (\<lambda>_. None) \<lparr>nif_name = [], nif_receive = Network_clear, nif_transmit = Network_clear\<rparr> = Inr (ifs, tot) \<and>
     sampleNetwork demo_lines (\<lambda>_. None) \<lparr>nif_name = [], nif_receive = Network_clear, nif_transmit = Network_clear\<rparr> = Inr (ifs, tot) \<and>
     net_bytes (nif_receive tot) = 11"
proof -
  let ?tot = "\<lparr>nif_name = [], nif_receive = Network_clear, nif_transmit = Network_clear\<rparr>"
  have "proc_net_dev demo_lines = Some [''em0: 7'', ''em1: 4'']"
      "net_entries demo_lines [''em0: 7'', ''em1: 4''] = Inr (link_entries (the (be_ifaddrs (demo_bsd 0))))"
      "be_ifaddrs (demo_bsd 0) = Some (the (be_ifaddrs (demo_bsd 0)))"
      "\<forall>a\<in>set (the (be_ifaddrs (demo_bsd 0))). ifa_link a \<noteq> None"
    by (auto simp: demo_lines_def demo_bsd_def link_entries_def net_entry_def tok_network_def Network_clear_def)
  from sampleNetwork_platforms [OF this, of "\<lambda>_. None" ?tot]
  have "sampleNetwork_bsd (demo_bsd 0) (\<lambda>_. None) ?tot = sampleNetwork demo_lines (\<lambda>_. None) ?tot" .
  moreover obtain ifs tot where "sampleNetwork_bsd (demo_bsd 0) (\<lambda>_. None) ?tot = Inr (ifs, tot)" "net_bytes (nif_receive tot) = 11"
    by (simp add: sampleNetwork_bsd_def demo_bsd_def net_add_def Network_clear_def)
  ultimately show ?thesis by metis
qed

end
