(* ===== verification/System_Array.thy ===== *)
theory System_Array
  imports System_Stat Printf "HOL-Library.Sublist" "HOL-Library.Multiset" "HOL-Library.List_Lexorder" "HOL-Library.Char_ord"
begin

text \<open>
  \<open>src/src/system_stat.cpp\<close>: a sample as an associative array and back (\<open>SystemStat::exportToArray\<close> and
  \<open>SystemStat::importFromArray\<close>). The class \<open>AssocArray\<close> of the \<open>ppl7\<close> library is a parameter.
\<close>

subsection \<open>The library\<close>

text \<open>
  An empty array, storing a text or an array under a path, the text at a path, and the arrays below a
  path with their names in the order of the iterator; the last two fail if there is nothing. The
  conversions are those of the class \<open>String\<close>.
\<close>

record 'a array_lib =
  arr_empty :: 'a
  arr_set :: "string \<Rightarrow> string \<Rightarrow> 'a \<Rightarrow> 'a"
  arr_put :: "string \<Rightarrow> 'a \<Rightarrow> 'a \<Rightarrow> 'a"
  arr_get :: "'a \<Rightarrow> string \<Rightarrow> string result"
  arr_sub :: "'a \<Rightarrow> string \<Rightarrow> (string \<times> 'a) list result"
  to_ulong :: "string \<Rightarrow> u64"
  to_int :: "string \<Rightarrow> int"
  to_long :: "string \<Rightarrow> int"
  to_double :: "string \<Rightarrow> rat"

subsection \<open>Export\<close>

text \<open>The texts that are stored, in the order of the calls.\<close>

definition set_all :: "'a array_lib \<Rightarrow> (string \<times> string) list \<Rightarrow> 'a \<Rightarrow> 'a" where
  "set_all lib kvs a = foldl (\<lambda>a (k, v). arr_set lib k v a) a kvs"

definition network_fields :: "string \<Rightarrow> network \<Rightarrow> (string \<times> string) list" where
  "network_fields p n =
     [(p @ ''/bytes'', decimal (unat (net_bytes n))), (p @ ''/packets'', decimal (unat (net_packets n))),
      (p @ ''/errs'', decimal (unat (net_errs n))), (p @ ''/drop'', decimal (unat (net_drop n)))]"

definition total_fields :: "system_stat \<Rightarrow> (string \<times> string) list" where
  "total_fields st =
     (''sampleTime'', fixed 6 (sampleTime st)) # network_fields ''net_total/receive'' (nif_receive (net_total st)) @
     network_fields ''net_total/transmit'' (nif_transmit (net_total st))"

definition export_nif :: "'a array_lib \<Rightarrow> nif \<Rightarrow> 'a" where
  "export_nif lib nf =
     set_all lib (network_fields ''receive'' (nif_receive nf) @ network_fields ''transmit'' (nif_transmit nf) @
       [(''name'', nif_name nf)]) (arr_empty lib)"

fun export_ifs :: "'a array_lib \<Rightarrow> nif list \<Rightarrow> 'a \<Rightarrow> 'a" where
  "export_ifs lib [] a = a"
| "export_ifs lib (nf # nfs) a = export_ifs lib nfs (arr_put lib (''interface'' @ ''/'' @ nif_name nf) (export_nif lib nf) a)"

definition cpu_fields :: "cpu \<Rightarrow> (string \<times> string) list" where
  "cpu_fields c =
     [(''cpu/user'', signed_decimal (user c)), (''cpu/nice'', signed_decimal (nice c)),
      (''cpu/system'', signed_decimal (system c)), (''cpu/idle'', signed_decimal (idle c)),
      (''cpu/iowait'', signed_decimal (iowait c))]"

definition sysinfo_fields :: "sysinfo \<Rightarrow> (string \<times> string) list" where
  "sysinfo_fields s =
     [(''sysinfo/uptime'', signed_decimal (uptime s)), (''sysinfo/freeswap'', signed_decimal (freeswap s)),
      (''sysinfo/totalswap'', signed_decimal (totalswap s)), (''sysinfo/freeram'', signed_decimal (freeram s)),
      (''sysinfo/bufferram'', signed_decimal (bufferram s)), (''sysinfo/totalram'', signed_decimal (totalram s)),
      (''sysinfo/sharedram'', signed_decimal (sharedram s)), (''sysinfo/procs'', signed_decimal (procs s))]"

text \<open>The values of a \<open>std::map\<close> in the order of its keys.\<close>

definition map_values :: "(string \<rightharpoonup> 'v) \<Rightarrow> 'v list" where
  "map_values m = map (\<lambda>k. the (m k)) (sorted_list_of_set (dom m))"

definition exportToArray :: "'a array_lib \<Rightarrow> system_stat \<Rightarrow> 'a \<Rightarrow> 'a" where
  "exportToArray lib st a =
     (let a = set_all lib (total_fields st) a;
          a = export_ifs lib (map_values (interfaces st)) a
      in set_all lib (cpu_fields (stat_cpu st) @ sysinfo_fields (stat_sysinfo st)) a)"

subsection \<open>Import\<close>

text \<open>
  A sequence of assignments, each of a member from the text at a path. An exception of the library ends
  it and leaves the members that were assigned before.
\<close>

fun assign_all :: "'a array_lib \<Rightarrow> 'a \<Rightarrow> (string \<times> (string \<Rightarrow> 's \<Rightarrow> 's)) list \<Rightarrow> 's \<Rightarrow> unit result \<times> 's" where
  "assign_all lib a [] s = (Inr (), s)"
| "assign_all lib a ((k, f) # fs) s =
     (case arr_get lib a k of Inl e \<Rightarrow> (Inl e, s) | Inr t \<Rightarrow> assign_all lib a fs (f t s))"

text \<open>The members of the counters of one direction; \<open>upd\<close> changes these counters in the object.\<close>

definition network_members ::
  "'a array_lib \<Rightarrow> string \<Rightarrow> ((network \<Rightarrow> network) \<Rightarrow> 's \<Rightarrow> 's) \<Rightarrow> (string \<times> (string \<Rightarrow> 's \<Rightarrow> 's)) list" where
  "network_members lib p upd =
     [(p @ ''/bytes'', \<lambda>t. upd (\<lambda>n. n\<lparr>net_bytes := to_ulong lib t\<rparr>)),
      (p @ ''/packets'', \<lambda>t. upd (\<lambda>n. n\<lparr>net_packets := to_ulong lib t\<rparr>)),
      (p @ ''/errs'', \<lambda>t. upd (\<lambda>n. n\<lparr>net_errs := to_ulong lib t\<rparr>)),
      (p @ ''/drop'', \<lambda>t. upd (\<lambda>n. n\<lparr>net_drop := to_ulong lib t\<rparr>))]"

definition upd_receive :: "(network \<Rightarrow> network) \<Rightarrow> nif \<Rightarrow> nif" where
  "upd_receive f nf = nf\<lparr>nif_receive := f (nif_receive nf)\<rparr>"

definition upd_transmit :: "(network \<Rightarrow> network) \<Rightarrow> nif \<Rightarrow> nif" where
  "upd_transmit f nf = nf\<lparr>nif_transmit := f (nif_transmit nf)\<rparr>"

definition nif_members :: "'a array_lib \<Rightarrow> (string \<times> (string \<Rightarrow> nif \<Rightarrow> nif)) list" where
  "nif_members lib = network_members lib ''receive'' upd_receive @ network_members lib ''transmit'' upd_transmit"

definition total_members :: "'a array_lib \<Rightarrow> (string \<times> (string \<Rightarrow> system_stat \<Rightarrow> system_stat)) list" where
  "total_members lib =
     (''sampleTime'', \<lambda>t st. st\<lparr>sampleTime := to_double lib t\<rparr>) #
     network_members lib ''net_total/receive'' (\<lambda>f st. st\<lparr>net_total := upd_receive f (net_total st)\<rparr>) @
     network_members lib ''net_total/transmit'' (\<lambda>f st. st\<lparr>net_total := upd_transmit f (net_total st)\<rparr>)"

definition cpu_members :: "'a array_lib \<Rightarrow> (string \<times> (string \<Rightarrow> cpu \<Rightarrow> cpu)) list" where
  "cpu_members lib =
     [(''cpu/user'', \<lambda>t c. c\<lparr>user := to_int lib t\<rparr>), (''cpu/nice'', \<lambda>t c. c\<lparr>nice := to_int lib t\<rparr>),
      (''cpu/system'', \<lambda>t c. c\<lparr>system := to_int lib t\<rparr>), (''cpu/idle'', \<lambda>t c. c\<lparr>idle := to_int lib t\<rparr>),
      (''cpu/iowait'', \<lambda>t c. c\<lparr>iowait := to_int lib t\<rparr>)]"

definition sysinfo_members :: "'a array_lib \<Rightarrow> (string \<times> (string \<Rightarrow> sysinfo \<Rightarrow> sysinfo)) list" where
  "sysinfo_members lib =
     [(''sysinfo/uptime'', \<lambda>t s. s\<lparr>uptime := to_long lib t\<rparr>), (''sysinfo/freeswap'', \<lambda>t s. s\<lparr>freeswap := to_long lib t\<rparr>),
      (''sysinfo/totalswap'', \<lambda>t s. s\<lparr>totalswap := to_long lib t\<rparr>), (''sysinfo/freeram'', \<lambda>t s. s\<lparr>freeram := to_long lib t\<rparr>),
      (''sysinfo/bufferram'', \<lambda>t s. s\<lparr>bufferram := to_long lib t\<rparr>), (''sysinfo/totalram'', \<lambda>t s. s\<lparr>totalram := to_long lib t\<rparr>),
      (''sysinfo/sharedram'', \<lambda>t s. s\<lparr>sharedram := to_long lib t\<rparr>), (''sysinfo/procs'', \<lambda>t s. s\<lparr>procs := to_int lib t\<rparr>)]"

text \<open>
  The loop over the interfaces: each is a new object that gets its name from the iterator and is then
  inserted, which does not replace one whose name is already there (\<open>std::map::insert\<close>).
\<close>

fun import_ifs :: "'a array_lib \<Rightarrow> (string \<times> 'a) list \<Rightarrow> (string \<rightharpoonup> nif) \<Rightarrow> unit result \<times> (string \<rightharpoonup> nif)" where
  "import_ifs lib [] ifs = (Inr (), ifs)"
| "import_ifs lib ((k, d) # es) ifs =
     (case assign_all lib d (nif_members lib) \<lparr>nif_name = k, nif_receive = Network_clear, nif_transmit = Network_clear\<rparr> of
        (Inl e, nf) \<Rightarrow> (Inl e, ifs)
      | (Inr _, nf) \<Rightarrow> import_ifs lib es (map_insert k nf ifs))"

definition importFromArray :: "'a array_lib \<Rightarrow> 'a \<Rightarrow> system_stat \<Rightarrow> unit result \<times> system_stat" where
  "importFromArray lib a st =
     (case assign_all lib a (total_members lib) st of
        (Inl e, st) \<Rightarrow> (Inl e, st)
      | (Inr _, st) \<Rightarrow>
     (case arr_sub lib a ''interface'' of
        Inl e \<Rightarrow> (Inl e, st)
      | Inr es \<Rightarrow>
     (case import_ifs lib es (interfaces st) of
        (Inl e, ifs) \<Rightarrow> (Inl e, st\<lparr>interfaces := ifs\<rparr>)
      | (Inr _, ifs) \<Rightarrow>
     let st = st\<lparr>interfaces := ifs\<rparr> in
     (case assign_all lib a (cpu_members lib) (stat_cpu st) of
        (Inl e, c) \<Rightarrow> (Inl e, st\<lparr>stat_cpu := c\<rparr>)
      | (Inr _, c) \<Rightarrow>
     let st = st\<lparr>stat_cpu := c\<rparr> in
     (case assign_all lib a (sysinfo_members lib) (stat_sysinfo st) of (r, s) \<Rightarrow> (r, st\<lparr>stat_sysinfo := s\<rparr>))))))"

subsection \<open>What is used of the library\<close>

text \<open>
  Two paths are apart if neither lies on the other. Storing at one path does not change what is found
  at another one, a text that was stored is found again, and an array that is stored under a new
  name is added to those of its parent. The paths here consist of names without a slash that start
  with a letter. Nothing is used of how names are told apart that differ in capital letters only: such
  paths are not apart, and the names in a parent are without capital letters.
\<close>

definition lower :: "char \<Rightarrow> char" where
  "lower c =
     (if 65 \<le> (of_char c :: nat) \<and> (of_char c :: nat) \<le> 90
      then Char (digit0 c) (digit1 c) (digit2 c) (digit3 c) (digit4 c) True (digit6 c) (digit7 c) else c)"

definition branches :: "string \<Rightarrow> string \<Rightarrow> bool" where
  "branches k k' \<longleftrightarrow> \<not> prefix (k @ ''/'') (k' @ ''/'') \<and> \<not> prefix (k' @ ''/'') (k @ ''/'')"

definition apart :: "string \<Rightarrow> string \<Rightarrow> bool" where
  "apart k k' \<longleftrightarrow> branches (map lower k) (map lower k')"

definition is_letter :: "char \<Rightarrow> bool" where
  "is_letter c \<longleftrightarrow> (let n = of_char c :: nat in 65 \<le> n \<and> n \<le> 90 \<or> 97 \<le> n \<and> n \<le> 122)"

definition path_name :: "string \<Rightarrow> bool" where
  "path_name n \<longleftrightarrow> n \<noteq> [] \<and> is_letter (hd n) \<and> CHR ''/'' \<notin> set n"

definition plain_name :: "string \<Rightarrow> bool" where
  "plain_name n \<longleftrightarrow> path_name n \<and> map lower n = n"

definition path :: "string \<Rightarrow> bool" where
  "path k \<longleftrightarrow> list_all path_name (split_on (CHR ''/'') k)"

definition arr_items :: "'a array_lib \<Rightarrow> 'a \<Rightarrow> string \<Rightarrow> (string \<times> 'a) list" where
  "arr_items lib a p = (case arr_sub lib a p of Inl _ \<Rightarrow> [] | Inr es \<Rightarrow> es)"

definition array_ok :: "'a array_lib \<Rightarrow> bool" where
  "array_ok lib \<longleftrightarrow>
     (\<forall>k v a. path k \<longrightarrow> arr_get lib (arr_set lib k v a) k = Inr v) \<and>
     (\<forall>k k' v a. path k \<and> path k' \<and> apart k k' \<longrightarrow> arr_get lib (arr_set lib k v a) k' = arr_get lib a k') \<and>
     (\<forall>k k' d a. path k \<and> path k' \<and> apart k k' \<longrightarrow> arr_get lib (arr_put lib k d a) k' = arr_get lib a k') \<and>
     (\<forall>k p v a. path k \<and> path p \<and> apart k p \<longrightarrow> arr_sub lib (arr_set lib k v a) p = arr_sub lib a p) \<and>
     (\<forall>p. path p \<longrightarrow> arr_items lib (arr_empty lib) p = []) \<and>
     (\<forall>p n d a. path p \<and> plain_name n \<and> n \<notin> fst ` set (arr_items lib a p) \<and> list_all (\<lambda>(k, _). plain_name k) (arr_items lib a p) \<longrightarrow>
        (\<exists>es. arr_sub lib (arr_put lib (p @ ''/'' @ n) d a) p = Inr es \<and> mset es = add_mset (n, d) (mset (arr_items lib a p))))"

definition reading_ok :: "'a array_lib \<Rightarrow> bool" where
  "reading_ok lib \<longleftrightarrow>
     (\<forall>n. to_ulong lib (decimal (unat n)) = n) \<and>
     (\<forall>i. int_ok i \<longrightarrow> to_int lib (signed_decimal i) = i) \<and>
     (\<forall>i. - (2 ^ 63) \<le> i \<and> i < 2 ^ 63 \<longrightarrow> to_long lib (signed_decimal i) = i) \<and>
     (\<forall>x. 0 \<le> x \<longrightarrow> to_double lib (fixed 6 x) = dbl (of_nat (number (filter is_digit (fixed 6 x))) / 10 ^ 6))"


subsection \<open>Storing and finding\<close>

lemma apart_sym: "apart k k' \<longleftrightarrow> apart k' k"
  by (auto simp: apart_def branches_def)

lemma apart_hd: "k \<noteq> [] \<Longrightarrow> k' \<noteq> [] \<Longrightarrow> lower (hd k) \<noteq> lower (hd k') \<Longrightarrow> apart k k'"
  by (cases k; cases k') (simp_all add: apart_def branches_def)

text \<open>Paths that can be stored one after the other.\<close>

definition paths :: "string list \<Rightarrow> bool" where
  "paths ks \<longleftrightarrow> list_all path ks \<and> sorted_wrt apart ks"

lemma array_laws:
  assumes "array_ok lib"
  shows "path k \<Longrightarrow> arr_get lib (arr_set lib k v a) k = Inr v"
    and "path k \<Longrightarrow> path k' \<Longrightarrow> apart k k' \<Longrightarrow> arr_get lib (arr_set lib k v a) k' = arr_get lib a k'"
    and "path k \<Longrightarrow> path k' \<Longrightarrow> apart k k' \<Longrightarrow> arr_get lib (arr_put lib k d a) k' = arr_get lib a k'"
    and "path k \<Longrightarrow> path p \<Longrightarrow> apart k p \<Longrightarrow> arr_sub lib (arr_set lib k v a) p = arr_sub lib a p"
    and "path p \<Longrightarrow> arr_items lib (arr_empty lib) p = []"
  using assms by (simp_all add: array_ok_def)

lemma arr_put_items:
  assumes "array_ok lib" and "path p" and "plain_name n" and "n \<notin> fst ` set (arr_items lib a p)"
    and "list_all (\<lambda>(k, _). plain_name k) (arr_items lib a p)"
  obtains es where "arr_sub lib (arr_put lib (p @ ''/'' @ n) d a) p = Inr es"
    and "mset es = add_mset (n, d) (mset (arr_items lib a p))"
proof -
  have "\<exists>es. arr_sub lib (arr_put lib (p @ ''/'' @ n) d a) p = Inr es \<and> mset es = add_mset (n, d) (mset (arr_items lib a p))"
    using assms by (simp add: array_ok_def)
  then show ?thesis using that by blast
qed

lemma set_all_simps [simp]:
  "set_all lib [] a = a" "set_all lib ((k, v) # kvs) a = set_all lib kvs (arr_set lib k v a)"
  by (simp_all add: set_all_def)

lemma set_all_other:
  assumes "array_ok lib" and "path k" and "\<forall>k'\<in>fst ` set kvs. path k' \<and> apart k' k"
  shows "arr_get lib (set_all lib kvs a) k = arr_get lib a k" and "arr_sub lib (set_all lib kvs a) k = arr_sub lib a k"
  using assms(3) by (induction kvs arbitrary: a) (auto simp: array_laws [OF assms(1)] assms(2))

lemma set_all_get:
  assumes "array_ok lib" and "paths (map fst kvs)" and "(k, v) \<in> set kvs"
  shows "arr_get lib (set_all lib kvs a) k = Inr v"
  using assms(2,3)
proof (induction kvs arbitrary: a)
  case (Cons kv kvs)
  obtain k0 v0 where kv: "kv = (k0, v0)" by fastforce
  have p: "paths (map fst kvs)" "path k0" "\<forall>k'\<in>fst ` set kvs. path k' \<and> apart k' k0"
    using Cons.prems(1) by (auto simp: paths_def kv list_all_iff apart_sym [of k0])
  show ?case
  proof (cases "(k, v) \<in> set kvs")
    case True
    then show ?thesis using Cons.IH [OF p(1)] by (simp add: kv)
  next
    case False
    then show ?thesis
      using Cons.prems(2) set_all_other(1) [OF assms(1) p(2,3)] array_laws(1) [OF assms(1) p(2)] by (simp add: kv)
  qed
qed simp

text \<open>The paths of the members .\<close>

definition total_keys :: "string list" where
  "total_keys = [''sampleTime'', ''net_total/receive/bytes'', ''net_total/receive/packets'', ''net_total/receive/errs'',
     ''net_total/receive/drop'', ''net_total/transmit/bytes'', ''net_total/transmit/packets'', ''net_total/transmit/errs'',
     ''net_total/transmit/drop'']"

definition late_keys :: "string list" where
  "late_keys = [''cpu/user'', ''cpu/nice'', ''cpu/system'', ''cpu/idle'', ''cpu/iowait'', ''sysinfo/uptime'', ''sysinfo/freeswap'',
     ''sysinfo/totalswap'', ''sysinfo/freeram'', ''sysinfo/bufferram'', ''sysinfo/totalram'', ''sysinfo/sharedram'', ''sysinfo/procs'']"

definition nif_keys :: "string list" where
  "nif_keys = [''receive/bytes'', ''receive/packets'', ''receive/errs'', ''receive/drop'',
     ''transmit/bytes'', ''transmit/packets'', ''transmit/errs'', ''transmit/drop'', ''name'']"

lemma fields_keys: "map fst (total_fields st) = total_keys" "map fst (cpu_fields c @ sysinfo_fields s) = late_keys"
    "map fst (network_fields ''receive'' r @ network_fields ''transmit'' t @ [(''name'', n)]) = nif_keys"
  by (simp_all add: total_fields_def network_fields_def total_keys_def cpu_fields_def sysinfo_fields_def late_keys_def nif_keys_def)

lemma lower_keys:
  "map (map lower) total_keys = ''sampletime'' # tl total_keys" "map (map lower) late_keys = late_keys"
  "map (map lower) nif_keys = nif_keys" "map lower ''interface'' = ''interface''"
  by code_simp+

lemma keys_eq: "fst ` set (total_fields st) = set total_keys" "fst ` set (cpu_fields c @ sysinfo_fields s) = set late_keys"
  using arg_cong [OF fields_keys(1), of set] arg_cong [OF fields_keys(2), of set] by (simp_all add: image_Un)

lemma apart_lower:
  "sorted_wrt apart ks \<longleftrightarrow> sorted_wrt branches (map (map lower) ks)"
  "list_all (\<lambda>k. list_all (\<lambda>k'. apart k' k) js) ks \<longleftrightarrow>
     list_all (\<lambda>x. list_all (\<lambda>y. branches y x) (map (map lower) js)) (map (map lower) ks)"
  by (simp_all add: sorted_wrt_map apart_def [abs_def] list.pred_map comp_def)

lemma field_paths: "paths (map fst (total_fields st))"
    "paths (map fst (cpu_fields c @ sysinfo_fields s))"
    "paths (map fst (network_fields ''receive'' r @ network_fields ''transmit'' t @ [(''name'', n)]))"
  unfolding fields_keys paths_def apart_lower lower_keys by code_simp+

lemma keys_ok: "list_all (\<lambda>k. path k \<and> lower (hd k) \<noteq> CHR ''i'' \<and> k \<noteq> []) total_keys" "list_all path late_keys"
    "list_all (\<lambda>k. list_all (\<lambda>k'. apart k' k) late_keys) (''interface'' # total_keys)"
    "list_all (\<lambda>k. list_all (\<lambda>k'. apart k' k) total_keys) [''interface'']"
  unfolding apart_lower list.map lower_keys by code_simp+

lemma interface_path: "plain_name n \<Longrightarrow> path (''interface'' @ ''/'' @ n)"
proof -
  assume n: "plain_name n"
  have "split_on (CHR ''/'') (''interface'' @ CHR ''/'' # n) = ''interface'' # split_on (CHR ''/'') n"
    by (rule split_on_column) simp
  also have "split_on (CHR ''/'') n = [n]" using n by (intro split_on_none) (simp add: plain_name_def path_name_def)
  finally show "path (''interface'' @ ''/'' @ n)"
    using n by (simp add: path_def plain_name_def) (simp add: path_name_def is_letter_def)
qed

subsection \<open>The interfaces\<close>

lemma lower_i: "lower (CHR ''i'') = CHR ''i''"
  by code_simp

lemma export_ifs_get:
  assumes "array_ok lib" and "\<forall>nf\<in>set nfs. plain_name (nif_name nf)" and "path k" and "lower (hd k) \<noteq> CHR ''i''" and "k \<noteq> []"
  shows "arr_get lib (export_ifs lib nfs a) k = arr_get lib a k"
  using assms(2)
proof (induction nfs arbitrary: a)
  case (Cons nf nfs)
  have "apart (''interface'' @ ''/'' @ nif_name nf) k" using assms(4,5) by (intro apart_hd) (auto simp: lower_i)
  moreover have "path (''interface'' @ ''/'' @ nif_name nf)" using Cons.prems by (intro interface_path) simp
  ultimately show ?case
    using Cons array_laws(3) [OF assms(1) _ assms(3)] by simp
qed simp

lemma interface_is_path: "path ''interface''"
  by code_simp

lemma export_ifs_items:
  assumes "array_ok lib" and "\<forall>nf\<in>set nfs. plain_name (nif_name nf)" and "distinct (map nif_name nfs)"
    and "fst ` set (arr_items lib a ''interface'') \<inter> set (map nif_name nfs) = {}"
    and "list_all (\<lambda>(k, _). plain_name k) (arr_items lib a ''interface'')"
  shows "mset (arr_items lib (export_ifs lib nfs a) ''interface'') =
      mset (arr_items lib a ''interface'') + mset (map (\<lambda>nf. (nif_name nf, export_nif lib nf)) nfs) \<and>
    (nfs \<noteq> [] \<longrightarrow> arr_sub lib (export_ifs lib nfs a) ''interface'' = Inr (arr_items lib (export_ifs lib nfs a) ''interface''))"
  using assms(2-)
proof (induction nfs arbitrary: a)
  case (Cons nf nfs)
  define a' where "a' = arr_put lib (''interface'' @ ''/'' @ nif_name nf) (export_nif lib nf) a"
  have e: "export_ifs lib (nf # nfs) a = export_ifs lib nfs a'" by (simp add: a'_def)
  obtain es where es: "arr_sub lib a' ''interface'' = Inr es"
      "mset es = add_mset (nif_name nf, export_nif lib nf) (mset (arr_items lib a ''interface''))"
    unfolding a'_def
    by (rule arr_put_items [OF assms(1) interface_is_path, of "nif_name nf" a "export_nif lib nf"]) (use Cons.prems in auto)
  have i: "arr_items lib a' ''interface'' = es" by (simp add: arr_items_def es(1))
  have "set es = insert (nif_name nf, export_nif lib nf) (set (arr_items lib a ''interface''))"
    using arg_cong [OF es(2), of set_mset] by simp
  then have "fst ` set (arr_items lib a' ''interface'') \<inter> set (map nif_name nfs) = {}"
      "list_all (\<lambda>(k, _). plain_name k) (arr_items lib a' ''interface'')"
    using Cons.prems by (auto simp: i list_all_iff)
  with Cons.IH [of a'] Cons.prems es i show ?case unfolding e by (cases nfs) auto
qed simp

lemma fields_get:
  assumes "array_ok lib" and "paths (map fst kvs)" and "\<And>k. k \<in> fst ` set kvs \<Longrightarrow> arr_get lib b k = arr_get lib (set_all lib kvs a) k"
  shows "\<forall>(k, v)\<in>set kvs. arr_get lib b k = Inr v"
proof safe
  fix k v assume kv: "(k, v) \<in> set kvs"
  then have "arr_get lib b k = arr_get lib (set_all lib kvs a) k" by (intro assms(3)) force
  then show "arr_get lib b k = Inr v" using set_all_get [OF assms(1,2) kv] by simp
qed

lemma assign_all_append:
  "assign_all lib a (fs @ gs) s = (case assign_all lib a fs s of (Inl e, s) \<Rightarrow> (Inl e, s) | (Inr _, s) \<Rightarrow> assign_all lib a gs s)"
  by (induction fs arbitrary: s) (auto split: sum.split)

lemma network_assigned:
  fixes n m :: network
  shows "n\<lparr>net_bytes := net_bytes m, net_packets := net_packets m, net_errs := net_errs m, net_drop := net_drop m\<rparr> = m"
  by (cases n; cases m) simp

text \<open>Reading back the counters of one direction replaces them by those that were stored.\<close>

lemma network_get:
  assumes "reading_ok lib" and "\<forall>(k, v)\<in>set (network_fields p n). arr_get lib b k = Inr v"
    and "\<And>f g s. upd g (upd f s) = upd (\<lambda>x. g (f x)) s"
  shows "assign_all lib b (network_members lib p upd) s = (Inr (), upd (\<lambda>_. n) s)"
  using assms
  by (simp add: network_members_def network_fields_def reading_ok_def network_assigned)

lemma upd_twice: "upd_receive g (upd_receive f nf) = upd_receive (\<lambda>x. g (f x)) nf"
    "upd_transmit g (upd_transmit f nf) = upd_transmit (\<lambda>x. g (f x)) nf"
  by (simp_all add: upd_receive_def upd_transmit_def)

lemma import_export_nif:
  assumes "array_ok lib" and "reading_ok lib"
  shows "assign_all lib (export_nif lib nf) (nif_members lib) nf0 =
    (Inr (), nf0\<lparr>nif_receive := nif_receive nf, nif_transmit := nif_transmit nf\<rparr>)"
proof -
  let ?kvs = "network_fields ''receive'' (nif_receive nf) @ network_fields ''transmit'' (nif_transmit nf) @ [(''name'', nif_name nf)]"
  have "\<forall>(k, v)\<in>set ?kvs. arr_get lib (export_nif lib nf) k = Inr v"
    unfolding export_nif_def by (rule fields_get [OF assms(1) field_paths(3)]) simp
  then have "assign_all lib (export_nif lib nf) (network_members lib ''receive'' upd_receive) s = (Inr (), upd_receive (\<lambda>_. nif_receive nf) s)"
    "assign_all lib (export_nif lib nf) (network_members lib ''transmit'' upd_transmit) s = (Inr (), upd_transmit (\<lambda>_. nif_transmit nf) s)" for s
    by (intro network_get [OF assms(2)] upd_twice; auto)+
  then show ?thesis by (simp add: nif_members_def assign_all_append upd_receive_def upd_transmit_def)
qed

lemma import_ifs_eq:
  assumes "array_ok lib" and "reading_ok lib" and "\<forall>(k, d)\<in>set es. \<exists>nf. m k = Some nf \<and> nif_name nf = k \<and> d = export_nif lib nf"
  shows "import_ifs lib es ifs = (Inr (), \<lambda>k. case ifs k of Some old \<Rightarrow> Some old | None \<Rightarrow> if k \<in> fst ` set es then m k else None)"
  using assms(3)
proof (induction es arbitrary: ifs)
  case (Cons e es)
  obtain k nf where e: "e = (k, export_nif lib nf)" "m k = Some nf" "nif_name nf = k" using Cons.prems by force
  then have nf: "\<lparr>nif_name = k, nif_receive = nif_receive nf, nif_transmit = nif_transmit nf\<rparr> = nf" by (cases nf) simp
  have "import_ifs lib (e # es) ifs = import_ifs lib es (map_insert k nf ifs)"
    using nf by (simp add: e(1) import_export_nif [OF assms(1,2)])
  also have "\<dots> = (Inr (), \<lambda>j. case map_insert k nf ifs j of Some old \<Rightarrow> Some old | None \<Rightarrow> if j \<in> fst ` set es then m j else None)"
    using Cons.IH Cons.prems by simp
  also have "(\<lambda>j. case map_insert k nf ifs j of Some old \<Rightarrow> Some old | None \<Rightarrow> if j \<in> fst ` set es then m j else None) =
      (\<lambda>j. case ifs j of Some old \<Rightarrow> Some old | None \<Rightarrow> if j \<in> fst ` set (e # es) then m j else None)"
    using e by (auto simp: fun_eq_iff map_insert_def split: option.splits)
  finally show ?case .
qed (simp add: fun_eq_iff split: option.split)


subsection \<open>The round trip\<close>

text \<open>
  A sample as the sampling leaves it: every interface is stored under its name, and the members are
  in the ranges of their types.
\<close>

definition named_interfaces :: "(string \<rightharpoonup> nif) \<Rightarrow> bool" where
  "named_interfaces m \<longleftrightarrow> finite (dom m) \<and> (\<forall>k nf. m k = Some nf \<longrightarrow> nif_name nf = k \<and> plain_name k)"

definition stat_range :: "system_stat \<Rightarrow> bool" where
  "stat_range st \<longleftrightarrow>
     0 \<le> sampleTime st \<and> list_all (\<lambda>f. int_ok (f (stat_cpu st))) [user, nice, system, idle, iowait] \<and>
     list_all (\<lambda>f. - (2 ^ 63) \<le> f (stat_sysinfo st) \<and> f (stat_sysinfo st) < 2 ^ 63)
       [uptime, freeswap, totalswap, freeram, bufferram, totalram, sharedram] \<and>
     int_ok (procs (stat_sysinfo st))"

lemma map_values_names:
  assumes "named_interfaces m"
  shows "map nif_name (map_values m) = sorted_list_of_set (dom m)" and "nf \<in> set (map_values m) \<longleftrightarrow> m (nif_name nf) = Some nf"
proof -
  have f: "finite (dom m)" and n: "\<And>k nf. m k = Some nf \<Longrightarrow> nif_name nf = k" using assms by (auto simp: named_interfaces_def)
  have "map nif_name (map_values m) = map (\<lambda>k. k) (sorted_list_of_set (dom m))"
    unfolding map_values_def map_map comp_def using f n by (intro map_cong) force+
  then show "map nif_name (map_values m) = sorted_list_of_set (dom m)" by simp
  show "nf \<in> set (map_values m) \<longleftrightarrow> m (nif_name nf) = Some nf"
  proof
    assume "nf \<in> set (map_values m)"
    then obtain k where "k \<in> dom m" "nf = the (m k)" using f by (auto simp: map_values_def)
    then show "m (nif_name nf) = Some nf" using n by auto
  next
    assume nf: "m (nif_name nf) = Some nf"
    then have "nif_name nf \<in> set (sorted_list_of_set (dom m))" using f by (simp add: domI)
    then have "the (m (nif_name nf)) \<in> set (map_values m)" unfolding map_values_def set_map by (rule imageI)
    then show "nf \<in> set (map_values m)" using nf by simp
  qed
qed

text \<open>What the three groups of calls store can be found in the result.\<close>

lemma exported:
  assumes "array_ok lib" and "named_interfaces (interfaces st)"
  shows "\<forall>(k, v)\<in>set (total_fields st @ cpu_fields (stat_cpu st) @ sysinfo_fields (stat_sysinfo st)).
      arr_get lib (exportToArray lib st a) k = Inr v"
    and "arr_sub lib (exportToArray lib st a) ''interface'' =
      arr_sub lib (export_ifs lib (map_values (interfaces st)) (set_all lib (total_fields st) a)) ''interface''"
proof -
  let ?late = "cpu_fields (stat_cpu st) @ sysinfo_fields (stat_sysinfo st)"
  define b where "b = export_ifs lib (map_values (interfaces st)) (set_all lib (total_fields st) a)"
  have e: "exportToArray lib st a = set_all lib ?late b" by (simp add: exportToArray_def b_def Let_def)
  have plain: "\<forall>nf\<in>set (map_values (interfaces st)). plain_name (nif_name nf)"
    using assms(2) unfolding map_values_names(2) [OF assms(2)] named_interfaces_def Ball_def by blast
  have late: "\<forall>k'\<in>fst ` set ?late. path k' \<and> apart k' k" if "k \<in> fst ` set (total_fields st) \<union> {''interface''}" for k
    using that keys_ok(2,3) unfolding keys_eq by (auto simp: list_all_iff)
  have tot: "path k \<and> lower (hd k) \<noteq> CHR ''i'' \<and> k \<noteq> []" if "k \<in> fst ` set (total_fields st)" for k
    using that keys_ok(1) unfolding keys_eq by (simp add: list_all_iff)
  have "\<forall>(k, v)\<in>set (total_fields st). arr_get lib (exportToArray lib st a) k = Inr v"
  proof (rule fields_get [OF assms(1) field_paths(1)])
    fix k assume k: "k \<in> fst ` set (total_fields st)"
    then have "arr_get lib (exportToArray lib st a) k = arr_get lib b k"
      unfolding e using late [of k] tot [OF k] by (intro set_all_other(1) [OF assms(1)]; simp)
    also have "\<dots> = arr_get lib (set_all lib (total_fields st) a) k"
      unfolding b_def using tot [OF k] by (intro export_ifs_get [OF assms(1) plain]; simp)
    finally show "arr_get lib (exportToArray lib st a) k = arr_get lib (set_all lib (total_fields st) a) k" .
  qed
  moreover have "\<forall>(k, v)\<in>set ?late. arr_get lib (exportToArray lib st a) k = Inr v"
    unfolding e by (rule fields_get [OF assms(1) field_paths(2)]) simp
  ultimately show "\<forall>(k, v)\<in>set (total_fields st @ ?late). arr_get lib (exportToArray lib st a) k = Inr v" by auto
  show "arr_sub lib (exportToArray lib st a) ''interface'' =
      arr_sub lib (export_ifs lib (map_values (interfaces st)) (set_all lib (total_fields st) a)) ''interface''"
    unfolding e b_def [symmetric] using late [of "''interface''"] by (intro set_all_other(2) [OF assms(1) interface_is_path]; simp)
qed

lemma reading:
  assumes "reading_ok lib"
  shows "to_ulong lib (decimal (unat n)) = n" and "int_ok i \<Longrightarrow> to_int lib (signed_decimal i) = i"
    and "- (2 ^ 63) \<le> i \<Longrightarrow> i < 2 ^ 63 \<Longrightarrow> to_long lib (signed_decimal i) = i"
    and "0 \<le> x \<Longrightarrow> to_double lib (fixed 6 x) = dbl (of_nat (number (filter is_digit (fixed 6 x))) / 10 ^ 6)"
  using assms unfolding reading_ok_def by blast+

lemma import_interfaces:
  assumes "array_ok lib" and "reading_ok lib" and "named_interfaces (interfaces st)" and "dom (interfaces st) \<noteq> {}"
  shows "\<exists>es. arr_sub lib (exportToArray lib st (arr_empty lib)) ''interface'' = Inr es \<and>
    import_ifs lib es Map.empty = (Inr (), interfaces st)"
proof -
  let ?m = "interfaces st" and ?f = "\<lambda>nf. (nif_name nf, export_nif lib nf)"
  let ?nfs = "map_values ?m"
  define b where "b = export_ifs lib ?nfs (set_all lib (total_fields st) (arr_empty lib))"
  have fin: "finite (dom ?m)" using assms(3) by (simp add: named_interfaces_def)
  have plain: "\<forall>nf\<in>set ?nfs. plain_name (nif_name nf)"
    using assms(3) unfolding map_values_names(2) [OF assms(3)] named_interfaces_def Ball_def by blast
  have "arr_sub lib (set_all lib (total_fields st) (arr_empty lib)) ''interface'' = arr_sub lib (arr_empty lib) ''interface''"
    using keys_ok(1,4) by (intro set_all_other(2) [OF assms(1) interface_is_path]) (simp add: keys_eq list_all_iff)
  then have none: "arr_items lib (set_all lib (total_fields st) (arr_empty lib)) ''interface'' = []"
    using array_laws(5) [OF assms(1) interface_is_path] by (simp add: arr_items_def)
  have ne: "?nfs \<noteq> []" using assms(4) fin by (simp add: map_values_def)
  have dist: "distinct (map nif_name ?nfs)" unfolding map_values_names(1) [OF assms(3)] by simp
  let ?es = "arr_items lib b ''interface''"
  have es: "mset ?es = mset (map ?f ?nfs)" "arr_sub lib b ''interface'' = Inr ?es"
    using export_ifs_items [OF assms(1) plain dist, of "set_all lib (total_fields st) (arr_empty lib)"] ne by (simp_all add: none b_def)
  have set: "set ?es = ?f ` set ?nfs" using arg_cong [OF es(1), of set_mset] by simp
  have "\<forall>(k, d)\<in>set ?es. \<exists>nf. ?m k = Some nf \<and> nif_name nf = k \<and> d = export_nif lib nf"
    unfolding set using map_values_names(2) [OF assms(3)] by auto
  then have "import_ifs lib ?es Map.empty = (Inr (), \<lambda>k. if k \<in> fst ` set ?es then ?m k else None)"
    using import_ifs_eq [OF assms(1,2), of ?es ?m Map.empty] by simp
  moreover have "fst ` set ?es = dom ?m"
  proof -
    have "fst ` set ?es = set (map nif_name ?nfs)" unfolding set by (simp add: image_image)
    then show ?thesis using fin unfolding map_values_names(1) [OF assms(3)] by simp
  qed
  then have "(\<lambda>k. if k \<in> fst ` set ?es then ?m k else None) = ?m" by (auto simp: fun_eq_iff)
  ultimately show ?thesis using es(2) exported(2) [OF assms(1,3)] by (simp add: b_def)
qed

text \<open>
  C39. A sample with at least one interface, whose interfaces have plain lower-case names, that was
  exported to an empty array and is imported into a new object comes back: all counters and all interfaces are the same, and the time of the sample is the one with six decimals,
  which differs from it by at most half a microsecond before it is rounded to a \<open>double\<close>.
\<close>

theorem export_import:
  assumes "array_ok lib" and "reading_ok lib" and "named_interfaces (interfaces st)" and "dom (interfaces st) \<noteq> {}"
    and "stat_range st" and "interfaces st0 = Map.empty"
  shows "\<exists>st' t. importFromArray lib (exportToArray lib st (arr_empty lib)) st0 = (Inr (), st') \<and>
    stat_cpu st' = stat_cpu st \<and> stat_sysinfo st' = stat_sysinfo st \<and> interfaces st' = interfaces st \<and>
    nif_receive (net_total st') = nif_receive (net_total st) \<and> nif_transmit (net_total st') = nif_transmit (net_total st) \<and>
    sampleTime st' = dbl t \<and> \<bar>t - sampleTime st\<bar> \<le> 1 / (2 * 10 ^ 6)"
proof -
  let ?a = "exportToArray lib st (arr_empty lib)" and ?t = "of_nat (number (filter is_digit (fixed 6 (sampleTime st)))) / 10 ^ 6"
  note g = exported(1) [OF assms(1,3), of "arr_empty lib"] and rd = reading [OF assms(2)]
  have "\<forall>(k, v)\<in>set (cpu_fields (stat_cpu st)). arr_get lib ?a k = Inr v" using g by auto
  then have cpu: "assign_all lib ?a (cpu_members lib) c = (Inr (), stat_cpu st)" for c
    using assms(5) by (simp add: cpu_members_def cpu_fields_def rd stat_range_def)
  have "\<forall>(k, v)\<in>set (sysinfo_fields (stat_sysinfo st)). arr_get lib ?a k = Inr v" using g by auto
  then have si: "assign_all lib ?a (sysinfo_members lib) s = (Inr (), stat_sysinfo st)" for s
    using assms(5) by (simp add: sysinfo_members_def sysinfo_fields_def rd stat_range_def)
  have net: "assign_all lib ?a (network_members lib ''net_total/receive'' (\<lambda>f st. st\<lparr>net_total := upd_receive f (net_total st)\<rparr>)) x =
      (Inr (), x\<lparr>net_total := upd_receive (\<lambda>_. nif_receive (net_total st)) (net_total x)\<rparr>)"
    "assign_all lib ?a (network_members lib ''net_total/transmit'' (\<lambda>f st. st\<lparr>net_total := upd_transmit f (net_total st)\<rparr>)) x =
      (Inr (), x\<lparr>net_total := upd_transmit (\<lambda>_. nif_transmit (net_total st)) (net_total x)\<rparr>)" for x
    using g by (intro network_get [OF assms(2)]; simp add: total_fields_def upd_twice)+
  have "arr_get lib ?a ''sampleTime'' = Inr (fixed 6 (sampleTime st))" using g by (simp add: total_fields_def)
  then have tot: "assign_all lib ?a (total_members lib) st0 = (Inr (), st0\<lparr>sampleTime := to_double lib (fixed 6 (sampleTime st)),
      net_total := upd_transmit (\<lambda>_. nif_transmit (net_total st)) (upd_receive (\<lambda>_. nif_receive (net_total st)) (net_total st0))\<rparr>)"
    by (simp add: total_members_def assign_all_append net)
  have "0 \<le> sampleTime st" using assms(5) by (simp add: stat_range_def)
  then have "to_double lib (fixed 6 (sampleTime st)) = dbl ?t" "\<bar>?t - sampleTime st\<bar> \<le> 1 / (2 * 10 ^ 6)"
    using rd(4) fixed_accurate [of "sampleTime st" 6] by simp_all
  then show ?thesis
    using import_interfaces [OF assms(1-4)] assms(6) 
    by (auto simp: importFromArray_def tot cpu si Let_def upd_receive_def upd_transmit_def)
qed

text \<open>A library in which the hypotheses hold: an array is the list of its entries by their paths.\<close>

datatype arr = Arr (texts: "(string \<times> string) list") (parts: "(string \<times> arr) list")

definition parts_below :: "arr \<Rightarrow> string \<Rightarrow> (string \<times> arr) list" where
  "parts_below a p = map (\<lambda>(k, d). (drop (length p + 1) k, d)) (filter (\<lambda>(k, d). prefix (p @ ''/'') k) (parts a))"

definition signed_number :: "string \<Rightarrow> int" where
  "signed_number s = (if s \<noteq> [] \<and> hd s = CHR ''-'' then - int (number (tl s)) else int (number s))"

definition demo_array_lib :: "arr array_lib" where
  "demo_array_lib = \<lparr>arr_empty = Arr [] [], arr_set = (\<lambda>k v a. Arr ((k, v) # texts a) (parts a)),
     arr_put = (\<lambda>k d a. Arr (texts a) ((k, d) # parts a)),
     arr_get = (\<lambda>a k. case map_of (texts a) k of None \<Rightarrow> Inl Ppl7Exception | Some v \<Rightarrow> Inr v),
     arr_sub = (\<lambda>a p. case parts_below a p of [] \<Rightarrow> Inl Ppl7Exception | e # es \<Rightarrow> Inr (e # es)),
     to_ulong = (\<lambda>s. word_of_nat (number s)), to_int = signed_number, to_long = signed_number,
     to_double = (\<lambda>s. dbl (of_nat (number (filter is_digit s)) / 10 ^ 6))\<rparr>"

lemma signed_number_decimal: "signed_number (signed_decimal i) = i"
proof (cases "i < 0")
  case False
  have "\<not> is_digit (CHR ''-'')" by code_simp
  then have "CHR ''-'' \<notin> set (decimal (nat i))" using decimal_digits by blast
  then have "decimal (nat i) = [] \<or> hd (decimal (nat i)) \<noteq> CHR ''-''" by (metis list.set_sel(1))
  then show ?thesis using False by (auto simp: signed_number_def signed_decimal_def)
qed (simp add: signed_number_def signed_decimal_def)

lemma demo_array_lib_ok: "array_ok demo_array_lib" "reading_ok demo_array_lib"
proof -
  have items: "arr_items demo_array_lib a p = parts_below a p" for a p
    by (simp add: arr_items_def demo_array_lib_def split: list.split)
  have "apart k k' \<Longrightarrow> k \<noteq> k'" for k k' by (auto simp: apart_def branches_def)
  moreover have "parts_below (Arr t ((p @ ''/'' @ n, d) # ps)) p = (n, d) # parts_below (Arr t' ps) p" for t t' p n d ps
    by (simp add: parts_below_def)
  moreover have "parts_below (Arr t (parts a)) p = parts_below a p" for t a p by (simp add: parts_below_def)
  ultimately show "array_ok demo_array_lib"
    unfolding array_ok_def items by (auto simp: demo_array_lib_def parts_below_def)
  show "reading_ok demo_array_lib" by (simp add: reading_ok_def demo_array_lib_def signed_number_decimal)
qed

definition demo_network :: network where
  "demo_network = \<lparr>net_bytes = 2 ^ 40, net_packets = 9, net_errs = 0, net_drop = 1\<rparr>"

definition demo_array_sample :: system_stat where
  "demo_array_sample = \<lparr>sampleTime = 3 / 2, stat_cpu = \<lparr>user = 5, nice = -1, system = 3, idle = 90, iowait = 2\<rparr>,
     stat_sysinfo = \<lparr>uptime = 100, freeswap = 0, totalswap = 0, freeram = 4096, bufferram = 64, totalram = 8192, sharedram = 0,
       procs = 80\<rparr>,
     net_total = \<lparr>nif_name = [], nif_receive = demo_network, nif_transmit = demo_network\<rparr>,
     interfaces = [''em0'' \<mapsto> \<lparr>nif_name = ''em0'', nif_receive = demo_network, nif_transmit = demo_network\<rparr>]\<rparr>"

theorem export_import_witness:
  "\<exists>st'. importFromArray demo_array_lib (exportToArray demo_array_lib demo_array_sample (Arr [] [])) (demo_array_sample\<lparr>interfaces := Map.empty\<rparr>) = (Inr (), st') \<and>
     interfaces st' = interfaces demo_array_sample \<and> stat_cpu st' = stat_cpu demo_array_sample"
proof -
  have "plain_name ''em0''" by code_simp
  then have n: "named_interfaces (interfaces demo_array_sample)" by (simp add: named_interfaces_def demo_array_sample_def)
  have d: "dom (interfaces demo_array_sample) \<noteq> {}" by (simp add: demo_array_sample_def)
  have r: "stat_range demo_array_sample" by (simp add: stat_range_def demo_array_sample_def int_ok_def)
  show ?thesis
    using export_import [OF demo_array_lib_ok n d r, of "demo_array_sample\<lparr>interfaces := Map.empty\<rparr>"] by (auto simp: demo_array_lib_def)
qed

end
