(* ===== verification/Spec2Isabelle.thy ===== *)
theory Spec2Isabelle
  imports Program Thread_Pool Bpf_Receiver Lifetime System_Bsd System_Array
begin

text \<open>
  A model of dnsmeter (\<open>src/src\<close>), a tool that sends DNS queries over raw sockets at given rates,
  receives the answers, and reports counts, losses and round-trip times.

  \<^bold>\<open>The program.\<close> \<open>main\<close> constructs a \<open>DNSSender\<close>, which reads the command line, opens the payload, the
  source and the CSV file, and creates a receiver thread and a pool of sender threads. For every rate
  it runs a session: the threads are configured with a share of the rate and a length of their time
  slices and started; each draws queries from the payload, which all of them share under a mutex,
  completes a \<open>Packet\<close> (source, DNSSEC option, time stamp as DNS identifier, checksums) and sends it
  through its \<open>RawSocketSender\<close>; the receiver thread counts the answers that its \<open>RawSocketReceiver\<close>
  sees and computes their round-trip times from the identifiers; the main thread prints the
  statistics of every second, then adds up the counters, prints a report and writes a line of the
  CSV file.

  \<^bold>\<open>The theories\<close>, in the order of their imports.

  \<^item> \<open>Dns_Prelude\<close>: machine types, the error type \<open>exn\<close> with the exceptions of \<open>exceptions.h\<close>, byte
    buffers with their loads and stores.
  \<^item> \<open>Floating\<close>: \<open>double\<close> and \<open>float\<close> as rationals with explicit rounding (\<open>dbl\<close>, \<open>flt\<close>).
  \<^item> \<open>Checksum\<close>: \<open>in_cksum\<close> of \<open>packet.cpp\<close> equals the checksum of RFC 1071 for every length.
  \<^item> \<open>Query\<close> (\<open>query.cpp\<close>): compilation of a query, the DNSSEC option, time stamps and round-trip times
    with their accuracy.
  \<^item> \<open>Packet\<close> (\<open>packet.cpp\<close>): every operation on the buffer; what \<open>ptr\<close> hands out is a valid IPv4 and
    UDP datagram after every sequence of operations in which \<open>useSourceFromPcap\<close> follows another setter.
  \<^item> \<open>Payload_File\<close> (\<open>payload_file.cpp\<close>): loading of text and pcap files, and the cyclic iterator.
  \<^item> \<open>Raw_Socket_Sender\<close> (\<open>raw_socket_sender.cpp\<close>).
  \<^item> \<open>Sender_Thread\<close> and \<open>Sender_Run\<close> (\<open>dns_sender_thread.cpp\<close>): \<open>sendPacket\<close> refines an abstract step that
    sends the next message of the payload, from a source inside the given network; the loops with and without a limit send exactly as many
    packets as the rate and the slices ask for, and the requested share of them has the DNSSEC option.
  \<^item> \<open>Raw_Socket_Receiver\<close> (\<open>raw_socket_receiver.cpp\<close> on Linux, \<open>dns_receiver_thread.cpp\<close>): the counters
    are those of the frames of the name server.
  \<^item> \<open>Bpf_Receiver\<close> (\<open>raw_socket_receiver.cpp\<close> on FreeBSD): the filter program on a model of the filter
    machine, in which a jump out of the program is an outcome of its own, accepts these frames and
    rejects all others; the buffer loops count every record of a buffer once, and the shared buffers
    go back to the kernel.
  \<^item> \<open>System_Stat\<close>, \<open>System_Bsd\<close>, \<open>System_Array\<close> (\<open>system_stat.cpp\<close>): sampling on Linux and on FreeBSD,
    differences of samples, export to and import from an array.
  \<^item> \<open>Printf\<close>: the conversions of \<open>printf\<close> that are used, and that their columns can be read back.
  \<^item> \<open>Dns_Sender\<close>, \<open>Session\<close> (\<open>dns_sender.cpp\<close>): parameters, thread configuration, a session with its
    monitor loop, results, reports, CSV lines and handlers.
  \<^item> \<open>Thread_Pool\<close>: the sender threads interleaved, statement by statement inside \<open>getQuery\<close>, with the
    mutex as part of the state. Mutual exclusion; every interleaving is equivalent to a sequence of
    whole calls of \<open>sendPacket\<close>; the queries are handed out in turn to all threads together; no
    deadlock. Each thread sees the calls of \<open>Sender_Thread\<close> with the draws of the others in between.
  \<^item> \<open>Session_Plan\<close>, \<open>Program\<close> (\<open>dns_sender.cpp\<close>, \<open>main.cpp\<close>): from a valid command line the program
    reaches its end, every rate is reported and every line is in the CSV file; an interrupt is reported
    and ends it with 0; a refused command line leaves everything untouched; every return value is 0 or 1,
    and with 1 the output says why.
  \<^item> \<open>Lifetime\<close>: memory and descriptors of all constructors and destructors, in a monad with a calculus of
    weakest preconditions; whatever call or setter fails, nothing is freed twice, and what is left at
    the end is described exactly: a thread whose setter threw before it reached the pool.

  \<^bold>\<open>Conventions.\<close> A fallible operation returns \<open>exn + 'a\<close>, together with the state it leaves where the state
  is seen afterwards. Undefined behaviour of C++ (signed overflow, division by zero, conversions out
  of range, a null pointer) is the error \<open>UndefinedBehaviour\<close>, so a theorem that an operation returns
  \<open>Inr\<close> also shows that there is none. What the program prints is a list of type \<open>printed list\<close>; the CSV
  file is the text it contains, and a write to it may fail after a part of the line. Integers whose width matters are words. What clocks, sockets,
  random numbers, files and signals deliver is an argument: one value per call, or a list of values
  for a loop. A loop over such a list returns \<open>None\<close> if the list ends first; theorems about what a
  loop does state that it returns, from a hypothesis on the list alone: that there is a reading
  after the deadline of each slice and readings for each packet (\<open>slices_ready\<close>, \<open>enough\<close>), a reading
  after the time-out (\<open>waits_end\<close>), a round of the monitor loop that sees the threads stopped and one of
  the receiver that sees its stop request (\<open>session_ends\<close>). No other fuel is used. Where a single
  thread is run, the others are given by the number of their draws in between; \<open>Thread_Pool\<close> shows that
  the mutex of the payload justifies this.

  \<^bold>\<open>Parameters.\<close> The \<open>ppl7\<close> library, the resolver library and \<open>libpcap\<close> are not part of the sources.
  What is called of them is in the records \<open>query_lib\<close> (splitting, \<open>res_mkquery\<close>), \<open>file_lib\<close>, \<open>arg_lib\<close>,
  \<open>net_lib\<close> and \<open>array_lib\<close>; system calls whose failure matters are in \<open>sys_env\<close> and \<open>bsd_env\<close>; \<open>destroyAllThreads\<close> and the destructor of
  \<open>ppl7::ThreadPool\<close> are arguments of the model of the objects' lifetime. The hypotheses
  on them are named predicates, each shown to hold for a concrete instance where a property uses it.

  \<^bold>\<open>Interfaces.\<close> \<open>field\<close> and \<open>two_fields\<close> (what a load returns after a store, for the nine pairs of field
  sizes); \<open>checksum_code\<close> (a sum that verifies, for \<open>in_cksum\<close>); \<open>rounding\<close> (monotone, exact on integers,
  with a relative error, for \<open>dbl\<close> and \<open>flt\<close>); \<open>cyclic_source\<close> (a source that repeats a list, for
  \<open>getQuery\<close>); \<open>bpf_machine\<close> (the instructions the filter uses and the end of the program, for
  \<open>bpf_exec\<close>); \<open>column\<close> (a text without
  the separator, for the conversions of the CSV file); \<open>owner\<close> and \<open>two_owners\<close> (a constructor that
  acquires what its destructor releases and nothing if it fails, for all classes; an object with
  two parts is an owner again).

  \<^bold>\<open>Bounds.\<close> Exponents of floating-point numbers are not bounded, see \<open>Floating\<close>. Round-trip times are
  measured modulo six seconds, as the sixteen bits of the identifier allow. A rate, a number of
  threads and a run time are bounded where the code overflows beyond, and the properties name the
  bound.

  \<^bold>\<open>Not modelled.\<close> \<open>SystemStat::print\<close> and \<open>Network::print\<close>, which nothing calls; the sum \<open>total_idle\<close>, which
  nothing reads; the line that a sender thread with a limit prints when it starts, and what the signal
  handler prints (that it sets the flag is the stop request of the environment); the text that
  \<open>Exception::print\<close> of the library makes of an exception, whose place in the output is modelled; the
  creation and joining of operating system threads, and what the thread library does with an exception
  that leaves the body of a thread (\<open>UncaughtException\<close>); the libraries above; the build files, packaging
  and tests. What remains of the implementation files is licences, includes and declarations.
\<close>

section \<open>Properties that span components\<close>

subsection \<open>Round-trip times\<close>

lemma be16_stamped:
  assumes "2 \<le> length m"
  shows "be16 0 (stamped ts m) = unat ts"
proof -
  have "m[0 := hi8 ts, 1 := lo8 ts] ! 0 = hi8 ts" "m[0 := hi8 ts, 1 := lo8 ts] ! 1 = lo8 ts"
  proof -
    have "0 < length m" "1 < length m" using assms by linarith+
    then show "m[0 := hi8 ts, 1 := lo8 ts] ! 0 = hi8 ts" "m[0 := hi8 ts, 1 := lo8 ts] ! 1 = lo8 ts"
      by (simp_all add: nth_list_update)
  qed
  then show ?thesis by (simp add: be16_def stamped_def unat_simps)
qed

text \<open>
  C7. The round trip end to end: a query that a thread sends at time \<open>t0\<close>, answered with the same DNS
  identifier in a frame that the receiver accepts at time \<open>t1\<close> at most 5.9999 seconds later, adds to
  the receiver's statistics a round-trip time that differs from the time that passed by less than
  0.2 milliseconds.
\<close>

theorem round_trip_measured:
  assumes "thread_inv th" and "supplied th pf"
    and "sendPacket (env # envs) th pf = Some (Inr (), th', pf')" and "env_clock env = Some t0"
    and "listens src port r" and "frame_from src port f" and "46 \<le> length f" and "length f \<le> 4096"
    and "be16 42 f = be16 28 (wire th')"
    and "valid_timeval t0" and "valid_timeval t1"
    and "seconds t0 \<le> seconds t1" and "seconds t1 - seconds t0 \<le> 59999 / 10000"
  shows "\<exists>r' c' rtt. receive (Some t1) (Some f) r c = (r', Inr c') \<and> num_pkgs c' = num_pkgs c + 1 \<and>
    rtt_total c' = dbl (rtt_total c + rtt) \<and> rtt_max c' = max (rtt_max c) rtt \<and>
    \<bar>rtt - (seconds t1 - seconds t0)\<bar> < 1 / 5000"
proof -
  define ts where "ts = getQueryTimestamp (Some t0)"
  obtain th1 pf1 where s: "sendPacket (env # envs) th pf = Some (Inr (), th1, pf1)" "sent env (hd (payload_cycle pf)) th th1"
    using sendPacket_ok [OF assms(1,2)] by metis
  obtain pf2 where "query_wf (th_payloadIsPcap th) (hd (payload_cycle pf))" using supplied_query [OF assms(2)] by metis
  then have m: "3 \<le> length (base_message (th_payloadIsPcap th) (dnssec_due th) (hd (payload_cycle pf)))"
    using base_message_bounds by blast
  have w: "drop 28 (wire th') = stamped ts (base_message (th_payloadIsPcap th) (dnssec_due th) (hd (payload_cycle pf)))"
    using s assms(3,4) by (simp add: sent_def ts_def)
  have "length (drop 28 (wire th')) \<ge> 3" unfolding w using m by (simp add: stamped_def)
  then have "be16 28 (wire th') = be16 0 (drop 28 (wire th'))" by (simp add: be16_def)
  then have "be16 42 f = unat ts" unfolding assms(9) w using be16_stamped m by simp
  then have rtt: "frame_rtt (Some t1, f) = getQueryRTT (Some t1) (getQueryTimestamp (Some t0))"
    by (simp add: frame_rtt_def ts_def)
  have "receive (Some t1) (Some f) r c = (r\<lparr>rbuffer := blit 0 f (rbuffer r)\<rparr>, Inr (observe (Some t1, f) c))"
    using receive_eq(1) [OF assms(5,7,8)] assms(6) by simp
  moreover have "\<bar>frame_rtt (Some t1, f) - (seconds t1 - seconds t0)\<bar> < 1 / 5000"
    unfolding rtt by (rule getQueryRTT_error [OF assms(10-13)])
  ultimately show ?thesis
    by (intro exI [of _ "r\<lparr>rbuffer := blit 0 f (rbuffer r)\<rparr>"] exI [of _ "observe (Some t1, f) c"]
        exI [of _ "frame_rtt (Some t1, f)"]) (simp add: observe_def)
qed

theorem round_trip_measured_witness:
  "\<exists>r' c' rtt. receive (Some \<lparr>tv_sec = 1, tv_usec = 900\<rparr>) (Some (demo_answer 17 0x27 0x15)) (rt_socket demo_receiver)
       (Counter_new (replicate 16 0)) = (r', Inr c') \<and>
     rtt_total c' = dbl rtt \<and> \<bar>rtt - 4 / 10000\<bar> < 1 / 5000"
proof -
  let ?t0 = "\<lparr>tv_sec = 1, tv_usec = 500\<rparr>" and ?t1 = "\<lparr>tv_sec = 1, tv_usec = 900\<rparr>"
  let ?f = "demo_answer 17 0x27 0x15" and ?c = "Counter_new (replicate 16 0)"
  obtain th' pf' where s: "sendPacket [demo_env] demo_thread demo_payload = Some (Inr (), th', pf')"
      "sent demo_env (hd (payload_cycle demo_payload)) demo_thread th'"
    using sendPacket_ok [OF demo_thread_ok] by metis
  have ts: "getQueryTimestamp (Some ?t0) = 10005" by (simp add: getQueryTimestamp_def signed_modulo_int_def)
  have w: "drop 28 (wire th') = stamped 10005 (replicate 12 0 @ [15])"
    using s(2) ts by (simp add: sent_def demo_env_def base_message_def demo_thread_def DNSSenderThread_new_def
        dnssec_due_def payload_cycle_def demo_payload_def)
  then have "be16 0 (drop 28 (wire th')) = 10005" by (simp add: be16_stamped)
  moreover have "length (drop 28 (wire th')) \<ge> 2" unfolding w by (simp add: stamped_def)
  then have "be16 28 (wire th') = be16 0 (drop 28 (wire th'))" by (simp add: be16_def)
  ultimately have id: "be16 42 ?f = be16 28 (wire th')" by (simp add: demo_answer_ok)
  have clk: "env_clock demo_env = Some ?t0" by (simp add: demo_env_def)
  have v: "valid_timeval ?t0" "valid_timeval ?t1" "seconds ?t0 \<le> seconds ?t1" "seconds ?t1 - seconds ?t0 \<le> 59999 / 10000"
      "seconds ?t1 - seconds ?t0 = 4 / 10000"
    by (simp_all add: valid_timeval_def seconds_def)
  have len: "46 \<le> length ?f" "length ?f \<le> 4096" by (simp_all add: demo_answer_ok)
  from round_trip_measured [OF demo_thread_ok s(1) clk demo_receiver_ok(1) demo_answer_ok(2) len id v(1-4), of ?c]
  show ?thesis unfolding v(5) by (auto simp: Counter_new_def)
qed

end
